(* ===== verification/Prelude.thy ===== *)
theory Prelude
  imports Main "HOL-Library.Word"
begin

text \<open>
  Shared vocabulary of the development: the result type of kernel code, its
  sequencing operator, the collections of rewrite rules the component theories
  add to, and generic facts about words and natural numbers.

  A kernel routine that returns a value \<open>a\<close> is modelled by an expression of type
  \<open>'a result\<close>:
  \<^item> \<open>None\<close>: the routine never returns (a loop that runs forever);
  \<^item> \<open>Some (Inl e)\<close>: it stops with a fault, that is a call of \<open>panic\<close> or an access
    the C standard leaves undefined (an index outside an array, a null pointer);
  \<^item> \<open>Some (Inr a)\<close>: it returns \<open>a\<close>.
\<close>

section \<open>Results of kernel code\<close>

datatype fault =
    Panic string        \<comment> \<open>\<open>panic(msg)\<close>\<close>
  | OutOfBounds string  \<comment> \<open>an index outside the named array\<close>
  | BadAddress nat      \<comment> \<open>an access to an address that is not mapped\<close>
  | DivByZero string
  | Overflow            \<comment> \<open>a signed integer overflow\<close>

type_synonym 'a result = "(fault + 'a) option"

abbreviation Ok :: "'a \<Rightarrow> 'a result" where
  "Ok a \<equiv> Some (Inr a)"

abbreviation Err :: "fault \<Rightarrow> 'a result" where
  "Err e \<equiv> Some (Inl e)"

definition bindr :: "'a result \<Rightarrow> ('a \<Rightarrow> 'b result) \<Rightarrow> 'b result" where
  "bindr m f = (case m of None \<Rightarrow> None | Some (Inl e) \<Rightarrow> Some (Inl e) | Some (Inr a) \<Rightarrow> f a)"

lemma bindr_simps [simp]:
  "bindr None f = None"
  "bindr (Err e) f = Err e"
  "bindr (Ok a) f = f a"
  by (simp_all add: bindr_def)

lemma bindr_OkE:
  assumes "bindr m f = Ok b"
  obtains a where "m = Ok a" and "f a = Ok b"
  using assms by (auto simp: bindr_def split: option.splits sum.splits)

lemma bindr_assoc: "bindr (bindr m f) g = bindr m (\<lambda>a. bindr (f a) g)"
  by (auto simp: bindr_def split: option.splits sum.splits)

lemma bindr_mono [partial_function_mono]:
  assumes mf: "mono_option B" and mg: "\<And>y. mono_option (\<lambda>f. C y f)"
  shows "mono_option (\<lambda>f. bindr (B f) (\<lambda>y. C y f))"
proof (rule monotoneI)
  fix f g :: "'a \<Rightarrow> 'b option"
  assume fg: "fun_ord option_ord f g"
  with mf have B: "option_ord (B f) (B g)" by (rule monotoneD [of _ _ _ f g])
  from mg fg have C: "option_ord (C y f) (C y g)" for y by (rule monotoneD [of _ _ _ f g])
  show "option_ord (bindr (B f) (\<lambda>y. C y f)) (bindr (B g) (\<lambda>y. C y g))"
  proof (cases "B f = None")
    case True
    then show ?thesis by (simp add: flat_ord_def)
  next
    case False
    with B have "B g = B f" by (auto simp: flat_ord_def)
    with C show ?thesis by (auto simp: bindr_def flat_ord_def split: option.splits sum.splits)
  qed
qed

section \<open>Collections of rewrite rules\<close>

named_theorems lock_simps  \<open>the effect of lock operations on the kernel state\<close>
named_theorems slot_simps  \<open>reading and writing the two-bit states of the buddy tree\<close>
named_theorems mem_simps   \<open>reading and writing byte memory\<close>

section \<open>Natural numbers: halving and powers of two\<close>

lemma div_pow2_step: "(v::nat) div 2 div 2 ^ k = v div 2 ^ Suc k"
  by (simp add: div_mult2_eq)

lemma div_pow2_step': "(v::nat) div 2 ^ Suc k = v div 2 ^ k div 2"
  by (simp add: div_mult2_eq [symmetric] mult.commute)

lemma pow2_div_bounds:
  assumes "2 ^ (l + k) \<le> (v::nat)" and "v < 2 ^ Suc (l + k)"
  shows "2 ^ l \<le> v div 2 ^ k \<and> v div 2 ^ k < 2 ^ Suc l"
proof
  show "2 ^ l \<le> v div 2 ^ k"
    using assms(1) by (simp add: less_eq_div_iff_mult_less_eq power_add)
  show "v div 2 ^ k < 2 ^ Suc l"
    using assms(2) by (simp add: div_less_iff_less_mult power_add mult.commute mult.left_commute)
qed

lemma div_eq_bounds:
  assumes "0 < (b::nat)"
  shows "r div b = q \<longleftrightarrow> q * b \<le> r \<and> r < q * b + b"
proof
  assume "r div b = q"
  then show "q * b \<le> r \<and> r < q * b + b"
    using dividend_less_div_times [OF assms, of r] by auto
next
  assume "q * b \<le> r \<and> r < q * b + b"
  then show "r div b = q" by (intro div_nat_eqI) (auto simp: algebra_simps)
qed

lemma half_level:
  assumes "2 ^ Suc l \<le> (v::nat)" and "v < 2 ^ Suc (Suc l)"
  shows "2 ^ l \<le> v div 2" and "v div 2 < 2 ^ Suc l"
  using assms by auto

lemma pow2_level_unique:
  assumes "2 ^ a \<le> (v::nat)" and "v < 2 ^ Suc a" and "2 ^ b \<le> v" and "v < 2 ^ Suc b"
  shows "a = b"
proof -
  have "(2::nat) ^ a < 2 ^ Suc b" and "(2::nat) ^ b < 2 ^ Suc a"
    using assms by linarith+
  then have "a < Suc b" and "b < Suc a"
    by (simp_all only: power_strict_increasing_iff [of "2::nat"] one_less_numeral_iff semiring_norm)
  then show ?thesis by simp
qed

end
