(* ===== verification/Spinlock.thy ===== *)
theory Spinlock
  imports Prelude
begin

text \<open>
  Spin locks (\<^verbatim>\<open>kernel/spinlock.c\<close>, \<^verbatim>\<open>kernel/spinlock.h\<close>) and the interrupt
  enable bit they guard (\<^verbatim>\<open>intr_on\<close>, \<^verbatim>\<open>intr_off\<close>, \<^verbatim>\<open>intr_get\<close> of
  \<^verbatim>\<open>kernel/riscv.h\<close>).

  The operations are given twice. As state-passing functions, run by one hart
  (\<open>acquire c lk s\<close>), they are what the other components call. As an interleaving
  machine (\<open>lock_step\<close>), in which any number of harts execute the statements of
  \<open>acquire\<close> and \<open>release\<close> one at a time in any order, they are what mutual
  exclusion is proved about.
\<close>

section \<open>State\<close>

text \<open>The spin locks of the kernel, by the object that holds them.\<close>

datatype sleeplockptr = BufSleepLock nat | InodeSleepLock nat

datatype lockptr =
    BuddyLock          \<comment> \<open>\<open>mem_tree.buddy_lock\<close>\<close>
  | RawCachesLock      \<comment> \<open>\<open>raw_caches_lock\<close>\<close>
  | CacheLock nat      \<comment> \<open>\<open>&cachep->lock\<close>, by the address of the \<open>cache_t\<close>\<close>
  | PidLock            \<comment> \<open>\<open>pid_lock\<close>\<close>
  | WaitLock           \<comment> \<open>\<open>wait_lock\<close>\<close>
  | ProcLock nat       \<comment> \<open>\<open>proc[i].lock\<close>\<close>
  | TicksLock          \<comment> \<open>\<open>tickslock\<close>\<close>
  | ConsLock           \<comment> \<open>\<open>cons.lock\<close>\<close>
  | TxLock             \<comment> \<open>\<open>tx_lock\<close>\<close>
  | PrLock             \<comment> \<open>\<open>pr.lock\<close>\<close>
  | BcacheLock         \<comment> \<open>\<open>bcache.lock\<close>\<close>
  | SleepInnerLock sleeplockptr  \<comment> \<open>\<open>lk->lk\<close> of a sleep lock\<close>
  | LogLock            \<comment> \<open>\<open>log.lock\<close>\<close>
  | ItableLock         \<comment> \<open>\<open>itable.lock\<close>\<close>
  | FtableLock         \<comment> \<open>\<open>ftable.lock\<close>\<close>
  | PipeLock nat       \<comment> \<open>\<open>&pi->lock\<close>, by the address of the \<open>pipe\<close>\<close>
  | VdiskLock          \<comment> \<open>\<open>disk.vdisk_lock\<close>\<close>

record spinlock =
  lk_locked :: "32 word"
  lk_name   :: string
  lk_cpu    :: "nat option"    \<comment> \<open>the hart, \<open>None\<close> for the null pointer\<close>

record cpu =
  noff   :: int    \<comment> \<open>a C \<open>int\<close>, taken as a mathematical integer: one nested \<open>push_off\<close> each, so its depth is that of the code\<close>
  intena :: bool

record klocks =
  locks :: "lockptr \<Rightarrow> spinlock"
  cpus  :: "nat \<Rightarrow> cpu"        \<comment> \<open>\<open>cpus[]\<close>, by hart id\<close>
  sie   :: "nat \<Rightarrow> bool"       \<comment> \<open>the \<open>SSTATUS_SIE\<close> bit of each hart\<close>

section \<open>Operations\<close>

definition intr_get :: "nat \<Rightarrow> 'z klocks_scheme \<Rightarrow> bool" where
  "intr_get c s = sie s c"

definition intr_on :: "nat \<Rightarrow> 'z klocks_scheme \<Rightarrow> 'z klocks_scheme" where
  "intr_on c s = s\<lparr>sie := (sie s)(c := True)\<rparr>"

definition intr_off :: "nat \<Rightarrow> 'z klocks_scheme \<Rightarrow> 'z klocks_scheme" where
  "intr_off c s = s\<lparr>sie := (sie s)(c := False)\<rparr>"

definition initlock :: "lockptr \<Rightarrow> string \<Rightarrow> 'z klocks_scheme \<Rightarrow> 'z klocks_scheme" where
  "initlock lk name s =
     s\<lparr>locks := (locks s)(lk := \<lparr>lk_locked = 0, lk_name = name, lk_cpu = None\<rparr>)\<rparr>"

definition push_off :: "nat \<Rightarrow> 'z klocks_scheme \<Rightarrow> 'z klocks_scheme" where
  "push_off c s =
     (let old = intr_get c s;
          s = intr_off c s;
          s = (if noff (cpus s c) = 0
               then s\<lparr>cpus := (cpus s)(c := (cpus s c)\<lparr>intena := old\<rparr>)\<rparr> else s)
      in s\<lparr>cpus := (cpus s)(c := (cpus s c)\<lparr>noff := noff (cpus s c) + 1\<rparr>)\<rparr>)"

definition pop_off :: "nat \<Rightarrow> 'z klocks_scheme \<Rightarrow> 'z klocks_scheme result" where
  "pop_off c s =
     (if intr_get c s then Err (Panic ''pop_off - interruptible'')
      else if noff (cpus s c) < 1 then Err (Panic ''pop_off'')
      else let s = s\<lparr>cpus := (cpus s)(c := (cpus s c)\<lparr>noff := noff (cpus s c) - 1\<rparr>)\<rparr>
           in Ok (if noff (cpus s c) = 0 \<and> intena (cpus s c) then intr_on c s else s))"

definition holding :: "nat \<Rightarrow> lockptr \<Rightarrow> 'z klocks_scheme \<Rightarrow> bool" where
  "holding c lk s = (lk_locked (locks s lk) \<noteq> 0 \<and> lk_cpu (locks s lk) = Some c)"

text \<open>\<open>__sync_lock_test_and_set(&lk->locked, 1)\<close>: the old value and the new state.\<close>

definition test_and_set :: "lockptr \<Rightarrow> 'z klocks_scheme \<Rightarrow> 32 word \<times> 'z klocks_scheme" where
  "test_and_set lk s =
     (lk_locked (locks s lk), s\<lparr>locks := (locks s)(lk := (locks s lk)\<lparr>lk_locked := 1\<rparr>)\<rparr>)"

text \<open>The spin of \<open>acquire\<close>. While no other hart runs, a held lock is never released
  and the loop does not return.\<close>

partial_function (option) spin :: "lockptr \<Rightarrow> 'z klocks_scheme \<Rightarrow> 'z klocks_scheme result" where
  "spin lk s = (let (old, s') = test_and_set lk s in if old \<noteq> 0 then spin lk s' else Ok s')"

definition set_cpu :: "lockptr \<Rightarrow> nat option \<Rightarrow> 'z klocks_scheme \<Rightarrow> 'z klocks_scheme" where
  "set_cpu lk h s = s\<lparr>locks := (locks s)(lk := (locks s lk)\<lparr>lk_cpu := h\<rparr>)\<rparr>"

definition lock_release :: "lockptr \<Rightarrow> 'z klocks_scheme \<Rightarrow> 'z klocks_scheme" where
  "lock_release lk s = s\<lparr>locks := (locks s)(lk := (locks s lk)\<lparr>lk_locked := 0\<rparr>)\<rparr>"

definition acquire :: "nat \<Rightarrow> lockptr \<Rightarrow> 'z klocks_scheme \<Rightarrow> 'z klocks_scheme result" where
  "acquire c lk s =
     (let s = push_off c s
      in if holding c lk s then Err (Panic ''acquire'')
         else bindr (spin lk s) (\<lambda>s. Ok (set_cpu lk (Some c) s)))"

definition release :: "nat \<Rightarrow> lockptr \<Rightarrow> 'z klocks_scheme \<Rightarrow> 'z klocks_scheme result" where
  "release c lk s =
     (if \<not> holding c lk s then Err (Panic ''release'')
      else let s = set_cpu lk None s;
               s = lock_release lk s
           in pop_off c s)"

section \<open>One hart: nesting, double acquisition, balanced use\<close>

text \<open>The interrupt state a hart keeps between kernel calls: inside a \<open>push_off\<close>
  region interrupts are off, and the nesting depth is never negative.\<close>

definition intr_ok :: "nat \<Rightarrow> 'z klocks_scheme \<Rightarrow> bool" where
  "intr_ok c s = (0 \<le> noff (cpus s c) \<and> (0 < noff (cpus s c) \<longrightarrow> \<not> sie s c))"

definition lock_free :: "lockptr \<Rightarrow> 'z klocks_scheme \<Rightarrow> bool" where
  "lock_free lk s = (lk_locked (locks s lk) = 0 \<and> lk_cpu (locks s lk) = None)"

text \<open>What a balanced critical section leaves behind: \<open>push_off\<close> records the interrupt
  bit in \<open>intena\<close> at depth 0, and nothing else changes.\<close>

definition note_intena :: "nat \<Rightarrow> 'z klocks_scheme \<Rightarrow> 'z klocks_scheme" where
  "note_intena c s =
     (if noff (cpus s c) = 0 then s\<lparr>cpus := (cpus s)(c := (cpus s c)\<lparr>intena := sie s c\<rparr>)\<rparr> else s)"

text \<open>The state inside a critical section of \<open>lk\<close> entered from \<open>s\<close>.\<close>

definition enter :: "nat \<Rightarrow> lockptr \<Rightarrow> 'z klocks_scheme \<Rightarrow> 'z klocks_scheme" where
  "enter c lk s =
     (push_off c s)\<lparr>locks := (locks s)(lk := (locks s lk)\<lparr>lk_locked := 1, lk_cpu := Some c\<rparr>)\<rparr>"

lemma spin_free: "lk_locked (locks s lk) = 0 \<Longrightarrow> spin lk s = Ok (snd (test_and_set lk s))"
  by (subst spin.simps) (simp add: test_and_set_def)

lemma spin_returns_free:
  assumes "spin lk s = Some r"
  shows "lk_locked (locks s lk) = 0"
proof (rule spin.raw_induct [where P = "\<lambda>lk s r. lk_locked (locks s lk) = 0", OF _ assms])
  fix f lk s r
  assume IH: "\<And>lk s r. f lk s = Some r \<Longrightarrow> lk_locked (locks s lk) = 0"
    and eq: "(let (old, s') = test_and_set lk s in if old \<noteq> 0 then f lk s' else Ok s') = Some r"
  show "lk_locked (locks s lk) = 0"
  proof (rule ccontr)
    assume "lk_locked (locks s lk) \<noteq> 0"
    with eq have "f lk (snd (test_and_set lk s)) = Some r"
      by (simp add: test_and_set_def)
    from IH [OF this] show False by (simp add: test_and_set_def)
  qed
qed

lemma push_off_locks [simp]: "locks (push_off c s) = locks s"
  by (simp add: push_off_def Let_def intr_off_def)

lemma push_off_sie: "sie (push_off c s) = (sie s)(c := False)"
  by (simp add: push_off_def Let_def intr_off_def)

lemma push_off_cpus:
  "cpus (push_off c s) =
     (cpus s)(c := \<lparr>noff = noff (cpus s c) + 1,
                     intena = (if noff (cpus s c) = 0 then sie s c else intena (cpus s c))\<rparr>)"
  by (cases "cpus s c") (simp add: push_off_def Let_def intr_off_def intr_get_def)

lemma acquire_free [lock_simps]:
  assumes "lock_free lk s"
  shows "acquire c lk s = Ok (enter c lk s)"
proof -
  have "lk_locked (locks (push_off c s) lk) = 0"
    using assms by (simp add: lock_free_def)
  then show ?thesis
    by (simp add: acquire_def holding_def spin_free test_and_set_def set_cpu_def enter_def)
qed

lemma acquire_held_by_other:
  assumes "lk_locked (locks s lk) \<noteq> 0" and "lk_cpu (locks s lk) \<noteq> Some c"
  shows "acquire c lk s = None"
proof -
  have "spin lk (push_off c s) = None"
    using assms(1) spin_returns_free [of lk "push_off c s"] by (cases "spin lk (push_off c s)") auto
  with assms(2) show ?thesis by (simp add: acquire_def holding_def)
qed

lemma enter_simps [lock_simps]:
  "locks (enter c lk s) = (locks s)(lk := (locks s lk)\<lparr>lk_locked := 1, lk_cpu := Some c\<rparr>)"
  "cpus (enter c lk s) = cpus (push_off c s)"
  "sie (enter c lk s) = (sie s)(c := False)"
  by (simp_all add: enter_def push_off_sie)

lemma holding_enter [lock_simps]: "holding c lk (enter c lk s)"
  by (simp add: holding_def enter_simps)

lemma acquire_twice [lock_simps]: "acquire c lk (enter c lk s) = Err (Panic ''acquire'')"
  by (simp add: acquire_def holding_def enter_simps)

lemma lock_free_enter [lock_simps]: "lock_free lk' (enter c lk s) = (lk' \<noteq> lk \<and> lock_free lk' s)"
  by (auto simp: lock_free_def enter_simps)

lemma intr_ok_enter [lock_simps]: "intr_ok c s \<Longrightarrow> intr_ok c (enter c lk s)"
  by (simp add: intr_ok_def enter_simps push_off_cpus)

lemma note_intena_enter [lock_simps]: "intr_ok c s \<Longrightarrow> note_intena c (enter c lk s) = enter c lk s"
  by (simp add: intr_ok_def note_intena_def enter_simps push_off_cpus)

lemma unlock_lock_free:
  assumes "lock_free lk s"
  shows "(locks s)(lk := (locks s lk)\<lparr>lk_cpu := None, lk_locked := 0\<rparr>) = locks s"
proof -
  have "(locks s lk)\<lparr>lk_cpu := None, lk_locked := 0\<rparr> = locks s lk"
    using assms by (cases "locks s lk") (simp add: lock_free_def)
  then show ?thesis by simp
qed

text \<open>Leaving a critical section: whatever the section did to the rest of the state,
  the lock, the depth and the interrupt bit are as they were before it was entered.\<close>

lemma release_exit:
  assumes free: "lock_free lk s" and ok: "intr_ok c s"
    and same: "locks s' = locks (enter c lk s)" "cpus s' = cpus (enter c lk s)"
      "sie s' = sie (enter c lk s)"
  shows "release c lk s' =
    Ok (s'\<lparr>locks := locks s, cpus := cpus (note_intena c s), sie := sie s\<rparr>)"
proof -
  let ?s1 = "lock_release lk (set_cpu lk None s')"
  have hold: "holding c lk s'"
    by (simp add: holding_def same enter_simps)
  have s1: "?s1 = s'\<lparr>locks := locks s\<rparr>"
    using unlock_lock_free [OF free]
    by (simp add: lock_release_def set_cpu_def same enter_simps)
  have pop: "pop_off c (s'\<lparr>locks := locks s\<rparr>) =
      Ok (s'\<lparr>locks := locks s, cpus := cpus (note_intena c s), sie := sie s\<rparr>)"
    using ok by (cases "cpus s c")
      (auto simp: pop_off_def intr_get_def intr_on_def same enter_simps push_off_cpus
        note_intena_def intr_ok_def Let_def fun_upd_idem)
  show ?thesis using hold pop by (simp add: release_def s1)
qed

text \<open>Nested \<open>push_off\<close> calls, undone by as many \<open>pop_off\<close> calls.\<close>

fun pops_off :: "nat \<Rightarrow> nat \<Rightarrow> 'z klocks_scheme \<Rightarrow> 'z klocks_scheme result" where
  "pops_off c 0 s = Ok s"
| "pops_off c (Suc n) s = bindr (pop_off c s) (pops_off c n)"

lemma pop_push_off:
  assumes "intr_ok c s"
  shows "pop_off c (push_off c s) = Ok (note_intena c s)"
  using assms by (cases "cpus s c")
    (auto simp: pop_off_def intr_get_def intr_on_def push_off_sie push_off_cpus note_intena_def
      intr_ok_def push_off_def intr_off_def Let_def fun_upd_idem)

lemma pushes_off_ok:
  assumes "intr_ok c s"
  shows "intr_ok c ((push_off c ^^ n) s)
    \<and> noff (cpus ((push_off c ^^ n) s) c) = noff (cpus s c) + int n
    \<and> (0 < n \<longrightarrow> \<not> sie ((push_off c ^^ n) s) c)"
  using assms by (induction n) (auto simp: intr_ok_def push_off_sie push_off_cpus)

text \<open>Nested \<open>push_off\<close> calls are matched: after \<open>n > 0\<close> of them interrupts are off,
  and \<open>n\<close> calls of \<open>pop_off\<close> return without a panic to the interrupt state, depth and
  locks of the start; only \<open>intena\<close> of the hart records the old interrupt bit.
\<close>

theorem push_pop_matched:
  assumes "intr_ok c s" and "0 < n"
  shows "\<not> sie ((push_off c ^^ n) s) c \<and> pops_off c n ((push_off c ^^ n) s) = Ok (note_intena c s)"
  using assms(2)
proof (induction n rule: nat_induct_non_zero)
  case 1
  show ?case using assms(1) by (simp add: push_off_sie pop_push_off)
next
  case (Suc n)
  let ?t = "(push_off c ^^ n) s"
  have t: "intr_ok c ?t" "noff (cpus ?t c) \<noteq> 0"
    using pushes_off_ok [OF assms(1), of n] Suc.hyps assms(1) by (auto simp: intr_ok_def)
  then have "pop_off c (push_off c ?t) = Ok ?t"
    by (simp add: pop_push_off note_intena_def)
  with Suc.IH show ?case by (simp add: push_off_sie)
qed

section \<open>Any number of harts: mutual exclusion\<close>

text \<open>
  Where each hart stands in \<open>acquire\<close> and \<open>release\<close> of one lock. A step executes one
  statement; the atomic swap is one step, so a waiting hart takes as many of them as it
  spins. \<open>Panicked\<close> is entered where the code calls \<open>panic\<close>.
\<close>

datatype lock_pc =
    Outside   \<comment> \<open>before \<open>acquire\<close>: about to call \<open>push_off\<close>\<close>
  | Check     \<comment> \<open>\<open>if(holding(lk)) panic("acquire")\<close>\<close>
  | Spinning  \<comment> \<open>\<open>while(__sync_lock_test_and_set(&lk->locked, 1) != 0)\<close>\<close>
  | SetCpu    \<comment> \<open>\<open>lk->cpu = mycpu()\<close>\<close>
  | Critical  \<comment> \<open>between \<open>acquire\<close> and \<open>release\<close>; next \<open>if(!holding(lk)) panic\<close>\<close>
  | ClearCpu  \<comment> \<open>\<open>lk->cpu = 0\<close>\<close>
  | Unlock    \<comment> \<open>\<open>__sync_lock_release(&lk->locked)\<close>\<close>
  | PopOff    \<comment> \<open>\<open>pop_off()\<close>\<close>
  | Panicked

inductive lock_step ::
  "lockptr \<Rightarrow> klocks \<times> (nat \<Rightarrow> lock_pc) \<Rightarrow> klocks \<times> (nat \<Rightarrow> lock_pc) \<Rightarrow> bool" for lk where
  push: "pc c = Outside \<Longrightarrow> lock_step lk (s, pc) (push_off c s, pc(c := Check))"
| check: "pc c = Check \<Longrightarrow>
    lock_step lk (s, pc) (s, pc(c := (if holding c lk s then Panicked else Spinning)))"
| swap: "pc c = Spinning \<Longrightarrow> test_and_set lk s = (old, s') \<Longrightarrow>
    lock_step lk (s, pc) (s', pc(c := (if old \<noteq> 0 then Spinning else SetCpu)))"
| own: "pc c = SetCpu \<Longrightarrow> lock_step lk (s, pc) (set_cpu lk (Some c) s, pc(c := Critical))"
| leave: "pc c = Critical \<Longrightarrow>
    lock_step lk (s, pc) (s, pc(c := (if holding c lk s then ClearCpu else Panicked)))"
| disown: "pc c = ClearCpu \<Longrightarrow> lock_step lk (s, pc) (set_cpu lk None s, pc(c := Unlock))"
| unlock: "pc c = Unlock \<Longrightarrow> lock_step lk (s, pc) (lock_release lk s, pc(c := PopOff))"
| pop: "pc c = PopOff \<Longrightarrow> pop_off c s = Ok s' \<Longrightarrow> lock_step lk (s, pc) (s', pc(c := Outside))"
| pop_panic: "pc c = PopOff \<Longrightarrow> pop_off c s = Err e \<Longrightarrow>
    lock_step lk (s, pc) (s, pc(c := Panicked))"

inductive lock_reachable ::
  "lockptr \<Rightarrow> klocks \<Rightarrow> klocks \<times> (nat \<Rightarrow> lock_pc) \<Rightarrow> bool" for lk s0 where
  start: "lock_reachable lk s0 (s0, \<lambda>_. Outside)"
| step: "lock_reachable lk s0 x \<Longrightarrow> lock_step lk x y \<Longrightarrow> lock_reachable lk s0 y"

inductive_cases lock_stepE: "lock_step lk (s, pc) (s', pc')"

definition owns :: "lock_pc \<Rightarrow> bool" where
  "owns p = (p \<in> {SetCpu, Critical, ClearCpu, Unlock})"

definition records :: "lock_pc \<Rightarrow> bool" where
  "records p = (p \<in> {Critical, ClearCpu})"

definition excl_inv :: "lockptr \<Rightarrow> klocks \<times> (nat \<Rightarrow> lock_pc) \<Rightarrow> bool" where
  "excl_inv lk x = (case x of (s, pc) \<Rightarrow>
     (\<forall>c d. owns (pc c) \<longrightarrow> owns (pc d) \<longrightarrow> c = d)
     \<and> (lk_locked (locks s lk) \<noteq> 0 \<longleftrightarrow> (\<exists>c. owns (pc c)))
     \<and> (\<forall>c. lk_cpu (locks s lk) = Some c \<longleftrightarrow> records (pc c))
     \<and> (\<forall>c. pc c \<noteq> Panicked)
     \<and> (\<forall>c. pc c \<noteq> Outside \<longrightarrow> \<not> sie s c \<and> 1 \<le> noff (cpus s c))
     \<and> (\<forall>c. pc c = Outside \<longrightarrow> intr_ok c s))"

lemma records_owns: "records p \<Longrightarrow> owns p"
  by (auto simp: records_def owns_def)

lemma owns_simps [simp]:
  "owns SetCpu" "owns Critical" "owns ClearCpu" "owns Unlock"
  "\<not> owns Outside" "\<not> owns Check" "\<not> owns Spinning" "\<not> owns PopOff" "\<not> owns Panicked"
  "records Critical" "records ClearCpu" "\<not> records SetCpu" "\<not> records Unlock"
  "\<not> records Outside" "\<not> records Check" "\<not> records Spinning" "\<not> records PopOff" "\<not> records Panicked"
  by (simp_all add: owns_def records_def)

lemma excl_move:
  assumes inv: "excl_inv lk (s, pc)"
    and lock: "lk_locked (locks s' lk) \<noteq> 0 \<longleftrightarrow> owns p \<or> (\<exists>d. d \<noteq> c \<and> owns (pc d))"
    and cpu: "\<And>d. lk_cpu (locks s' lk) = Some d \<longleftrightarrow> (if d = c then records p else records (pc d))"
    and only: "owns p \<Longrightarrow> owns (pc c) \<or> (\<forall>d. \<not> owns (pc d))"
    and p: "p \<noteq> Panicked"
    and intr: "p \<noteq> Outside \<Longrightarrow> \<not> sie s' c \<and> 1 \<le> noff (cpus s' c)" "p = Outside \<Longrightarrow> intr_ok c s'"
    and frame: "\<And>d. d \<noteq> c \<Longrightarrow> sie s' d = sie s d \<and> cpus s' d = cpus s d"
  shows "excl_inv lk (s', pc(c := p))"
  using assms unfolding excl_inv_def prod.case
  apply (intro conjI)
  subgoal by (auto split: if_splits)
  subgoal by auto
  subgoal by auto
  subgoal by auto
  subgoal by auto
  subgoal by (auto simp: intr_ok_def)
  done
lemma excl_at:
  assumes "excl_inv lk (s, pc)"
  shows "pc c \<noteq> Outside \<Longrightarrow> \<not> sie s c \<and> 1 \<le> noff (cpus s c)"
    and "pc c = Outside \<Longrightarrow> intr_ok c s"
    and "holding c lk s = records (pc c)"
    and "owns (pc c) \<Longrightarrow> owns (pc d) \<Longrightarrow> d = c"
    and "lk_locked (locks s lk) \<noteq> 0 \<longleftrightarrow> owns (pc c) \<or> (\<exists>d. d \<noteq> c \<and> owns (pc d))"
  using assms unfolding excl_inv_def prod.case
  subgoal by blast
  subgoal using assms unfolding excl_inv_def prod.case by blast
  subgoal using assms unfolding excl_inv_def prod.case holding_def by (metis records_owns)
  subgoal using assms unfolding excl_inv_def prod.case by blast
  subgoal using assms unfolding excl_inv_def prod.case by metis
  done

lemma excl_cpu: "excl_inv lk (s, pc) \<Longrightarrow> lk_cpu (locks s lk) = Some d \<longleftrightarrow> records (pc d)"
  by (auto simp: excl_inv_def)

lemma excl_alone:
  assumes "excl_inv lk (s, pc)" and "owns (pc c)" and "d \<noteq> c"
  shows "\<not> owns (pc d) \<and> \<not> records (pc d)"
  using assms excl_at(4) records_owns by metis

lemma pop_off_effect:
  assumes "pop_off c s = Ok s'"
  shows "locks s' = locks s" and "intr_ok c s'"
    and "d \<noteq> c \<Longrightarrow> sie s' d = sie s d \<and> cpus s' d = cpus s d"
  using assms
  by (auto simp: pop_off_def intr_get_def intr_on_def intr_ok_def Let_def split: if_splits)

lemma lock_step_excl: "lock_step lk x y \<Longrightarrow> excl_inv lk x \<Longrightarrow> excl_inv lk y"
proof (induction rule: lock_step.induct)
  case (push pc c s)
  note at = excl_at [where c = c, OF push(2)] excl_cpu [OF push(2)]
  show ?case
    by (rule excl_move [OF push(2)])
      (use push(1) at in \<open>auto simp: push_off_sie push_off_cpus intr_ok_def\<close>)
next
  case (check pc c s)
  note at = excl_at [where c = c, OF check(2)] excl_cpu [OF check(2)]
  have "\<not> holding c lk s" using check(1) at(3) by simp
  moreover have "excl_inv lk (s, pc(c := Spinning))"
    by (rule excl_move [OF check(2)]) (use check(1) at in \<open>auto simp del: not_le\<close>)
  ultimately show ?case by simp
next
  case (swap pc c s old s')
  note at = excl_at [where c = c, OF swap(3)] excl_cpu [OF swap(3)]
  have s': "s' = snd (test_and_set lk s)" "old = lk_locked (locks s lk)"
    using swap(2) by (auto simp: test_and_set_def)
  show ?case
  proof (cases "old = 0")
    case True
    then have free: "\<not> owns (pc d)" for d
      using at(5) s'(2) by (cases "d = c") auto
    have "excl_inv lk (s', pc(c := SetCpu))"
      by (rule excl_move [OF swap(3)])
        (use swap(1) at(1,6) free in \<open>auto simp: s'(1) test_and_set_def dest: records_owns\<close>)
    with True show ?thesis by simp
  next
    case False
    have "excl_inv lk (s', pc(c := Spinning))"
      by (rule excl_move [OF swap(3)])
        (use swap(1) at(1,5,6) False s'(2) in \<open>auto simp: s'(1) test_and_set_def\<close>)
    with False show ?thesis by simp
  qed
next
  case (own pc c s)
  note at = excl_at [where c = c, OF own(2)] excl_cpu [OF own(2)]
  have alone: "\<not> owns (pc d) \<and> \<not> records (pc d)" if "d \<noteq> c" for d
    using excl_alone [OF own(2) _ that] own(1) by simp
  show ?case
    by (rule excl_move [OF own(2)])
      (use own(1) at(1,5,6) alone in \<open>simp_all add: set_cpu_def\<close>)
next
  case (leave pc c s)
  note at = excl_at [where c = c, OF leave(2)] excl_cpu [OF leave(2)]
  have "holding c lk s" using leave(1) at(3) by simp
  moreover have "excl_inv lk (s, pc(c := ClearCpu))"
    by (rule excl_move [OF leave(2)]) (use leave(1) at in \<open>auto\<close>)
  ultimately show ?case by simp
next
  case (disown pc c s)
  note at = excl_at [where c = c, OF disown(2)] excl_cpu [OF disown(2)]
  have alone: "\<not> owns (pc d) \<and> \<not> records (pc d)" if "d \<noteq> c" for d
    using excl_alone [OF disown(2) _ that] disown(1) by simp
  show ?case
    by (rule excl_move [OF disown(2)])
      (use disown(1) at(1,5,6) alone in \<open>simp_all add: set_cpu_def\<close>)
next
  case (unlock pc c s)
  note at = excl_at [where c = c, OF unlock(2)] excl_cpu [OF unlock(2)]
  have alone: "\<not> owns (pc d) \<and> \<not> records (pc d)" if "d \<noteq> c" for d
    using excl_alone [OF unlock(2) _ that] unlock(1) by simp
  show ?case
    by (rule excl_move [OF unlock(2)])
      (use unlock(1) at(1,5,6) alone in \<open>simp_all add: lock_release_def, blast?\<close>)
next
  case (pop pc c s s')
  note at = excl_at [where c = c, OF pop(3)] excl_cpu [OF pop(3)]
  show ?case
    by (rule excl_move [OF pop(3)])
      (use pop(1) at(5,6) pop_off_effect [OF pop(2)] in \<open>simp_all\<close>)
next
  case (pop_panic pc c s e)
  then show ?case
    using excl_at(1) [where c = c, OF pop_panic(3)]
    by (auto simp add: pop_off_def intr_get_def Let_def split: if_splits)
qed

lemma lock_reachable_excl:
  assumes "lock_reachable lk s0 x" and "lock_free lk s0" and "\<And>c. intr_ok c s0"
  shows "excl_inv lk x"
  using assms(1)
proof (induction rule: lock_reachable.induct)
  case start
  show ?case using assms(2,3) by (simp add: excl_inv_def lock_free_def)
next
  case (step x y)
  then show ?case by (blast intro: lock_step_excl)
qed

text \<open>C15. Mutual exclusion. Whatever the interleaving of the statements of \<open>acquire\<close> and
  \<open>release\<close> executed by any number of harts on one lock, at most one hart is between
  the successful swap and the releasing store, \<open>holding\<close> answers truthfully (it is true
  exactly for the hart in the critical section), and no call of \<open>panic\<close> is reached.
\<close>

theorem mutual_exclusion:
  assumes "lock_free lk s0" and "\<And>c. intr_ok c s0" and "lock_reachable lk s0 (s, pc)"
  shows "(owns (pc c) \<and> owns (pc d) \<longrightarrow> c = d) \<and> (holding c lk s \<longleftrightarrow> records (pc c))
    \<and> pc c \<noteq> Panicked"
proof -
  have inv: "excl_inv lk (s, pc)"
    using lock_reachable_excl [OF assms(3,1,2)] .
  have "pc c \<noteq> Panicked" using inv by (simp add: excl_inv_def)
  with excl_at(3) [OF inv] excl_at(4) [OF inv, of d c] show ?thesis by blast
qed

definition boot_locks :: klocks where
  "boot_locks = \<lparr>locks = (\<lambda>_. \<lparr>lk_locked = 0, lk_name = [], lk_cpu = None\<rparr>),
     cpus = (\<lambda>_. \<lparr>noff = 0, intena = False\<rparr>), sie = (\<lambda>_. True)\<rparr>"

lemma boot_locks_ok [simp]: "lock_free lk boot_locks" "intr_ok c boot_locks"
  by (simp_all add: boot_locks_def lock_free_def intr_ok_def)

definition hart0_critical :: "klocks \<times> (nat \<Rightarrow> lock_pc)" where
  "hart0_critical = (set_cpu BuddyLock (Some 0) (snd (test_and_set BuddyLock (push_off 0 boot_locks))),
     (\<lambda>_. Outside)(0 := Critical))"

lemma hart0_critical_reachable: "lock_reachable BuddyLock boot_locks hart0_critical"
proof -
  let ?s1 = "push_off 0 boot_locks" and ?pc = "\<lambda>p. (\<lambda>_. Outside)((0::nat) := p)"
  have "lock_reachable BuddyLock boot_locks (?s1, ?pc Check)"
    by (rule lock_reachable.step [OF lock_reachable.start]) (rule lock_step.push, simp)
  moreover have "lock_step BuddyLock (?s1, ?pc Check) (?s1, ?pc Spinning)"
    using lock_step.check [of "?pc Check" 0 BuddyLock ?s1] by (simp add: holding_def boot_locks_def)
  moreover have "lock_step BuddyLock (?s1, ?pc Spinning) (snd (test_and_set BuddyLock ?s1), ?pc SetCpu)"
    using lock_step.swap [of "?pc Spinning" 0 BuddyLock ?s1 0 "snd (test_and_set BuddyLock ?s1)"]
    by (simp add: test_and_set_def boot_locks_def)
  moreover have "lock_step BuddyLock (snd (test_and_set BuddyLock ?s1), ?pc SetCpu) hart0_critical"
    using lock_step.own [of "?pc SetCpu" 0 BuddyLock] by (simp add: hart0_critical_def)
  ultimately show ?thesis by (blast intro: lock_reachable.step)
qed

theorem mutual_exclusion_witness:
  "lock_reachable BuddyLock boot_locks hart0_critical
   \<and> owns (snd hart0_critical 0) \<and> \<not> owns (snd hart0_critical 1)
   \<and> holding 0 BuddyLock (fst hart0_critical) \<and> snd hart0_critical 1 \<noteq> Panicked"
proof -
  obtain s pc where x: "hart0_critical = (s, pc)" by (cases hart0_critical)
  have r: "lock_reachable BuddyLock boot_locks (s, pc)"
    using hart0_critical_reachable by (simp add: x)
  have "records (pc 0)" "owns (pc 0)" using x by (auto simp: hart0_critical_def owns_def)
  then show ?thesis
    using r mutual_exclusion [OF boot_locks_ok(1) boot_locks_ok(2) r, of 0 1]
      mutual_exclusion [OF boot_locks_ok(1) boot_locks_ok(2) r, of 1 0] by (auto simp: x)
qed

text \<open>The same call on its own, in every state: \<open>acquire\<close> panics if this hart already holds the
  lock, returns in the critical section with interrupts off if the lock is free, and otherwise spins
  for as long as no other hart runs.\<close>

lemma acquire_outcome:
  "acquire c lk s = (if holding c lk s then Err (Panic ''acquire'')
     else if lk_locked (locks s lk) \<noteq> 0 then None else Ok (enter c lk s))"
proof (cases "lk_locked (locks s lk) = 0")
  case True
  then show ?thesis
    by (simp add: acquire_def holding_def spin_free test_and_set_def set_cpu_def enter_def)
next
  case False
  then show ?thesis
    using acquire_held_by_other [of s lk c] by (auto simp: acquire_def holding_def)
qed

text \<open>From a state in which hart \<open>d\<close> owns the lock, \<open>d\<close> alone can give it up in at most four steps.\<close>

fun to_unlock :: "lock_pc \<Rightarrow> nat" where
  "to_unlock SetCpu = 4" | "to_unlock Critical = 3" | "to_unlock ClearCpu = 2" | "to_unlock Unlock = 1" | "to_unlock _ = 0"

lemma owner_step:
  assumes inv: "excl_inv lk (s, pc)" and "owns (pc d)"
  shows "\<exists>s' p. lock_step lk (s, pc) (s', pc(d := p))
    \<and> (owns p \<and> to_unlock (pc d) = Suc (to_unlock p) \<or> p = PopOff \<and> to_unlock (pc d) = 1)"
proof -
  from assms(2) consider "pc d = SetCpu" | "pc d = Critical" | "pc d = ClearCpu" | "pc d = Unlock" by (auto simp: owns_def)
  then show ?thesis
  proof cases
    case 1
    then show ?thesis using lock_step.own [of pc d lk s] by (intro exI conjI) auto
  next
    case 2
    have "holding d lk s" using excl_at(3) [OF inv] 2 by simp
    then show ?thesis using 2 lock_step.leave [of pc d lk s] by (intro exI conjI) auto
  next
    case 3
    then show ?thesis using lock_step.disown [of pc d lk s] by (intro exI conjI) auto
  next
    case 4
    then show ?thesis using lock_step.unlock [of pc d lk s] by (intro exI conjI) auto
  qed
qed

lemma owner_releases:
  assumes "excl_inv lk (s, pc)" and "owns (pc d)" and "n = to_unlock (pc d)"
  shows "\<exists>s'. (lock_step lk ^^ n) (s, pc) (s', pc(d := PopOff)) \<and> excl_inv lk (s', pc(d := PopOff))"
  using assms
proof (induction n arbitrary: s pc)
  case 0
  then show ?case by (auto simp: owns_def)
next
  case (Suc n)
  obtain s1 p where st: "lock_step lk (s, pc) (s1, pc(d := p))"
    and p: "owns p \<and> to_unlock (pc d) = Suc (to_unlock p) \<or> p = PopOff \<and> to_unlock (pc d) = 1"
    using owner_step [OF Suc.prems(1,2)] by blast
  have inv: "excl_inv lk (s1, pc(d := p))" by (rule lock_step_excl [OF st Suc.prems(1)])
  show ?case
  proof (cases "p = PopOff")
    case True
    then have "n = 0" using p Suc.prems(3) by auto
    then have "(lock_step lk ^^ Suc n) (s, pc) (s1, pc(d := p))" using st relpowp_Suc_I2 [of "lock_step lk" "(s, pc)" "(s1, pc(d := p))" 0] by simp
    then show ?thesis using inv True by blast
  next
    case False
    then have "owns ((pc(d := p)) d)" "n = to_unlock ((pc(d := p)) d)" using p Suc.prems(3) by auto
    from Suc.IH [OF inv this] obtain s' where
      "(lock_step lk ^^ n) (s1, pc(d := p)) (s', pc(d := PopOff))" "excl_inv lk (s', pc(d := PopOff))" unfolding fun_upd_upd by blast
    then show ?thesis using st relpowp_Suc_I2 [of "lock_step lk" "(s, pc)" "(s1, pc(d := p))" n] by blast
  qed
qed

lemma free_enters:
  assumes inv: "excl_inv lk (s, pc)" and "pc c = Spinning" and "\<forall>d. \<not> owns (pc d)"
  shows "\<exists>s'. (lock_step lk ^^ 2) (s, pc) (s', pc(c := Critical)) \<and> holding c lk s'"
proof -
  have "lk_locked (locks s lk) = 0" using inv assms(3) by (auto simp: excl_inv_def)
  then have s1: "test_and_set lk s = (0, snd (test_and_set lk s))" by (simp add: test_and_set_def)
  let ?s1 = "snd (test_and_set lk s)"
  have "lock_step lk (s, pc) (?s1, pc(c := SetCpu))" using lock_step.swap [of pc c lk s 0 ?s1] assms(2) s1 by simp
  moreover have "lock_step lk (?s1, pc(c := SetCpu)) (set_cpu lk (Some c) ?s1, pc(c := Critical))"
    using lock_step.own [of "pc(c := SetCpu)" c lk ?s1] by simp
  ultimately have "(lock_step lk ^^ 2) (s, pc) (set_cpu lk (Some c) ?s1, pc(c := Critical))"
    unfolding numeral_2_eq_2 by (blast intro: relpowp_Suc_I2 relpowp_0_I)
  moreover have "holding c lk (set_cpu lk (Some c) ?s1)" by (simp add: holding_def set_cpu_def test_and_set_def)
  ultimately show ?thesis by blast
qed

text \<open>C16. A call of \<open>acquire\<close> that waits, in every interleaving of any number of harts: a hart at the atomic swap
  stays there as long as the lock is held, whatever hart steps, and never panics; and it is never stuck,
  since six steps at most, of the owner up to its releasing store and then of this hart, take it into its critical section.\<close>

theorem acquire_spins:
  assumes "lock_free lk s0" and "\<And>c. intr_ok c s0" and "lock_reachable lk s0 (s, pc)" and "pc c = Spinning"
  shows "(\<forall>s' pc'. lk_locked (locks s lk) \<noteq> 0 \<and> lock_step lk (s, pc) (s', pc') \<longrightarrow> pc' c = Spinning)
    \<and> (\<exists>n\<le>6. \<exists>s' pc'. (lock_step lk ^^ n) (s, pc) (s', pc') \<and> pc' c = Critical \<and> holding c lk s')"
proof (intro conjI allI impI)
  have inv: "excl_inv lk (s, pc)" using lock_reachable_excl [OF assms(3,1,2)] .
  show "pc' c = Spinning" if "lk_locked (locks s lk) \<noteq> 0 \<and> lock_step lk (s, pc) (s', pc')" for s' pc'
    using that assms(4) by (auto elim!: lock_stepE simp: test_and_set_def)
  show "\<exists>n\<le>6. \<exists>s' pc'. (lock_step lk ^^ n) (s, pc) (s', pc') \<and> pc' c = Critical \<and> holding c lk s'"
  proof (cases "\<exists>d. owns (pc d)")
    case False
    then obtain s' where "(lock_step lk ^^ 2) (s, pc) (s', pc(c := Critical))" "holding c lk s'"
      using free_enters [OF inv assms(4)] by blast
    then show ?thesis by (intro exI [of _ 2] conjI exI [of _ s'] exI [of _ "pc(c := Critical)"]) simp_all
  next
    case True
    then obtain d where d: "owns (pc d)" by blast
    then have ne: "d \<noteq> c" using assms(4) by auto
    obtain s1 where s1: "(lock_step lk ^^ to_unlock (pc d)) (s, pc) (s1, pc(d := PopOff))" "excl_inv lk (s1, pc(d := PopOff))"
      using owner_releases [OF inv d refl] by blast
    have "\<forall>e. \<not> owns ((pc(d := PopOff)) e)" using excl_alone [OF inv d] by auto
    moreover have "(pc(d := PopOff)) c = Spinning" using ne assms(4) by simp
    ultimately obtain s2 where s2: "(lock_step lk ^^ 2) (s1, pc(d := PopOff)) (s2, pc(d := PopOff, c := Critical))" "holding c lk s2"
      using free_enters [OF s1(2)] by blast
    have "(lock_step lk ^^ (to_unlock (pc d) + 2)) (s, pc) (s2, pc(d := PopOff, c := Critical))"
      unfolding relpowp_add using s1(1) s2(1) by (rule relcomppI)
    moreover have "to_unlock (pc d) \<le> 4" by (cases "pc d") simp_all
    ultimately show ?thesis using s2(2)
      by (intro exI [of _ "to_unlock (pc d) + 2"] conjI exI [of _ s2] exI [of _ "pc(d := PopOff, c := Critical)"]) simp_all
  qed
qed

lemma spinning_reachable: "lock_reachable BuddyLock boot_locks (push_off 1 (fst hart0_critical), (snd hart0_critical)(1 := Spinning))"
proof -
  obtain s pc where x: "hart0_critical = (s, pc)" by (cases hart0_critical)
  have pc: "pc 1 = Outside" "lk_cpu (locks s BuddyLock) = Some 0" using x by (auto simp: hart0_critical_def set_cpu_def test_and_set_def)
  have "lock_reachable BuddyLock boot_locks (push_off 1 s, pc(1 := Check))"
    using lock_reachable.step [OF hart0_critical_reachable [unfolded x] lock_step.push [of pc 1, OF pc(1)]] .
  moreover have "\<not> holding 1 BuddyLock (push_off 1 s)" using pc(2) by (simp add: holding_def push_off_locks)
  ultimately show ?thesis
    using lock_reachable.step [OF _ lock_step.check [of "pc(1 := Check)" 1 BuddyLock "push_off 1 s"]] by (simp add: x)
qed

theorem acquire_spins_witness:
  "\<exists>n\<le>6. \<exists>s' pc'. (lock_step BuddyLock ^^ n) (push_off 1 (fst hart0_critical), (snd hart0_critical)(1 := Spinning)) (s', pc')
     \<and> pc' 1 = Critical \<and> holding 1 BuddyLock s'"
  using acquire_spins [OF boot_locks_ok(1) boot_locks_ok(2) spinning_reachable, of 1] by simp

theorem push_pop_matched_witness:
  "\<not> sie ((push_off 0 ^^ 2) boot_locks) 0
   \<and> pops_off 0 2 ((push_off 0 ^^ 2) boot_locks) = Ok (note_intena 0 boot_locks)"
  by (rule push_pop_matched) simp_all

end
