(* ===== verification/Buddy.thy ===== *)
theory Buddy
  imports Spinlock
begin

text \<open>
  The buddy allocator (\<^verbatim>\<open>kernel/buddy_kalloc.c\<close>, \<^verbatim>\<open>kernel/buddy_kalloc.h\<close>): the
  definitions, one per function of the source and in its order, and the facts about the
  packed representation: \<open>my_clz\<close>, the two-bit states, and the translation between
  node indices and addresses. The tree algorithms are analysed in
  \<^verbatim>\<open>Buddy_Tree\<close>, \<^verbatim>\<open>Buddy_Alloc\<close> and \<^verbatim>\<open>Buddy_Init\<close>.

  Node 1 is the root, node \<open>v\<close> has the sons \<open>2v\<close> and \<open>2v + 1\<close>; level \<open>l\<close> holds the nodes
  \<open>2^l \<dots> 2^(l+1) - 1\<close>, and a node of level 15 is one 4096-byte page. Node indices
  (\<open>long\<close>, never negative in this code) and addresses (\<open>uint64\<close>) are natural numbers;
  subtraction of addresses wraps at 64 bits. The byte array \<open>mem_tree.tree\<close> is a
  function on indices, and an access at an index that is not below \<open>TREE_SIZE\<close> is the
  fault \<open>OutOfBounds\<close>. \<open>end\<close>, which the linker provides, is the argument \<open>kend\<close>.
\<close>

unbundle bit_operations_syntax

section \<open>Constants and state\<close>

abbreviation BUDDY_TREE_LEVEL :: nat where "BUDDY_TREE_LEVEL \<equiv> 15"
abbreviation SLOT_EMPTY :: "8 word" where "SLOT_EMPTY \<equiv> 0"
abbreviation SLOT_SPLIT :: "8 word" where "SLOT_SPLIT \<equiv> 1"
abbreviation SLOT_FULL :: "8 word" where "SLOT_FULL \<equiv> 3"
abbreviation MEM_SIZE :: nat where "MEM_SIZE \<equiv> 134217728"
abbreviation TREE_SIZE :: nat where "TREE_SIZE \<equiv> 16384"
abbreviation KERNBASE :: nat where "KERNBASE \<equiv> 2147483648"
abbreviation PHYSTOP :: nat where "PHYSTOP \<equiv> 2281701376"
abbreviation PGSIZE :: nat where "PGSIZE \<equiv> 4096"

definition PGROUNDUP :: "nat \<Rightarrow> nat" where
  "PGROUNDUP sz = (sz + PGSIZE - 1) mod 2 ^ 64 div PGSIZE * PGSIZE"

definition sub64 :: "nat \<Rightarrow> nat \<Rightarrow> nat" where
  "sub64 a b = (a + 2 ^ 64 - b) mod 2 ^ 64"

type_synonym tree = "nat \<Rightarrow> 8 word"

record buddy = klocks +
  tree :: tree

record buddy_stack =
  vindex_stack :: "nat list"
  top :: nat

section \<open>Operations\<close>

definition empty :: "buddy_stack \<Rightarrow> bool" where
  "empty stack = (top stack = 0)"

text \<open>\<open>None\<close> where the source returns 0.\<close>

definition push :: "buddy_stack \<Rightarrow> nat \<Rightarrow> buddy_stack option" where
  "push stack vindex =
     (if top stack = BUDDY_TREE_LEVEL then None
      else Some (stack\<lparr>vindex_stack := (vindex_stack stack)[top stack := vindex],
                       top := top stack + 1\<rparr>))"

definition pop :: "buddy_stack \<Rightarrow> (nat \<times> buddy_stack) option" where
  "pop stack =
     (if top stack = 0 then None
      else Some (vindex_stack stack ! (top stack - 1), stack\<lparr>top := top stack - 1\<rparr>))"

definition init_buddy_stack :: buddy_stack where
  "init_buddy_stack = \<lparr>vindex_stack = replicate BUDDY_TREE_LEVEL 0, top = 0\<rparr>"

definition my_clz :: "64 word \<Rightarrow> nat" where
  "my_clz x =
     (if x = 0 then 64 else
      let n = 0;
          (n, x) = (if x \<le> 0x00000000FFFFFFFF then (n + 32, push_bit 32 x) else (n, x));
          (n, x) = (if x \<le> 0x0000FFFFFFFFFFFF then (n + 16, push_bit 16 x) else (n, x));
          (n, x) = (if x \<le> 0x00FFFFFFFFFFFFFF then (n + 8, push_bit 8 x) else (n, x));
          (n, x) = (if x \<le> 0x0FFFFFFFFFFFFFFF then (n + 4, push_bit 4 x) else (n, x));
          (n, x) = (if x \<le> 0x3FFFFFFFFFFFFFFF then (n + 2, push_bit 2 x) else (n, x));
          n = (if x \<le> 0x7FFFFFFFFFFFFFFF then n + 1 else n)
      in n)"

definition vindex_to_rindex :: "nat \<Rightarrow> nat" where
  "vindex_to_rindex vindex = drop_bit 2 vindex"

definition go_left :: "nat \<Rightarrow> nat" where
  "go_left vindex = push_bit 1 vindex"

definition go_right :: "nat \<Rightarrow> nat" where
  "go_right vindex = push_bit 1 vindex OR 1"

definition get_state :: "tree \<Rightarrow> nat \<Rightarrow> 8 word result" where
  "get_state t vindex =
     (let rindex = vindex_to_rindex vindex;
          shift = push_bit 1 (vindex mod 4)
      in if rindex < TREE_SIZE then Ok (drop_bit shift (t rindex) AND 3)
         else Err (OutOfBounds ''mem_tree.tree''))"

definition set_state :: "tree \<Rightarrow> nat \<Rightarrow> 8 word \<Rightarrow> tree result" where
  "set_state t vindex state =
     (let rindex = vindex_to_rindex vindex;
          shift = push_bit 1 (vindex mod 4)
      in if rindex < TREE_SIZE
         then let t = t(rindex := t rindex AND NOT (push_bit shift 3))
              in Ok (t(rindex := t rindex OR push_bit shift (state AND 3)))
         else Err (OutOfBounds ''mem_tree.tree''))"

definition get_level :: "nat \<Rightarrow> int" where
  "get_level vindex = 63 - int (my_clz (of_nat vindex))"

definition is_left_son :: "nat \<Rightarrow> bool" where
  "is_left_son vindex = (vindex mod 2 = 0)"

definition go_up :: "nat \<Rightarrow> nat" where
  "go_up vindex = drop_bit 1 vindex"

definition get_adr :: "nat \<Rightarrow> nat result" where
  "get_adr vindex =
     (if vindex = 0 then Err (Panic ''vindex problem in get_adr'')
      else let level = nat (get_level vindex);
               mask = push_bit level 1;
               offset = vindex XOR mask;
               block_size = drop_bit level MEM_SIZE
           in Ok ((KERNBASE + offset * block_size) mod 2 ^ 64))"

definition get_vindex :: "nat \<Rightarrow> nat \<Rightarrow> nat" where
  "get_vindex adr level =
     (let rel_addr = sub64 adr KERNBASE;
          block_size = drop_bit level MEM_SIZE
      in push_bit level 1 + rel_addr div block_size)"

definition is_brother_full :: "tree \<Rightarrow> nat \<Rightarrow> (nat \<Rightarrow> nat) \<Rightarrow> bool result" where
  "is_brother_full t vindex mover = bindr (get_state t (mover vindex)) (\<lambda>st. Ok (st = SLOT_FULL))"

definition is_brother_empty :: "tree \<Rightarrow> nat \<Rightarrow> (nat \<Rightarrow> nat) \<Rightarrow> bool result" where
  "is_brother_empty t vindex mover = bindr (get_state t (mover vindex)) (\<lambda>st. Ok (st = SLOT_EMPTY))"

partial_function (option) update_upstairs_alloc :: "tree \<Rightarrow> nat \<Rightarrow> tree result" where
  "update_upstairs_alloc t vindex =
     (if vindex = 1 then Ok t
      else bindr (get_state t vindex) (\<lambda>state.
           let mover = (if is_left_son vindex then go_right else go_left);
               vindex = go_up vindex
           in bindr (is_brother_full t vindex mover) (\<lambda>full.
              bindr (if full \<and> state = SLOT_FULL then set_state t vindex SLOT_FULL
                     else set_state t vindex SLOT_SPLIT) (\<lambda>t.
              update_upstairs_alloc t vindex))))"

partial_function (option) update_upstairs_free :: "tree \<Rightarrow> nat \<Rightarrow> tree result" where
  "update_upstairs_free t vindex =
     (if vindex = 1 then Ok t
      else let mover = (if is_left_son vindex then go_right else go_left);
               vindex = go_up vindex
           in bindr (get_state t vindex) (\<lambda>state.
              if state = SLOT_FULL
              then bindr (set_state t vindex SLOT_SPLIT) (\<lambda>t. update_upstairs_free t vindex)
              else if state = SLOT_SPLIT
              then bindr (is_brother_empty t vindex mover) (\<lambda>emp.
                   if emp then bindr (set_state t vindex SLOT_EMPTY) (\<lambda>t. update_upstairs_free t vindex)
                   else Ok t)
              else update_upstairs_free t vindex))"

text \<open>
  The inner loop of \<open>locate_free_block\<close>: \<open>Inl r\<close> where the function returns \<open>r\<close> from
  inside the loop, otherwise the variables \<open>virtual_index\<close>, \<open>curr_level\<close>, \<open>stack\<close> and
  \<open>found\<close> after it.
\<close>

function descend ::
  "tree \<Rightarrow> nat \<Rightarrow> nat \<Rightarrow> nat \<Rightarrow> buddy_stack \<Rightarrow> (nat + nat \<times> nat \<times> buddy_stack \<times> bool) result" where
  "descend t level virtual_index curr_level stack =
     (if curr_level \<le> level then
        bindr (get_state t virtual_index) (\<lambda>state.
        if state = SLOT_FULL then Ok (Inr (virtual_index, curr_level, stack, False))
        else if curr_level = level \<and> state = SLOT_EMPTY
        then Ok (Inr (virtual_index, curr_level, stack, True))
        else if curr_level = level then Ok (Inr (virtual_index, curr_level, stack, False))
        else if state = SLOT_EMPTY
        then descend t level (go_left virtual_index) (curr_level + 1) stack
        else if state = SLOT_SPLIT
        then bindr (get_state t (go_left virtual_index)) (\<lambda>ls.
             bindr (get_state t (go_right virtual_index)) (\<lambda>rs.
             if ls = SLOT_SPLIT \<and> rs = SLOT_SPLIT
             then (case push stack virtual_index of
                     None \<Rightarrow> Ok (Inl 0)
                   | Some stack \<Rightarrow> descend t level (go_left virtual_index) (curr_level + 1) stack)
             else if ls = SLOT_EMPTY
             then descend t level (go_left virtual_index) (curr_level + 1) stack
             else if rs = SLOT_EMPTY
             then descend t level (go_right virtual_index) (curr_level + 1) stack
             else if ls = SLOT_FULL \<and> rs = SLOT_SPLIT
             then descend t level (go_right virtual_index) (curr_level + 1) stack
             else if rs = SLOT_FULL \<and> ls = SLOT_SPLIT
             then descend t level (go_left virtual_index) (curr_level + 1) stack
             else Ok (Inr (virtual_index, curr_level, stack, False))))
        else Ok (Inr (virtual_index, curr_level, stack, False)))
      else Ok (Inr (virtual_index, curr_level, stack, False)))"
  by pat_completeness auto
termination
  by (relation "measure (\<lambda>(t, level, virtual_index, curr_level, stack). Suc level - curr_level)") auto

declare descend.simps [simp del]

text \<open>The outer loop and the end of \<open>locate_free_block\<close>: the value returned and \<open>*vindex\<close>.\<close>

partial_function (option) locate_loop ::
  "tree \<Rightarrow> nat \<Rightarrow> nat \<Rightarrow> nat \<Rightarrow> nat \<Rightarrow> buddy_stack \<Rightarrow> (nat \<times> nat) result" where
  "locate_loop t level vindex virtual_index curr_level stack =
     bindr (descend t level virtual_index curr_level stack) (\<lambda>r. case r of
       Inl ret \<Rightarrow> Ok (ret, vindex)
     | Inr (virtual_index, curr_level, stack, found) \<Rightarrow>
         if found \<or> empty stack
         then (if curr_level = level then Ok (curr_level, virtual_index) else Ok (0, vindex))
         else (case pop stack of
                 None \<Rightarrow> Ok (0, vindex)
               | Some (popped, stack) \<Rightarrow>
                   let virtual_index = go_right popped;
                       curr_level = nat (get_level virtual_index mod 2 ^ 16)
                   in locate_loop t level vindex virtual_index curr_level stack))"

definition locate_free_block :: "tree \<Rightarrow> nat \<Rightarrow> nat \<Rightarrow> (nat \<times> nat) result" where
  "locate_free_block t vindex level = locate_loop t level vindex vindex 0 init_buddy_stack"

definition buddy_kalloc :: "nat \<Rightarrow> nat \<Rightarrow> 'z buddy_scheme \<Rightarrow> (nat \<times> 'z buddy_scheme) result" where
  "buddy_kalloc c order s =
     (if order > BUDDY_TREE_LEVEL then Err (Panic ''Order too big'')
      else let level = BUDDY_TREE_LEVEL - order in
        bindr (acquire c BuddyLock s) (\<lambda>s.
        bindr (locate_free_block (tree s) 1 level) (\<lambda>(local_level, virtual_index).
        if local_level = 0 then bindr (release c BuddyLock s) (\<lambda>s. Ok (0, s))
        else bindr (get_state (tree s) virtual_index) (\<lambda>state.
          if state = SLOT_EMPTY then
            bindr (get_adr virtual_index) (\<lambda>adr.
            bindr (set_state (tree s) virtual_index SLOT_FULL) (\<lambda>t.
            bindr (update_upstairs_alloc t virtual_index) (\<lambda>t.
            bindr (release c BuddyLock (s\<lparr>tree := t\<rparr>)) (\<lambda>s. Ok (adr, s)))))
          else bindr (release c BuddyLock s) (\<lambda>s. Ok (0, s))))))"

definition buddy_kfree ::
  "nat \<Rightarrow> nat \<Rightarrow> nat \<Rightarrow> nat \<Rightarrow> 'z buddy_scheme \<Rightarrow> (nat \<times> 'z buddy_scheme) result" where
  "buddy_kfree c kend adr order s =
     (if order > BUDDY_TREE_LEVEL \<or> adr > PHYSTOP \<or> adr < kend then Err (Panic ''Invalid address'')
      else let level = BUDDY_TREE_LEVEL - order in
        bindr (acquire c BuddyLock s) (\<lambda>s.
        let virtual_index = get_vindex adr level in
        bindr (get_state (tree s) virtual_index) (\<lambda>state.
        if state \<noteq> SLOT_FULL then bindr (release c BuddyLock s) (\<lambda>s. Ok (0, s))
        else bindr (set_state (tree s) virtual_index SLOT_EMPTY) (\<lambda>t.
             bindr (update_upstairs_free t virtual_index) (\<lambda>t.
             bindr (release c BuddyLock (s\<lparr>tree := t\<rparr>)) (\<lambda>s. Ok (1, s)))))))"

text \<open>The loop of \<open>buddy_init\<close> that frees page after page from \<open>p\<close> on.\<close>

function buddy_init_loop :: "nat \<Rightarrow> nat \<Rightarrow> nat \<Rightarrow> 'z buddy_scheme \<Rightarrow> 'z buddy_scheme result" where
  "buddy_init_loop c kend p s =
     (if p + PGSIZE \<le> PHYSTOP
      then bindr (buddy_kfree c kend p 0 s) (\<lambda>(r, s). buddy_init_loop c kend (p + PGSIZE) s)
      else Ok s)"
  by pat_completeness auto
termination
  by (relation "measure (\<lambda>(c, kend, p, s). PHYSTOP - p)") auto

declare buddy_init_loop.simps [simp del]

definition buddy_init :: "nat \<Rightarrow> nat \<Rightarrow> 'z buddy_scheme \<Rightarrow> (nat \<times> 'z buddy_scheme) result" where
  "buddy_init c kend s =
     (let s = initlock BuddyLock ''buddy_lock'' s;
          s = s\<lparr>tree := (\<lambda>i. if i < TREE_SIZE then NOT 0 else tree s i)\<rparr>;
          p = PGROUNDUP kend
      in bindr (buddy_init_loop c kend p s) (\<lambda>s. Ok (1, s)))"

section \<open>Counting leading zeros\<close>

lemma unat_push_bit_64:
  fixes x :: "64 word"
  assumes "unat x * 2 ^ k < 2 ^ 64"
  shows "unat (push_bit k x) = unat x * 2 ^ k"
proof -
  have "unat (push_bit k x) = take_bit 64 (push_bit k (unat x))"
    by (simp only: unsigned_push_bit_eq) simp
  with assms show ?thesis by (simp add: push_bit_nat_def take_bit_nat_eq_self)
qed

text \<open>One halving step: \<open>X\<close> is the shifted value, below \<open>2^64\<close> and at least \<open>2^(64-2k)\<close>.\<close>

lemma clz_step:
  fixes x :: "64 word"
  assumes "unat x = X * 2 ^ n" and "2 ^ (64 - 2 * k) \<le> unat x" and "k \<le> 32"
    and "unat m + 1 = 2 ^ (64 - k)"
    and "(n', x') = (if x \<le> m then (n + k, push_bit k x) else (n, x))"
  shows "unat x' = X * 2 ^ n' \<and> 2 ^ (64 - k) \<le> unat x'"
proof (cases "x \<le> m")
  case True
  then have lt: "unat x < 2 ^ (64 - k)"
    using assms(4) by (simp add: word_le_nat_alt)
  have "unat x * 2 ^ k < 2 ^ (64 - k) * 2 ^ k"
    using lt by simp
  also have "(2::nat) ^ (64 - k) * 2 ^ k = 2 ^ 64"
    using assms(3) by (simp flip: power_add)
  finally have sh: "unat (push_bit k x) = unat x * 2 ^ k"
    by (rule unat_push_bit_64)
  have "(2::nat) ^ (64 - k) = 2 ^ (64 - 2 * k) * 2 ^ k"
    using assms(3) by (simp flip: power_add)
  also have "\<dots> \<le> unat x * 2 ^ k"
    using assms(2) by simp
  finally show ?thesis
    using True assms(1,5) sh by (simp add: power_add)
next
  case False
  then have "2 ^ (64 - k) \<le> unat x"
    using assms(4) by (simp add: word_le_nat_alt)
  with False assms(1,5) show ?thesis by simp
qed

lemma my_clz_shift:
  fixes x :: "64 word"
  assumes "x \<noteq> 0"
  shows "2 ^ 63 \<le> unat x * 2 ^ my_clz x \<and> unat x * 2 ^ my_clz x < 2 ^ 64"
proof -
  obtain n1 x1 where 1: "(n1, x1) = (if x \<le> 0x00000000FFFFFFFF then (0 + 32, push_bit 32 x) else (0::nat, x))"
    by (metis surj_pair)
  obtain n2 x2 where 2: "(n2, x2) = (if x1 \<le> 0x0000FFFFFFFFFFFF then (n1 + 16, push_bit 16 x1) else (n1, x1))"
    by (metis surj_pair)
  obtain n3 x3 where 3: "(n3, x3) = (if x2 \<le> 0x00FFFFFFFFFFFFFF then (n2 + 8, push_bit 8 x2) else (n2, x2))"
    by (metis surj_pair)
  obtain n4 x4 where 4: "(n4, x4) = (if x3 \<le> 0x0FFFFFFFFFFFFFFF then (n3 + 4, push_bit 4 x3) else (n3, x3))"
    by (metis surj_pair)
  obtain n5 x5 where 5: "(n5, x5) = (if x4 \<le> 0x3FFFFFFFFFFFFFFF then (n4 + 2, push_bit 2 x4) else (n4, x4))"
    by (metis surj_pair)
  have clz: "my_clz x = (if x5 \<le> 0x7FFFFFFFFFFFFFFF then n5 + 1 else n5)"
    using assms unfolding my_clz_def Let_def 1 [symmetric]
    by (simp add: 1 [symmetric] 2 [symmetric] 3 [symmetric] 4 [symmetric] 5 [symmetric] del: One_nat_def)
  have "1 \<le> unat x" using assms by (simp add: Suc_leI unat_gt_0)
  then have i1: "unat x1 = unat x * 2 ^ n1 \<and> 2 ^ (64 - 32) \<le> unat x1"
    by (intro clz_step [OF _ _ _ _ 1, of "unat x"]) simp_all
  have i2: "unat x2 = unat x * 2 ^ n2 \<and> 2 ^ (64 - 16) \<le> unat x2"
    by (rule clz_step [OF _ _ _ _ 2]) (use i1 in simp_all)
  have i3: "unat x3 = unat x * 2 ^ n3 \<and> 2 ^ (64 - 8) \<le> unat x3"
    by (rule clz_step [OF _ _ _ _ 3]) (use i2 in simp_all)
  have i4: "unat x4 = unat x * 2 ^ n4 \<and> 2 ^ (64 - 4) \<le> unat x4"
    by (rule clz_step [OF _ _ _ _ 4]) (use i3 in simp_all)
  have i5: "unat x5 = unat x * 2 ^ n5 \<and> 2 ^ (64 - 2) \<le> unat x5"
    by (rule clz_step [OF _ _ _ _ 5]) (use i4 in simp_all)
  have "unat x5 < 2 ^ 64" using unsigned_less [of x5] by simp
  moreover have "unat (0x7FFFFFFFFFFFFFFF :: 64 word) = 2 ^ 63 - 1" by simp
  ultimately show ?thesis
    using i5 by (auto simp only: clz word_le_nat_alt power_add split: if_splits) simp_all
qed

lemma my_clz_bounds:
  "my_clz 0 = 64 \<and> (x \<noteq> 0 \<longrightarrow> my_clz x \<le> 63 \<and> 2 ^ (63 - my_clz x) \<le> unat x \<and> unat x < 2 ^ (64 - my_clz x))"
proof (intro conjI impI)
  show "my_clz 0 = 64" by (simp add: my_clz_def)
  assume x: "x \<noteq> 0"
  let ?n = "my_clz x"
  have b: "2 ^ 63 \<le> unat x * 2 ^ ?n" "unat x * 2 ^ ?n < 2 ^ 64"
    using my_clz_shift [OF x] by auto
  have "2 ^ ?n \<le> unat x * 2 ^ ?n" using x by (simp add: Suc_leI unat_gt_0)
  with b(2) have "(2::nat) ^ ?n < 2 ^ 64" by linarith
  then have "?n < 64" by (rule power_less_imp_less_exp [rotated]) simp
  then show n: "?n \<le> 63" by simp
  have p: "(2::nat) ^ 63 = 2 ^ (63 - ?n) * 2 ^ ?n" "(2::nat) ^ 64 = 2 ^ (64 - ?n) * 2 ^ ?n"
    using n by (simp_all flip: power_add)
  show "2 ^ (63 - ?n) \<le> unat x" using b(1) unfolding p(1) by simp
  show "unat x < 2 ^ (64 - ?n)" using b(2) unfolding p(2) by simp
qed

section \<open>Levels\<close>

text \<open>\<open>at_level l v\<close>: node \<open>v\<close> is on level \<open>l\<close>.\<close>

definition at_level :: "nat \<Rightarrow> nat \<Rightarrow> bool" where
  "at_level l v = (2 ^ l \<le> v \<and> v < 2 ^ Suc l)"

lemma at_level_unique: "at_level a v \<Longrightarrow> at_level b v \<Longrightarrow> a = b"
  unfolding at_level_def using pow2_level_unique by blast

lemma get_level_at:
  assumes "at_level l v" and "l < 63"
  shows "get_level v = int l"
proof -
  let ?x = "of_nat v :: 64 word" and ?n = "my_clz (of_nat v)"
  have "v < 2 ^ Suc l" and "2 ^ l \<le> v" using assms(1) by (auto simp: at_level_def)
  moreover have "(2::nat) ^ Suc l \<le> 2 ^ 63" using assms(2) by (intro power_increasing) auto
  ultimately have v: "v < 2 ^ 64" "0 < v" by (auto intro: less_le_trans)
  then have u: "unat ?x = v" by (simp add: unat_of_nat take_bit_nat_eq_self)
  with v have "?x \<noteq> 0" by auto
  with my_clz_bounds [of ?x] have n: "?n \<le> 63" "2 ^ (63 - ?n) \<le> v" "v < 2 ^ (64 - ?n)"
    by (auto simp only: u)
  moreover have "64 - ?n = Suc (63 - ?n)" using n(1) by simp
  ultimately have "at_level (63 - ?n) v" by (simp add: at_level_def)
  with assms(1) have "63 - ?n = l" by (rule at_level_unique [rotated])
  with n(1) show ?thesis by (auto simp: get_level_def)
qed

lemma go_simps [simp]:
  "go_left v = 2 * v" "go_right v = 2 * v + 1" "go_up v = v div 2" "is_left_son v = even v"
  "vindex_to_rindex v = v div 4"
  by (simp_all add: go_left_def go_right_def go_up_def is_left_son_def vindex_to_rindex_def
      push_bit_nat_def drop_bit_nat_def even_iff_mod_2_eq_zero or_Suc_0_eq)

section \<open>The packed states\<close>

definition slot :: "tree \<Rightarrow> nat \<Rightarrow> 8 word" where
  "slot t v = drop_bit (2 * (v mod 4)) (t (v div 4)) AND 3"

definition put_slot :: "tree \<Rightarrow> nat \<Rightarrow> 8 word \<Rightarrow> tree" where
  "put_slot t v st = t(v div 4 :=
     (t (v div 4) AND NOT (push_bit (2 * (v mod 4)) 3)) OR push_bit (2 * (v mod 4)) (st AND 3))"

lemma get_state_slot [slot_simps]: "v < 65536 \<Longrightarrow> get_state t v = Ok (slot t v)"
  by (simp add: get_state_def slot_def Let_def push_bit_nat_def less_mult_imp_div_less mult.commute)

lemma set_state_slot [slot_simps]: "v < 65536 \<Longrightarrow> set_state t v st = Ok (put_slot t v st)"
  by (simp add: set_state_def put_slot_def Let_def push_bit_nat_def less_mult_imp_div_less mult.commute)

lemma get_state_oob: "65536 \<le> v \<Longrightarrow> get_state t v = Err (OutOfBounds ''mem_tree.tree'')"
  by (simp add: get_state_def Let_def)

lemma set_state_oob: "65536 \<le> v \<Longrightarrow> set_state t v st = Err (OutOfBounds ''mem_tree.tree'')"
  by (simp add: set_state_def Let_def)

lemma three_mask: "(3 :: 8 word) = mask 2"
  by (simp add: mask_eq_exp_minus_1)

lemma pack_same:
  fixes b st :: "8 word"
  assumes "k < 4"
  shows "drop_bit (2 * k) (b AND NOT (push_bit (2 * k) 3) OR push_bit (2 * k) (st AND 3)) AND 3 = st AND 3"
  unfolding three_mask using assms by (intro bit_eqI) (auto simp: bit_simps)

lemma pack_other:
  fixes b st :: "8 word"
  assumes "j < 4" and "k < 4" and "j \<noteq> k"
  shows "drop_bit (2 * j) (b AND NOT (push_bit (2 * k) 3) OR push_bit (2 * k) (st AND 3)) AND 3
    = drop_bit (2 * j) b AND 3"
  unfolding three_mask using assms by (intro bit_eqI) (auto simp: bit_simps)

lemma slot_put_slot [slot_simps]: "slot (put_slot t v st) = (slot t)(v := st AND 3)"
proof
  fix w
  show "slot (put_slot t v st) w = ((slot t)(v := st AND 3)) w"
  proof (cases "w = v")
    case True
    then show ?thesis by (simp only: slot_def put_slot_def fun_upd_same) (rule pack_same, simp)
  next
    case False
    then have "w div 4 \<noteq> v div 4 \<or> w mod 4 \<noteq> v mod 4"
      by (metis div_mult_mod_eq)
    moreover have "slot (put_slot t v st) w = slot t w" if "w div 4 = v div 4" "w mod 4 \<noteq> v mod 4"
      unfolding slot_def put_slot_def fun_upd_same that(1) using that(2) by (intro pack_other) auto
    moreover have "slot (put_slot t v st) w = slot t w" if "w div 4 \<noteq> v div 4"
      using that by (simp add: slot_def put_slot_def)
    ultimately show ?thesis using False by auto
  qed
qed

lemma slot_and_3 [slot_simps]: "slot t v AND 3 = slot t v"
  by (simp add: slot_def and.assoc)

section \<open>Nodes and addresses\<close>

lemma xor_leading_bit:
  assumes "at_level l v"
  shows "v XOR push_bit l 1 = v - 2 ^ l"
proof -
  have v: "v div 2 ^ l = 1"
    using assms by (intro div_nat_eqI) (auto simp: at_level_def)
  have hi: "bit v n \<Longrightarrow> n \<le> l" for n
  proof -
    assume "bit v n"
    moreover have "take_bit (Suc l) v = v"
      using assms by (simp add: at_level_def take_bit_nat_eq_self)
    ultimately have "bit (take_bit (Suc l) v) n" by simp
    then show "n \<le> l" by (simp only: bit_take_bit_iff) simp
  qed
  have at: "bit v l" using v by (simp add: bit_iff_odd)
  have "v XOR push_bit l 1 = take_bit l v"
  proof (rule bit_eqI)
    fix n
    show "bit (v XOR push_bit l 1) n = bit (take_bit l v) n"
      using at hi [of n] by (auto simp: bit_xor_iff bit_take_bit_iff bit_push_bit_iff bit_1_iff bit_exp_iff)
  qed
  also have "take_bit l v = v - 2 ^ l"
    using div_mult_mod_eq [of v "2 ^ l"] by (simp add: take_bit_nat_def v)
  finally show ?thesis .
qed

definition node_adr :: "nat \<Rightarrow> nat \<Rightarrow> nat" where
  "node_adr l v = KERNBASE + (v - 2 ^ l) * 2 ^ (27 - l)"

lemma drop_bit_MEM_SIZE: "l \<le> 27 \<Longrightarrow> drop_bit l MEM_SIZE = 2 ^ (27 - l)"
proof -
  assume "l \<le> 27"
  then have "(2::nat) ^ 27 = 2 ^ (27 - l) * 2 ^ l" by (simp flip: power_add)
  then have "(2::nat) ^ 27 div 2 ^ l = 2 ^ (27 - l)" by (metis nonzero_mult_div_cancel_right power_not_zero zero_neq_numeral)
  then show ?thesis by (simp add: drop_bit_nat_def)
qed

lemma node_adr_bounds:
  assumes "at_level l v" and "l \<le> 15"
  shows "KERNBASE \<le> node_adr l v" and "node_adr l v + 2 ^ (27 - l) \<le> PHYSTOP"
proof -
  have "(v - 2 ^ l + 1) * 2 ^ (27 - l) \<le> 2 ^ l * 2 ^ (27 - l)"
    using assms(1) by (intro mult_right_mono) (auto simp: at_level_def)
  also have "(2::nat) ^ l * 2 ^ (27 - l) = 2 ^ 27" using assms(2) by (simp flip: power_add)
  finally show "node_adr l v + 2 ^ (27 - l) \<le> PHYSTOP" by (simp add: node_adr_def)
  show "KERNBASE \<le> node_adr l v" by (simp add: node_adr_def)
qed

lemma get_adr_at:
  assumes "at_level l v" and "l \<le> 15"
  shows "get_adr v = Ok (node_adr l v)"
proof -
  have v: "v \<noteq> 0" using assms(1) by (auto simp: at_level_def)
  have lev: "nat (get_level v) = l" using get_level_at assms by simp
  have bs: "drop_bit l MEM_SIZE = 2 ^ (27 - l)" using assms(2) by (intro drop_bit_MEM_SIZE) simp
  have "node_adr l v < 2 ^ 64" using node_adr_bounds [OF assms] by simp
  then show ?thesis
    using v unfolding get_adr_def Let_def lev bs xor_leading_bit [OF assms(1)]
    by (simp add: node_adr_def)
qed

lemma get_vindex_eq:
  assumes "KERNBASE \<le> adr" and "adr < 2 ^ 64" and "l \<le> 27"
  shows "get_vindex adr l = 2 ^ l + (adr - KERNBASE) div 2 ^ (27 - l)"
proof -
  have "sub64 adr KERNBASE = adr - KERNBASE"
    using assms(1,2) by (simp add: sub64_def mod_if)
  then show ?thesis
    unfolding get_vindex_def Let_def drop_bit_MEM_SIZE [OF assms(3)] by (simp add: push_bit_nat_def)
qed

lemma get_vindex_node_adr:
  assumes "at_level l v" and "l \<le> 15"
  shows "get_vindex (node_adr l v) l = v"
proof -
  have "get_vindex (node_adr l v) l = 2 ^ l + (node_adr l v - KERNBASE) div 2 ^ (27 - l)"
    using node_adr_bounds [OF assms] assms(2) by (intro get_vindex_eq) auto
  then show ?thesis using assms(1) by (simp add: node_adr_def at_level_def)
qed

end
