(* ===== verification/Memory.thy ===== *)
theory Memory
  imports Prelude
begin

text \<open>
  Byte memory and the loads and stores of the C types the kernel keeps in it: an address is
  a natural number, memory a function from addresses to bytes, and a value of \<open>k\<close> bytes is
  stored with its least significant byte first, as on RISC-V.
\<close>

type_synonym mem = "nat \<Rightarrow> 8 word"

fun ld_bytes :: "nat \<Rightarrow> mem \<Rightarrow> nat \<Rightarrow> nat" where
  "ld_bytes 0 m a = 0"
| "ld_bytes (Suc k) m a = unat (m a) + 256 * ld_bytes k m (a + 1)"

fun st_bytes :: "nat \<Rightarrow> nat \<Rightarrow> nat \<Rightarrow> mem \<Rightarrow> mem" where
  "st_bytes 0 a v m = m"
| "st_bytes (Suc k) a v m = st_bytes k (a + 1) (v div 256) (m(a := of_nat v))"

abbreviation ld64 :: "mem \<Rightarrow> nat \<Rightarrow> nat" where "ld64 \<equiv> ld_bytes 8"
abbreviation ld32 :: "mem \<Rightarrow> nat \<Rightarrow> nat" where "ld32 \<equiv> ld_bytes 4"
abbreviation st64 :: "nat \<Rightarrow> nat \<Rightarrow> mem \<Rightarrow> mem" where "st64 \<equiv> st_bytes 8"
abbreviation st32 :: "nat \<Rightarrow> nat \<Rightarrow> mem \<Rightarrow> mem" where "st32 \<equiv> st_bytes 4"

text \<open>The memories agree on the \<open>n\<close> bytes from \<open>a\<close> on.\<close>

definition agree :: "mem \<Rightarrow> mem \<Rightarrow> nat \<Rightarrow> nat \<Rightarrow> bool" where
  "agree m m' a n = (\<forall>x. a \<le> x \<and> x < a + n \<longrightarrow> m' x = m x)"

lemma agree_refl [simp]: "agree m m a n"
  by (simp add: agree_def)

lemma agree_trans: "agree m m' a n \<Longrightarrow> agree m' m'' a n \<Longrightarrow> agree m m'' a n"
  by (simp add: agree_def)

lemma agree_sub: "agree m m' a n \<Longrightarrow> a \<le> b \<Longrightarrow> b + k \<le> a + n \<Longrightarrow> agree m m' b k"
  by (auto simp: agree_def)

lemma ld_agree: "agree m m' a k \<Longrightarrow> ld_bytes k m' a = ld_bytes k m a"
  by (induction k arbitrary: a) (auto simp: agree_def)

lemma st_outside: "x < a \<or> a + k \<le> x \<Longrightarrow> st_bytes k a v m x = m x"
  by (induction k arbitrary: a v m) auto

lemma agree_st: "b + n \<le> a \<or> a + k \<le> b \<Longrightarrow> agree m (st_bytes k a v m) b n"
  using st_outside by (auto simp: agree_def)

lemma ld_st_other [mem_simps]:
  "b + n \<le> a \<or> a + k \<le> b \<Longrightarrow> ld_bytes n (st_bytes k a v m) b = ld_bytes n m b"
  by (intro ld_agree agree_st)

lemma ld_st_same: "ld_bytes k (st_bytes k a v m) a = v mod 256 ^ k"
proof (induction k arbitrary: a v m)
  case 0
  then show ?case by simp
next
  case (Suc k)
  define m' where "m' = m(a := of_nat v)"
  have st: "st_bytes (Suc k) a v m = st_bytes k (a + 1) (v div 256) m'" by (simp add: m'_def)
  have "st_bytes k (a + 1) (v div 256) m' a = of_nat v" by (simp add: st_outside m'_def)
  then have "ld_bytes (Suc k) (st_bytes (Suc k) a v m) a
      = unat (of_nat v :: 8 word) + 256 * (v div 256 mod 256 ^ k)"
    unfolding st using Suc [of "a + 1" "v div 256" m'] by simp
  also have "unat (of_nat v :: 8 word) = v mod 256" by (simp add: unat_of_nat take_bit_nat_def)
  finally show ?case by (simp add: mod_mult2_eq)
qed

lemma ld64_st64 [mem_simps]: "v < 2 ^ 64 \<Longrightarrow> ld64 (st64 a v m) a = v"
  by (simp add: ld_st_same)

lemma ld32_st32 [mem_simps]: "v < 2 ^ 32 \<Longrightarrow> ld32 (st32 a v m) a = v"
  by (simp add: ld_st_same)

lemma ld_bytes_bound: "ld_bytes k m a < 256 ^ k"
proof (induction k arbitrary: a)
  case 0
  then show ?case by simp
next
  case (Suc k)
  have "unat (m a) < 256" using unsigned_less [of "m a"] by simp
  then show ?case using Suc [of "a + 1"] by simp
qed

lemma ld64_bound: "ld64 m a < 2 ^ 64"
  using ld_bytes_bound [of 8 m a] by simp

end
