(* ===== verification/Kmem.thy ===== *)
theory Kmem
  imports Buddy Memory
begin

text \<open>
  The physical memory as the kernel sees it: the buddy allocator and the bytes of the RAM,
  with checked loads and stores, and the calls of \<open>printf\<close>, which are recorded. An access outside the RAM is the fault \<open>BadAddress\<close>.
\<close>

text \<open>An argument of \<open>printf\<close>; a string pointer is its address, or the literal it points to.\<close>

datatype karg = KInt int | KPtr nat | KStr string | KBytes "8 word list"

record kmem = buddy +
  bytes   :: mem
  printed :: "(string \<times> karg list) list"   \<comment> \<open>the calls of \<open>printf\<close>\<close>

definition kprintf :: "string \<Rightarrow> karg list \<Rightarrow> 'z kmem_scheme \<Rightarrow> 'z kmem_scheme" where
  "kprintf fmt args s = s\<lparr>printed := printed s @ [(fmt, args)]\<rparr>"

definition ram :: "nat \<Rightarrow> nat \<Rightarrow> bool" where
  "ram a n = (KERNBASE \<le> a \<and> a + n \<le> PHYSTOP)"

definition rd64 :: "nat \<Rightarrow> 'z kmem_scheme \<Rightarrow> nat result" where
  "rd64 a s = (if ram a 8 then Ok (ld64 (bytes s) a) else Err (BadAddress a))"

definition wr64 :: "nat \<Rightarrow> nat \<Rightarrow> 'z kmem_scheme \<Rightarrow> 'z kmem_scheme result" where
  "wr64 a v s = (if ram a 8 then Ok (s\<lparr>bytes := st64 a v (bytes s)\<rparr>) else Err (BadAddress a))"

definition rd32 :: "nat \<Rightarrow> 'z kmem_scheme \<Rightarrow> nat result" where
  "rd32 a s = (if ram a 4 then Ok (ld32 (bytes s) a) else Err (BadAddress a))"

definition wr32 :: "nat \<Rightarrow> nat \<Rightarrow> 'z kmem_scheme \<Rightarrow> 'z kmem_scheme result" where
  "wr32 a v s = (if ram a 4 then Ok (s\<lparr>bytes := st32 a v (bytes s)\<rparr>) else Err (BadAddress a))"

section \<open>Arithmetic of C integers\<close>

definition add64 :: "nat \<Rightarrow> nat \<Rightarrow> nat" where "add64 a b = (a + b) mod 2 ^ 64"
definition mul64 :: "nat \<Rightarrow> nat \<Rightarrow> nat" where "mul64 a b = (a * b) mod 2 ^ 64"
definition shl64 :: "nat \<Rightarrow> nat" where "shl64 a = (2 * a) mod 2 ^ 64"
definition i32 :: "int \<Rightarrow> int" where "i32 x = (x + 2 ^ 31) mod 2 ^ 32 - 2 ^ 31"

end
