(* ===== verification/Slab.thy ===== *)
theory Slab
  imports Kmem
begin

text \<open>
  The slab allocator (\<^verbatim>\<open>kernel/slab_allocator.c\<close>, \<^verbatim>\<open>kernel/slab_allocator.h\<close>): the
  definitions, one per function of the source.

  The structures live in byte memory at the offsets of the RISC-V ABI, so that a free slot
  and the object that occupied it share their bytes as they do in the kernel:
  \<^item> \<open>struct free\<close>: \<open>next\<close> at 0, \<open>magic_num\<close> (4 bytes) at 8;
  \<^item> \<open>struct slab\<close> (32 bytes): \<open>total\<close> 0, \<open>free_count\<close> 8, \<open>free_list\<close> 16, \<open>next\<close> 24;
  \<^item> \<open>struct cache_t\<close> (112 bytes): \<open>id\<close> 0, \<open>name\<close> 8, \<open>error_msg\<close> 16, \<open>size\<close> 24, \<open>lock\<close> 32,
    \<open>full_slabs\<close> 56, \<open>empty_slabs\<close> 64, \<open>partial_slabs\<close> 72, \<open>ctor\<close> 80, \<open>dtor\<close> 88, \<open>prev\<close> 96,
    \<open>next\<close> 104.
  The lock of a cache is kept in the lock table under the address of the cache. An access
  outside the RAM is the fault \<open>BadAddress\<close>. Calls of \<open>printf\<close> are recorded in \<open>printed\<close>.
\<close>

section \<open>Environment and state\<close>

text \<open>
  What the sources do not fix: the end of the kernel, the addresses at which the linker
  puts string literals, functions and \<open>caches_origin\<close>, and what a call through a function
  pointer does.
\<close>

record 's kenv =
  env_end    :: nat
  env_lit    :: "string \<Rightarrow> nat"
  env_fun    :: "string \<Rightarrow> nat"
  env_origin :: nat
  env_call   :: "nat \<Rightarrow> nat \<Rightarrow> 's \<Rightarrow> 's result"

record kslab = kmem +
  caches_head      :: nat
  small_mem_caches :: "nat \<Rightarrow> nat"

abbreviation SMALL_MEM_BUFF_CNT :: nat where "SMALL_MEM_BUFF_CNT \<equiv> 13"
abbreviation MAX_SMALL_MEM_BUFF :: nat where "MAX_SMALL_MEM_BUFF \<equiv> 131072"
abbreviation FREE_MAGIC_NUM :: nat where "FREE_MAGIC_NUM \<equiv> 0xDEAD"
abbreviation BLOCK_SIZE :: nat where "BLOCK_SIZE \<equiv> 4096"
abbreviation sizeof_slab :: nat where "sizeof_slab \<equiv> 32"
abbreviation sizeof_cache :: nat where "sizeof_cache \<equiv> 112"

definition names :: "string list" where
  "names = [''size-32B'', ''size-64B'', ''size-128B'', ''size-256B'', ''size-512B'', ''size-1024B'',
     ''size-2048B'', ''size-4096B'', ''size-8192B'', ''size-16384B'', ''size-32768B'', ''size-65536B'',
     ''size-131072B'']"

definition sizes :: "nat list" where
  "sizes = [32, 64, 128, 256, 512, 1024, 2048, 4096, 8192, 16384, 32768, 65536, 131072]"

abbreviation (input) free_next :: "nat \<Rightarrow> nat" where "free_next f \<equiv> f"
abbreviation (input) free_magic :: "nat \<Rightarrow> nat" where "free_magic f \<equiv> f + 8"
abbreviation (input) slab_total :: "nat \<Rightarrow> nat" where "slab_total p \<equiv> p"
abbreviation (input) slab_free_count :: "nat \<Rightarrow> nat" where "slab_free_count p \<equiv> p + 8"
abbreviation (input) slab_free_list :: "nat \<Rightarrow> nat" where "slab_free_list p \<equiv> p + 16"
abbreviation (input) slab_next :: "nat \<Rightarrow> nat" where "slab_next p \<equiv> p + 24"
abbreviation (input) cache_id :: "nat \<Rightarrow> nat" where "cache_id p \<equiv> p"
abbreviation (input) cache_name :: "nat \<Rightarrow> nat" where "cache_name p \<equiv> p + 8"
abbreviation (input) cache_error_msg :: "nat \<Rightarrow> nat" where "cache_error_msg p \<equiv> p + 16"
abbreviation (input) cache_size :: "nat \<Rightarrow> nat" where "cache_size p \<equiv> p + 24"
abbreviation (input) cache_full_slabs :: "nat \<Rightarrow> nat" where "cache_full_slabs p \<equiv> p + 56"
abbreviation (input) cache_empty_slabs :: "nat \<Rightarrow> nat" where "cache_empty_slabs p \<equiv> p + 64"
abbreviation (input) cache_partial_slabs :: "nat \<Rightarrow> nat" where "cache_partial_slabs p \<equiv> p + 72"
abbreviation (input) cache_ctor :: "nat \<Rightarrow> nat" where "cache_ctor p \<equiv> p + 80"
abbreviation (input) cache_dtor_ptr :: "nat \<Rightarrow> nat" where "cache_dtor_ptr p \<equiv> p + 88"
abbreviation (input) cache_prev :: "nat \<Rightarrow> nat" where "cache_prev p \<equiv> p + 96"
abbreviation (input) cache_next :: "nat \<Rightarrow> nat" where "cache_next p \<equiv> p + 104"

section \<open>Slabs\<close>

partial_function (option) get_order_loop :: "nat \<Rightarrow> nat \<Rightarrow> nat \<Rightarrow> nat \<Rightarrow> (nat \<times> nat) result" where
  "get_order_loop target_objs obj_size slab_size order =
     (if sub64 slab_size sizeof_slab < mul64 target_objs obj_size
      then get_order_loop target_objs obj_size (shl64 slab_size) ((order + 1) mod 2 ^ 16)
      else Ok (order, slab_size))"

text \<open>Returns the order and \<open>*slab_size\<close>.\<close>

definition get_order_from_size :: "nat \<Rightarrow> (nat \<times> nat) result" where
  "get_order_from_size obj_size =
     (let slab_size = BLOCK_SIZE;
          target_objs = (if obj_size \<le> 256 then 8 else if obj_size \<le> 4096 then 4
                         else if obj_size \<le> 32768 then 2 else 1)
      in get_order_loop target_objs obj_size slab_size 0)"

partial_function (option) slab_init_loop ::
  "nat \<Rightarrow> nat \<Rightarrow> nat \<Rightarrow> nat \<Rightarrow> nat \<Rightarrow> 'z kslab_scheme \<Rightarrow> 'z kslab_scheme result" where
  "slab_init_loop slab obj_size slab_size prev temp s =
     (if add64 temp obj_size \<le> add64 slab slab_size
      then bindr (wr64 (free_next prev) temp s) (\<lambda>s.
           let prev = temp in
           bindr (wr64 (free_next prev) 0 s) (\<lambda>s.
           slab_init_loop slab obj_size slab_size prev (add64 temp obj_size) s))
      else Ok s)"

definition slab_init :: "nat \<Rightarrow> nat \<Rightarrow> nat \<Rightarrow> 'z kslab_scheme \<Rightarrow> (nat \<times> 'z kslab_scheme) result" where
  "slab_init mem obj_size slab_size s =
     (if mem = 0 then Ok (0, s)
      else let slab = mem in
        bindr (wr64 (slab_free_list slab) (slab + sizeof_slab) s) (\<lambda>s.
        bindr (rd64 (slab_free_list slab) s) (\<lambda>prev.
        let temp = add64 prev obj_size in
        bindr (wr64 (free_next prev) 0 s) (\<lambda>s.
        bindr (slab_init_loop slab obj_size slab_size prev temp s) (\<lambda>s.
        if obj_size = 0 then Err (DivByZero ''slab_init'')
        else let total = sub64 slab_size sizeof_slab div obj_size in
          bindr (wr64 (slab_total slab) total s) (\<lambda>s.
          bindr (rd64 (slab_total slab) s) (\<lambda>total.
          bindr (wr64 (slab_free_count slab) total s) (\<lambda>s. Ok (slab, s)))))))))"

definition slab_alloc :: "nat \<Rightarrow> 'z kslab_scheme \<Rightarrow> (nat \<times> 'z kslab_scheme) result" where
  "slab_alloc slab s =
     (if slab = 0 then Err (Panic ''Invalid slab provided'')
      else bindr (rd64 (slab_free_count slab) s) (\<lambda>free_count.
        if free_count = 0 then Err (Panic ''Invalid slab provided'')
        else bindr (wr64 (slab_free_count slab) (free_count - 1) s) (\<lambda>s.
          bindr (rd64 (slab_free_list slab) s) (\<lambda>obj.
          if obj = 0 then Err (Panic ''slab_alloc failed'')
          else bindr (rd64 (free_next obj) s) (\<lambda>next.
               bindr (wr64 (slab_free_list slab) next s) (\<lambda>s. Ok (obj, s)))))))"

text \<open>The loop of \<open>move_slab\<close>: the last value of \<open>prev\<close>.\<close>

partial_function (option) move_slab_loop :: "nat \<Rightarrow> nat \<Rightarrow> 'z kslab_scheme \<Rightarrow> nat result" where
  "move_slab_loop prev slab s =
     (if prev \<noteq> 0
      then bindr (rd64 (slab_next prev) s) (\<lambda>n.
           if n \<noteq> slab then move_slab_loop n slab s else Ok prev)
      else Ok prev)"

definition move_slab :: "nat \<Rightarrow> nat \<Rightarrow> nat \<Rightarrow> 'z kslab_scheme \<Rightarrow> 'z kslab_scheme result" where
  "move_slab from_list to_list slab s =
     bindr (rd64 from_list s) (\<lambda>from.
     if from = 0 then Err (Panic ''provided null as source list '')
     else
       bindr (if from = slab
              then bindr (rd64 (slab_next slab) s) (\<lambda>n. wr64 from_list n s)
              else bindr (move_slab_loop from slab s) (\<lambda>prev.
                   if prev = 0 then Err (Panic ''Wrong list provided!'')
                   else bindr (rd64 (slab_next prev) s) (\<lambda>n.
                        if n \<noteq> slab then Err (Panic ''Wrong list provided!'')
                        else bindr (rd64 (slab_next slab) s) (\<lambda>n. wr64 (slab_next prev) n s)))) (\<lambda>s.
       bindr (rd64 to_list s) (\<lambda>to.
       bindr (wr64 (slab_next slab) to s) (\<lambda>s. wr64 to_list slab s))))"

text \<open>The value of a signed operation, a fault where it does not fit an \<open>int\<close>; and the division of C, which
  rounds towards 0.\<close>

definition int32 :: "int \<Rightarrow> int result" where
  "int32 x = (if - (2 ^ 31) \<le> x \<and> x < 2 ^ 31 then Ok x else Err Overflow)"

definition cdiv :: "int \<Rightarrow> int \<Rightarrow> int" where
  "cdiv x y = (if x < 0 then - ((- x) div y) else x div y)"

definition free_slab :: "nat \<Rightarrow> 'z kslab_scheme kenv \<Rightarrow> nat \<Rightarrow> nat \<Rightarrow> 'z kslab_scheme \<Rightarrow> (int \<times> 'z kslab_scheme) result" where
  "free_slab c env slab obj_size s =
     bindr (get_order_from_size obj_size) (\<lambda>(order, slab_size).
     bindr (buddy_kfree c (env_end env) slab order s) (\<lambda>(r, s).
     if r = 0 then Err (Panic ''free_slab'') else Ok (i32 (2 ^ order), s)))"

partial_function (option) free_slab_list_loop ::
  "nat \<Rightarrow> 'z kslab_scheme kenv \<Rightarrow> nat \<Rightarrow> nat \<Rightarrow> int \<Rightarrow> 'z kslab_scheme \<Rightarrow> (int \<times> 'z kslab_scheme) result" where
  "free_slab_list_loop c env sl_list obj_size freed_blocks s =
     bindr (rd64 sl_list s) (\<lambda>slab_to_free.
     if slab_to_free \<noteq> 0
     then bindr (rd64 (slab_next slab_to_free) s) (\<lambda>n.
          bindr (wr64 sl_list n s) (\<lambda>s.
          bindr (free_slab c env slab_to_free obj_size s) (\<lambda>(k, s).
          bindr (int32 (freed_blocks + k)) (\<lambda>freed_blocks.
          free_slab_list_loop c env sl_list obj_size freed_blocks s))))
     else Ok (freed_blocks, s))"

definition free_slab_list ::
  "nat \<Rightarrow> 'z kslab_scheme kenv \<Rightarrow> nat \<Rightarrow> nat \<Rightarrow> 'z kslab_scheme \<Rightarrow> (int \<times> 'z kslab_scheme) result" where
  "free_slab_list c env sl_list obj_size s = free_slab_list_loop c env sl_list obj_size 0 s"

definition cache_dtor :: "nat \<Rightarrow> 'z kslab_scheme kenv \<Rightarrow> nat \<Rightarrow> 'z kslab_scheme \<Rightarrow> 'z kslab_scheme result" where
  "cache_dtor c env cache s =
     (if cache = 0 then Ok s
      else
        bindr (rd64 (cache_size cache) s) (\<lambda>size.
        bindr (free_slab_list c env (cache_full_slabs cache) size s) (\<lambda>(_, s).
        bindr (rd64 (cache_size cache) s) (\<lambda>size.
        bindr (free_slab_list c env (cache_empty_slabs cache) size s) (\<lambda>(_, s).
        bindr (rd64 (cache_size cache) s) (\<lambda>size.
        bindr (free_slab_list c env (cache_partial_slabs cache) size s) (\<lambda>(_, s). Ok s)))))))"

section \<open>Caches\<close>

definition cache_init :: "nat \<Rightarrow> 'z kslab_scheme kenv \<Rightarrow> 'z kslab_scheme \<Rightarrow> 'z kslab_scheme result" where
  "cache_init c env s =
     (let o' = env_origin env in
      bindr (wr64 (cache_name o') (env_lit env ''caches-origin'') s) (\<lambda>s.
      bindr (wr64 (cache_size o') sizeof_cache s) (\<lambda>s.
      let s = initlock (CacheLock o') ''caches-origin-lock'' s in
      bindr (wr64 (cache_full_slabs o') 0 s) (\<lambda>s.
      bindr (wr64 (cache_empty_slabs o') 0 s) (\<lambda>s.
      bindr (wr64 (cache_partial_slabs o') 0 s) (\<lambda>s.
      bindr (wr64 (cache_ctor o') 0 s) (\<lambda>s.
      bindr (wr64 (cache_dtor_ptr o') (env_fun env ''cache_dtor'') s) (\<lambda>s.
      bindr (wr64 (cache_next o') 0 s) (\<lambda>s.
      bindr (wr64 (cache_prev o') 0 s) (\<lambda>s.
      bindr (wr64 (cache_error_msg o') 0 s) (\<lambda>s.
      let s = s\<lparr>small_mem_caches := (\<lambda>i. if i < SMALL_MEM_BUFF_CNT then 0 else small_mem_caches s i)\<rparr>;
          s = initlock RawCachesLock ''raw-caches-lock'' s
      in Ok (s\<lparr>caches_head := o'\<rparr>))))))))))))"

definition cache_shrink ::
  "nat \<Rightarrow> 'z kslab_scheme kenv \<Rightarrow> nat \<Rightarrow> 'z kslab_scheme \<Rightarrow> (int \<times> 'z kslab_scheme) result" where
  "cache_shrink c env cachep s =
     bindr (acquire c (CacheLock cachep) s) (\<lambda>s.
     bindr (rd64 (cache_empty_slabs cachep) s) (\<lambda>empty_slabs.
     if empty_slabs = 0 then bindr (release c (CacheLock cachep) s) (\<lambda>s. Ok (0, s))
     else bindr (rd64 (cache_size cachep) s) (\<lambda>size.
          bindr (free_slab_list c env (cache_empty_slabs cachep) size s) (\<lambda>(released_blocks, s).
          bindr (release c (CacheLock cachep) s) (\<lambda>s. Ok (released_blocks, s))))))"

text \<open>The three ways of \<open>cache_alloc\<close> to obtain an object, and its end.\<close>

definition cache_grow :: "nat \<Rightarrow> nat \<Rightarrow> 'z kslab_scheme \<Rightarrow> (nat \<times> 'z kslab_scheme) result" where
  "cache_grow c cachep s =
     bindr (rd64 (cache_size cachep) s) (\<lambda>size.
     bindr (get_order_from_size size) (\<lambda>(order, slab_size).
     bindr (buddy_kalloc c order s) (\<lambda>(mem, s).
     bindr (slab_init mem size slab_size s) (\<lambda>(slab, s).
     if slab = 0
     then bindr (release c (CacheLock cachep) s) (\<lambda>s. Err (Panic ''cache_create failed''))
     else bindr (slab_alloc slab s) (\<lambda>(obj, s).
       if obj \<noteq> 0
       then bindr (rd64 (cache_partial_slabs cachep) s) (\<lambda>p.
            bindr (wr64 (slab_next slab) p s) (\<lambda>s.
            bindr (wr64 (cache_partial_slabs cachep) slab s) (\<lambda>s. Ok (obj, s))))
       else Ok (obj, s))))))"

definition alloc_from_partial :: "nat \<Rightarrow> 'z kslab_scheme \<Rightarrow> (nat \<times> 'z kslab_scheme) result" where
  "alloc_from_partial cachep s =
     bindr (rd64 (cache_partial_slabs cachep) s) (\<lambda>slab.
     bindr (slab_alloc slab s) (\<lambda>(obj, s).
     bindr (rd64 (slab_free_count slab) s) (\<lambda>free_count.
     if obj \<noteq> 0 \<and> free_count = 0
     then bindr (move_slab (cache_partial_slabs cachep) (cache_full_slabs cachep) slab s) (\<lambda>s. Ok (obj, s))
     else Ok (obj, s))))"

definition alloc_from_empty :: "nat \<Rightarrow> 'z kslab_scheme \<Rightarrow> (nat \<times> 'z kslab_scheme) result" where
  "alloc_from_empty cachep s =
     bindr (rd64 (cache_empty_slabs cachep) s) (\<lambda>slab.
     bindr (slab_alloc slab s) (\<lambda>(obj, s).
     if obj \<noteq> 0
     then bindr (move_slab (cache_empty_slabs cachep) (cache_partial_slabs cachep) slab s) (\<lambda>s. Ok (obj, s))
     else Ok (obj, s)))"

definition cache_alloc ::
  "nat \<Rightarrow> 'z kslab_scheme kenv \<Rightarrow> nat \<Rightarrow> 'z kslab_scheme \<Rightarrow> (nat \<times> 'z kslab_scheme) result" where
  "cache_alloc c env cachep s =
     (if cachep = 0 then Ok (0, s)
      else
        bindr (acquire c (CacheLock cachep) s) (\<lambda>s.
        bindr (rd64 (cache_partial_slabs cachep) s) (\<lambda>partial_slabs.
        bindr (rd64 (cache_empty_slabs cachep) s) (\<lambda>empty_slabs.
        bindr (if partial_slabs = 0 \<and> empty_slabs = 0 then cache_grow c cachep s
               else if partial_slabs \<noteq> 0 then alloc_from_partial cachep s
               else alloc_from_empty cachep s) (\<lambda>(obj, s).
        bindr (if obj \<noteq> 0 then wr32 (free_magic obj) 0 s else Ok s) (\<lambda>s.
        bindr (rd64 (cache_ctor cachep) s) (\<lambda>ctor.
        bindr (if ctor \<noteq> 0 \<and> obj \<noteq> 0 then env_call env ctor obj s else Ok s) (\<lambda>s.
        bindr (release c (CacheLock cachep) s) (\<lambda>s. Ok (obj, s))))))))))"

text \<open>\<open>name\<close> is the pointer; the string is what \<open>initlock\<close> records.\<close>

definition cache_create ::
  "nat \<Rightarrow> 'z kslab_scheme kenv \<Rightarrow> nat \<Rightarrow> string \<Rightarrow> nat \<Rightarrow> nat \<Rightarrow> nat \<Rightarrow> 'z kslab_scheme
   \<Rightarrow> (nat \<times> 'z kslab_scheme) result" where
  "cache_create c env name name_str sz ctor dtor s =
     bindr (cache_alloc c env (env_origin env) s) (\<lambda>(cache, s).
     bindr (acquire c (CacheLock (env_origin env)) s) (\<lambda>s.
     bindr (wr64 (cache_name cache) name s) (\<lambda>s.
     let s = initlock (CacheLock cache) name_str s in
     bindr (wr64 (cache_ctor cache) ctor s) (\<lambda>s.
     bindr (wr64 (cache_dtor_ptr cache) dtor s) (\<lambda>s.
     bindr (wr64 (cache_size cache) sz s) (\<lambda>s.
     bindr (wr64 (cache_prev cache) 0 s) (\<lambda>s.
     bindr (wr64 (cache_full_slabs cache) 0 s) (\<lambda>s.
     bindr (wr64 (cache_empty_slabs cache) 0 s) (\<lambda>s.
     bindr (wr64 (cache_partial_slabs cache) 0 s) (\<lambda>s.
     bindr (wr64 (cache_error_msg cache) 0 s) (\<lambda>s.
     bindr (wr64 (cache_next cache) (caches_head s) s) (\<lambda>s.
     bindr (wr64 (cache_prev (caches_head s)) cache s) (\<lambda>s.
     let s = s\<lparr>caches_head := cache\<rparr> in
     bindr (release c (CacheLock (env_origin env)) s) (\<lambda>s. Ok (cache, s)))))))))))))))"

text \<open>\<open>Some slab\<close> where the source returns 1 with \<open>*target_slab = slab\<close>.\<close>

partial_function (option) find_obj_loop :: "nat \<Rightarrow> nat \<Rightarrow> nat \<Rightarrow> 'z kslab_scheme \<Rightarrow> nat option result" where
  "find_obj_loop slab obj obj_size s =
     (if slab \<noteq> 0
      then let start = add64 slab sizeof_slab in
        bindr (rd64 (slab_total slab) s) (\<lambda>total.
        let end_of_slab = add64 start (mul64 obj_size total); target = obj in
        if target < end_of_slab \<and> target \<ge> start \<and> (target - start) mod obj_size = 0
        then Ok (Some slab)
        else bindr (rd64 (slab_next slab) s) (\<lambda>n. find_obj_loop n obj obj_size s))
      else Ok None)"

definition find_obj :: "nat \<Rightarrow> nat \<Rightarrow> nat \<Rightarrow> 'z kslab_scheme \<Rightarrow> nat option result" where
  "find_obj slab obj obj_size s =
     (if obj = 0 \<or> slab = 0 then Ok None else find_obj_loop slab obj obj_size s)"

definition slab_free :: "nat \<Rightarrow> nat \<Rightarrow> 'z kslab_scheme \<Rightarrow> 'z kslab_scheme result" where
  "slab_free slab obj s =
     bindr (rd64 (slab_free_list slab) s) (\<lambda>free_list.
     bindr (wr64 (free_next obj) free_list s) (\<lambda>s.
     bindr (wr64 (slab_free_list slab) obj s) (\<lambda>s.
     bindr (rd64 (slab_free_count slab) s) (\<lambda>free_count.
     wr64 (slab_free_count slab) (add64 free_count 1) s))))"

definition cache_free ::
  "nat \<Rightarrow> 'z kslab_scheme kenv \<Rightarrow> nat \<Rightarrow> nat \<Rightarrow> 'z kslab_scheme \<Rightarrow> 'z kslab_scheme result" where
  "cache_free c env cachep objp s =
     (if objp = 0 then Ok s
      else
        bindr (acquire c (CacheLock cachep) s) (\<lambda>s.
        bindr (rd32 (free_magic objp) s) (\<lambda>magic.
        if magic = FREE_MAGIC_NUM
        then bindr (wr64 (cache_error_msg cachep) (env_lit env ''Double free!!!'') s) (\<lambda>s.
             release c (CacheLock cachep) s)
        else
          bindr (rd64 (cache_partial_slabs cachep) s) (\<lambda>partial_slabs.
          bindr (rd64 (cache_size cachep) s) (\<lambda>size.
          bindr (find_obj partial_slabs objp size s) (\<lambda>r. case r of
            Some target_slab \<Rightarrow>
              bindr (slab_free target_slab objp s) (\<lambda>s.
              bindr (wr32 (free_magic objp) FREE_MAGIC_NUM s) (\<lambda>s.
              bindr (rd64 (slab_free_count target_slab) s) (\<lambda>free_count.
              bindr (rd64 (slab_total target_slab) s) (\<lambda>total.
              bindr (if free_count = total
                     then move_slab (cache_partial_slabs cachep) (cache_empty_slabs cachep) target_slab s
                     else Ok s) (\<lambda>s.
              release c (CacheLock cachep) s)))))
          | None \<Rightarrow>
              bindr (rd64 (cache_full_slabs cachep) s) (\<lambda>full_slabs.
              bindr (find_obj full_slabs objp size s) (\<lambda>r. case r of
                Some target_slab \<Rightarrow>
                  bindr (slab_free target_slab objp s) (\<lambda>s.
                  bindr (wr32 (free_magic objp) FREE_MAGIC_NUM s) (\<lambda>s.
                  bindr (move_slab (cache_full_slabs cachep) (cache_partial_slabs cachep) target_slab s) (\<lambda>s.
                  release c (CacheLock cachep) s)))
              | None \<Rightarrow>
                  bindr (wr64 (cache_error_msg cachep) (env_lit env ''object not found in any slab'') s) (\<lambda>s.
                  release c (CacheLock cachep) s)))))))))"

section \<open>Small memory buffers\<close>

definition size_to_index :: "nat \<Rightarrow> int" where
  "size_to_index sz =
     (if sz \<le> 32 then 0
      else let bits = 64 - int (my_clz (of_nat (sz - 1))) in bits - 5)"

partial_function (option) kalloc_order_loop :: "nat \<Rightarrow> nat \<Rightarrow> nat \<Rightarrow> nat result" where
  "kalloc_order_loop sz block order =
     (if block < sz then kalloc_order_loop sz (shl64 block) ((order + 1) mod 2 ^ 16) else Ok order)"

definition cache_kalloc ::
  "nat \<Rightarrow> 'z kslab_scheme kenv \<Rightarrow> nat \<Rightarrow> 'z kslab_scheme \<Rightarrow> (nat \<times> 'z kslab_scheme) result" where
  "cache_kalloc c env sz s =
     (if sz > MAX_SMALL_MEM_BUFF
      then bindr (kalloc_order_loop sz BLOCK_SIZE 0) (\<lambda>order. buddy_kalloc c order s)
      else let index = nat (size_to_index sz) in
        bindr (acquire c RawCachesLock s) (\<lambda>s.
        if index < SMALL_MEM_BUFF_CNT
        then
          bindr (if small_mem_caches s index = 0
                 then bindr (cache_create c env (env_lit env (names ! index)) (names ! index) (sizes ! index) 0 0 s)
                        (\<lambda>(cache, s). Ok (s\<lparr>small_mem_caches := (small_mem_caches s)(index := cache)\<rparr>))
                 else Ok s) (\<lambda>s.
          let cache = small_mem_caches s index in
          bindr (release c RawCachesLock s) (\<lambda>s.
          if cache = 0 then Err (Panic ''cache_kalloc: cant allocate cache'')
          else cache_alloc c env cache s))
        else Err (OutOfBounds ''small_mem_caches'')))"

text \<open>The loop of \<open>cache_kfree\<close> over the remaining indices.\<close>

fun cache_kfree_loop :: "nat \<Rightarrow> nat \<Rightarrow> nat list \<Rightarrow> 'z kslab_scheme \<Rightarrow> 'z kslab_scheme result" where
  "cache_kfree_loop c objp [] s = Ok s"
| "cache_kfree_loop c objp (i # is) s =
     (let cache = small_mem_caches s i in
      if cache = 0 then cache_kfree_loop c objp is s
      else
        bindr (acquire c (CacheLock cache) s) (\<lambda>s.
        bindr (rd64 (cache_partial_slabs cache) s) (\<lambda>partial_slabs.
        bindr (rd64 (cache_size cache) s) (\<lambda>size.
        bindr (find_obj partial_slabs objp size s) (\<lambda>r. case r of
          Some slab \<Rightarrow>
            bindr (slab_free slab objp s) (\<lambda>s.
            bindr (wr32 (free_magic objp) FREE_MAGIC_NUM s) (\<lambda>s.
            bindr (rd64 (slab_free_count slab) s) (\<lambda>free_count.
            bindr (rd64 (slab_total slab) s) (\<lambda>total.
            bindr (if free_count = total
                   then move_slab (cache_partial_slabs cache) (cache_empty_slabs cache) slab s
                   else Ok s) (\<lambda>s.
            release c (CacheLock cache) s)))))
        | None \<Rightarrow>
            bindr (rd64 (cache_full_slabs cache) s) (\<lambda>full_slabs.
            bindr (find_obj full_slabs objp size s) (\<lambda>r. case r of
              Some slab \<Rightarrow>
                bindr (slab_free slab objp s) (\<lambda>s.
                bindr (wr32 (free_magic objp) FREE_MAGIC_NUM s) (\<lambda>s.
                bindr (rd64 (slab_free_count slab) s) (\<lambda>free_count.
                bindr (rd64 (slab_total slab) s) (\<lambda>total.
                bindr (if free_count = total
                       then move_slab (cache_full_slabs cache) (cache_empty_slabs cache) slab s
                       else move_slab (cache_full_slabs cache) (cache_partial_slabs cache) slab s) (\<lambda>s.
                release c (CacheLock cache) s)))))
            | None \<Rightarrow> bindr (release c (CacheLock cache) s) (\<lambda>s. cache_kfree_loop c objp is s))))))))"

definition cache_kfree :: "nat \<Rightarrow> nat \<Rightarrow> 'z kslab_scheme \<Rightarrow> 'z kslab_scheme result" where
  "cache_kfree c objp s =
     (if objp = 0 then Ok s
      else bindr (rd32 (free_magic objp) s) (\<lambda>magic.
        if magic = FREE_MAGIC_NUM then Ok s
        else cache_kfree_loop c objp [0..<SMALL_MEM_BUFF_CNT] s))"

section \<open>Destroying and inspecting caches\<close>

definition cache_destroy ::
  "nat \<Rightarrow> 'z kslab_scheme kenv \<Rightarrow> nat \<Rightarrow> 'z kslab_scheme \<Rightarrow> 'z kslab_scheme result" where
  "cache_destroy c env cachep s =
     (if cachep = 0 then Ok s
      else
        bindr (acquire c (CacheLock cachep) s) (\<lambda>s.
        bindr (rd64 (cache_full_slabs cachep) s) (\<lambda>full_slabs.
        bindr (rd64 (cache_partial_slabs cachep) s) (\<lambda>partial_slabs.
        if full_slabs \<noteq> 0 \<or> partial_slabs \<noteq> 0
        then bindr (wr64 (cache_error_msg cachep)
                      (env_lit env ''kmem_cache_destroy: %s has active objects'') s) (\<lambda>s.
             release c (CacheLock cachep) s)
        else
          bindr (release c (CacheLock cachep) s) (\<lambda>s.
          bindr (acquire c (CacheLock (env_origin env)) s) (\<lambda>s.
          bindr (if cachep = caches_head s
                 then bindr (rd64 (cache_next cachep) s) (\<lambda>n. Ok (s\<lparr>caches_head := n\<rparr>)) else Ok s) (\<lambda>s.
          bindr (rd64 (cache_next cachep) s) (\<lambda>next.
          bindr (rd64 (cache_prev cachep) s) (\<lambda>prev.
          bindr (if next \<noteq> 0 then wr64 (cache_prev next) prev s else Ok s) (\<lambda>s.
          bindr (rd64 (cache_prev cachep) s) (\<lambda>prev.
          bindr (rd64 (cache_next cachep) s) (\<lambda>next.
          bindr (if prev \<noteq> 0 then wr64 (cache_next prev) next s else Ok s) (\<lambda>s.
          bindr (release c (CacheLock (env_origin env)) s) (\<lambda>s.
          cache_free c env (env_origin env) cachep s))))))))))))))"

text \<open>The three counting loops of \<open>cache_info\<close>; \<open>used\<close> is what a slab adds to \<open>used_objs\<close>. The sums of an \<open>int\<close> and
  a \<open>size_t\<close> are unsigned and converted back; the count of the slabs is signed.\<close>

partial_function (option) count_slabs ::
  "(nat \<Rightarrow> nat \<Rightarrow> nat) \<Rightarrow> nat \<Rightarrow> int \<times> int \<times> int \<Rightarrow> 'z kslab_scheme \<Rightarrow> (int \<times> int \<times> int) result" where
  "count_slabs used_of p n s =
     (if p \<noteq> 0
      then bindr (rd64 (slab_total p) s) (\<lambda>total.
           bindr (rd64 (slab_free_count p) s) (\<lambda>free_count.
           bindr (rd64 (slab_next p) s) (\<lambda>next.
           case n of (total_slabs, total_objs, used_objs) \<Rightarrow>
             bindr (int32 (total_slabs + 1)) (\<lambda>total_slabs.
             count_slabs used_of next
               (total_slabs, i32 (total_objs + int total),
                i32 (used_objs + int (used_of total free_count))) s))))
      else Ok n)"

definition cache_info ::
  "nat \<Rightarrow> 'z kslab_scheme kenv \<Rightarrow> nat \<Rightarrow> 'z kslab_scheme \<Rightarrow> 'z kslab_scheme result" where
  "cache_info c env cachep s =
     (if cachep = 0 then Ok s
      else
        bindr (acquire c (CacheLock cachep) s) (\<lambda>s.
        bindr (rd64 (cache_size cachep) s) (\<lambda>size.
        bindr (get_order_from_size size) (\<lambda>(order, slab_size).
        bindr (rd64 (cache_full_slabs cachep) s) (\<lambda>full_slabs.
        bindr (count_slabs (\<lambda>total free_count. total) full_slabs (0, 0, 0) s) (\<lambda>n.
        bindr (rd64 (cache_partial_slabs cachep) s) (\<lambda>partial_slabs.
        bindr (count_slabs (\<lambda>total free_count. sub64 total free_count) partial_slabs n s) (\<lambda>n.
        bindr (rd64 (cache_empty_slabs cachep) s) (\<lambda>empty_slabs.
        bindr (count_slabs (\<lambda>total free_count. 0) empty_slabs n s) (\<lambda>(total_slabs, total_objs, used_objs).
        bindr (if total_objs > 0 then bindr (int32 (used_objs * 100)) (\<lambda>x. Ok (cdiv x total_objs)) else Ok 0) (\<lambda>percentage.
        bindr (rd64 (cache_name cachep) s) (\<lambda>name.
        release c (CacheLock cachep)
          (s\<lparr>printed := printed s @
               [(''cache: %s\<newline>'', [KPtr name]),
                (''  obj size: %lu | slab size: %lu\<newline>'', [KInt (int size), KInt (int slab_size)]),
                (''  slabs: %d | objs: %d/%d | usage: %d%%\<newline>'',
                   [KInt total_slabs, KInt used_objs, KInt total_objs, KInt percentage])]\<rparr>)))))))))))))"

definition cache_error :: "nat \<Rightarrow> 'z kslab_scheme \<Rightarrow> (nat \<times> 'z kslab_scheme) result" where
  "cache_error cachep s =
     bindr (rd64 (cache_error_msg cachep) s) (\<lambda>error_msg.
     if error_msg \<noteq> 0
     then bindr (rd64 (cache_name cachep) s) (\<lambda>name.
          let s = kprintf ''cache %s: %s\<newline>'' [KPtr name, KPtr error_msg] s in
          bindr (wr64 (cache_error_msg cachep) 0 s) (\<lambda>s. Ok (1, s)))
     else Ok (0, s))"

partial_function (option) id_to_cache_loop :: "nat \<Rightarrow> nat \<Rightarrow> 'z kslab_scheme \<Rightarrow> nat option result" where
  "id_to_cache_loop temp id' s =
     (if temp \<noteq> 0
      then bindr (rd64 (cache_id temp) s) (\<lambda>i.
           if i = id' then Ok (Some temp)
           else bindr (rd64 (cache_next temp) s) (\<lambda>n. id_to_cache_loop n id' s))
      else Ok None)"

fun id_to_small_cache :: "nat list \<Rightarrow> nat \<Rightarrow> 'z kslab_scheme \<Rightarrow> nat result" where
  "id_to_small_cache [] id' s = Ok 0"
| "id_to_small_cache (i # is) id' s =
     bindr (rd64 (cache_id (small_mem_caches s i)) s) (\<lambda>x.
     if x = id' then Ok (small_mem_caches s i) else id_to_small_cache is id' s)"

definition id_to_cache :: "nat \<Rightarrow> 'z kslab_scheme \<Rightarrow> nat result" where
  "id_to_cache id' s =
     bindr (id_to_cache_loop (caches_head s) id' s) (\<lambda>r. case r of
       Some temp \<Rightarrow> Ok temp
     | None \<Rightarrow> id_to_small_cache [0..<SMALL_MEM_BUFF_CNT] id' s)"

definition cache_to_id :: "nat \<Rightarrow> 'z kslab_scheme \<Rightarrow> nat result" where
  "cache_to_id cache s = rd64 (cache_id cache) s"

end
