(* ===== verification/Slab_Pool.thy ===== *)
theory Slab_Pool
  imports Slab
begin

text \<open>
  One slab as a pool of objects: the free list threaded through the free slots. \<open>slab_rep\<close>
  relates the bytes of a slab to the list of its free slots; \<open>slab_init\<close> establishes it for
  all slots, \<open>slab_alloc\<close> takes the first free slot and \<open>slab_free\<close> puts one back.
\<close>

section \<open>Sizes\<close>

lemma get_order_loop_ends:
  assumes "t * sz \<le> 2 ^ (k + 12) - 32" and "k \<le> 40" and "j \<le> k"
  shows "\<exists>i\<le>k. j \<le> i \<and> get_order_loop t sz (2 ^ (j + 12)) j = Ok (i, 2 ^ (i + 12))
    \<and> t * sz \<le> 2 ^ (i + 12) - 32 \<and> (j < i \<longrightarrow> 2 ^ (i + 11) - 32 < t * sz)"
  using assms(3)
proof (induction rule: inc_induct)
  case base
  have p: "(2::nat) ^ (k + 12) \<le> 2 ^ 52" using assms(2) by (intro power_increasing) auto
  then have lt: "t * sz < 2 ^ 64" using assms(1) by (simp add: le_less_trans)
  have ge: "32 \<le> (2::nat) ^ (k + 12)" using power_increasing [of 5 "k + 12" "2::nat"] by simp
  have s: "sub64 (2 ^ (k + 12)) 32 = 2 ^ (k + 12) - 32"
    using p ge by (simp add: sub64_def mod_if)
  have "get_order_loop t sz (2 ^ (k + 12)) k = Ok (k, 2 ^ (k + 12))"
    using assms(1) lt s by (subst get_order_loop.simps) (simp add: mul64_def)
  then show ?case using assms(1) by auto
next
  case (step j)
  then have jk: "j < k" by simp
  have p: "(2::nat) ^ (j + 12) \<le> 2 ^ 51" using assms(2) jk by (intro power_increasing) auto
  have ge: "32 \<le> (2::nat) ^ (j + 12)" using power_increasing [of 5 "j + 12" "2::nat"] by simp
  have s: "sub64 (2 ^ (j + 12)) 32 = 2 ^ (j + 12) - 32" using p ge by (simp add: sub64_def mod_if)
  have "(2::nat) ^ (k + 12) \<le> 2 ^ 52" using assms(2) by (intro power_increasing) auto
  then have lt: "mul64 t sz = t * sz" using assms(1) by (simp add: mul64_def le_less_trans)
  have e: "(2::nat) ^ (Suc j + 12) = 2 * 2 ^ (j + 12)" by (simp only: add_Suc power_Suc)
  have sh: "shl64 (2 ^ (j + 12)) = 2 ^ (Suc j + 12)" unfolding shl64_def e using p by simp
  have jm: "(j + 1) mod 2 ^ 16 = Suc j" using jk assms(2) by simp
  show ?case
  proof (cases "2 ^ (j + 12) - 32 < t * sz")
    case True
    then have "get_order_loop t sz (2 ^ (j + 12)) j = get_order_loop t sz (2 ^ (Suc j + 12)) (Suc j)"
      by (subst get_order_loop.simps) (simp only: s lt sh jm if_True)
    moreover obtain i where i: "i \<le> k" "Suc j \<le> i" "get_order_loop t sz (2 ^ (Suc j + 12)) (Suc j) = Ok (i, 2 ^ (i + 12))"
      "t * sz \<le> 2 ^ (i + 12) - 32" "Suc j < i \<longrightarrow> 2 ^ (i + 11) - 32 < t * sz" using step.IH by blast
    moreover have "2 ^ (i + 11) - 32 < t * sz" if "\<not> Suc j < i"
    proof -
      have "i + 11 = j + 12" using that i(2) by simp
      then show ?thesis using True by (simp only:)
    qed
    ultimately show ?thesis by (intro exI [of _ i]) auto
  next
    case False
    then have "get_order_loop t sz (2 ^ (j + 12)) j = Ok (j, 2 ^ (j + 12))"
      by (subst get_order_loop.simps) (simp only: s lt if_False)
    then show ?thesis using False jk by auto
  qed
qed

text \<open>How many objects a slab is meant to hold.\<close>

definition target_objs :: "nat \<Rightarrow> nat" where
  "target_objs sz = (if sz \<le> 256 then 8 else if sz \<le> 4096 then 4 else if sz \<le> 32768 then 2 else 1)"

lemma get_order_fits:
  assumes "sz \<le> 131072"
  shows "\<exists>i\<le>6. get_order_from_size sz = Ok (i, 2 ^ (i + 12)) \<and> target_objs sz * sz \<le> 2 ^ (i + 12) - 32
    \<and> (0 < i \<longrightarrow> 2 ^ (i + 11) - 32 < target_objs sz * sz)"
proof -
  have "target_objs sz * sz \<le> 131072" using assms by (auto simp: target_objs_def)
  then have "target_objs sz * sz \<le> 2 ^ (6 + 12) - 32" by simp
  from get_order_loop_ends [OF this, of 0] obtain i where i: "i \<le> 6"
    "get_order_loop (target_objs sz) sz (2 ^ (0 + 12)) 0 = Ok (i, 2 ^ (i + 12))"
    "target_objs sz * sz \<le> 2 ^ (i + 12) - 32" "0 < i \<longrightarrow> 2 ^ (i + 11) - 32 < target_objs sz * sz" by auto
  moreover have "get_order_from_size sz = get_order_loop (target_objs sz) sz (2 ^ (0 + 12)) 0"
    by (simp add: get_order_from_size_def target_objs_def Let_def)
  ultimately show ?thesis by auto
qed

text \<open>C19. For every object size up to 131072 bytes \<open>get_order_from_size\<close> terminates, and returns
  the least order (at most 6) whose block holds the slab header and the target number of
  objects: 8, 4, 2 or 1, by the size.\<close>

theorem get_order_correct:
  assumes "sz \<le> 131072"
  shows "\<exists>order\<le>6. get_order_from_size sz = Ok (order, 2 ^ (order + 12))
    \<and> target_objs sz * sz \<le> 2 ^ (order + 12) - sizeof_slab
    \<and> (0 < order \<longrightarrow> 2 ^ (order + 11) - sizeof_slab < target_objs sz * sz)"
  using get_order_fits [OF assms] .

theorem get_order_correct_witness:
  "\<exists>order\<le>6. get_order_from_size 5000 = Ok (order, 2 ^ (order + 12))
    \<and> target_objs 5000 * 5000 \<le> 2 ^ (order + 12) - sizeof_slab
    \<and> (0 < order \<longrightarrow> 2 ^ (order + 11) - sizeof_slab < target_objs 5000 * 5000)"
  by (rule get_order_correct) simp

text \<open>\<open>size_to_index\<close> picks the smallest of the 13 buffer sizes that holds the request: for
  every size up to 131072 its index is in the table, \<open>sizes[index]\<close> is at least the size, and
  the next smaller buffer is too small.\<close>

theorem size_to_index_correct:
  assumes "sz \<le> 131072"
  shows "0 \<le> size_to_index sz \<and> size_to_index sz < 13 \<and> sz \<le> sizes ! nat (size_to_index sz)
    \<and> (0 < size_to_index sz \<longrightarrow> sizes ! (nat (size_to_index sz) - 1) < sz)"
proof (cases "sz \<le> 32")
  case True
  then show ?thesis by (simp add: size_to_index_def sizes_def)
next
  case False
  have pw: "sizes ! i = 2 ^ (i + 5)" if "i < 13" for i
  proof -
    have "sizes = map (\<lambda>i. 2 ^ (i + 5)) [0..<13]" by (simp add: sizes_def upt_rec)
    then have "sizes ! i = map (\<lambda>i. 2 ^ (i + 5)) [0..<13] ! i" by (simp only:)
    also have "\<dots> = 2 ^ (i + 5)" using that by (subst nth_map_upt) auto
    finally show ?thesis .
  qed
  let ?x = "of_nat (sz - 1) :: 64 word" and ?n = "my_clz (of_nat (sz - 1))"
  have u: "unat ?x = sz - 1" using assms by (simp add: unat_of_nat take_bit_nat_eq_self)
  then have "?x \<noteq> 0" using False by auto
  then have n: "?n \<le> 63" "2 ^ (63 - ?n) \<le> sz - 1" "sz - 1 < 2 ^ (64 - ?n)"
    using my_clz_bounds [of ?x] u by auto
  have "(2::nat) ^ (63 - ?n) < 2 ^ 17" using n(2) assms by simp
  then have lo: "63 - ?n < 17" by (rule power_less_imp_less_exp [rotated]) simp
  have "(2::nat) ^ 5 < 2 ^ (64 - ?n)" using n(3) False by simp
  then have hi: "5 < 64 - ?n" by (rule power_less_imp_less_exp [rotated]) simp
  define i where "i = 64 - ?n - 5"
  have si: "size_to_index sz = int i" using False n(1) hi by (simp add: size_to_index_def i_def Let_def)
  have i: "i < 13" "0 < i" "64 - ?n = i + 5" "63 - ?n = i - 1 + 5" using lo hi n(1) by (auto simp: i_def)
  have b: "2 ^ (i - 1 + 5) < sz" "sz \<le> 2 ^ (i + 5)" using n(2,3) False unfolding i(3,4) by linarith+
  show ?thesis using b i(1,2) pw [of i] pw [of "i - 1"] unfolding si by simp
qed

theorem size_to_index_correct_witness: "size_to_index 33 < 13 \<and> 33 \<le> sizes ! nat (size_to_index 33)"
  using size_to_index_correct [of 33] by simp

section \<open>The free list of a slab\<close>

definition slot_adr :: "nat \<Rightarrow> nat \<Rightarrow> nat \<Rightarrow> nat" where
  "slot_adr p sz i = p + sizeof_slab + i * sz"

text \<open>From \<open>a\<close> on, the \<open>next\<close> fields thread the slots \<open>xs\<close>.\<close>

fun free_chain :: "mem \<Rightarrow> nat \<Rightarrow> nat list \<Rightarrow> bool" where
  "free_chain m a [] = (a = 0)"
| "free_chain m a (x # xs) = (a = x \<and> x \<noteq> 0 \<and> free_chain m (ld64 m x) xs)"

text \<open>The slab at \<open>p\<close> with \<open>n\<close> slots of \<open>sz\<close> bytes, of which \<open>xs\<close> are free, in list order.\<close>

definition slab_rep :: "mem \<Rightarrow> nat \<Rightarrow> nat \<Rightarrow> nat \<Rightarrow> nat list \<Rightarrow> bool" where
  "slab_rep m p sz n xs =
     (8 \<le> sz \<and> 0 < p \<and> ram p (sizeof_slab + n * sz) \<and> ld64 m (slab_total p) = n
      \<and> ld64 m (slab_free_count p) = length xs \<and> free_chain m (ld64 m (slab_free_list p)) xs
      \<and> distinct xs \<and> (\<forall>x\<in>set xs. \<exists>i<n. x = slot_adr p sz i))"

lemma slot_bounds:
  assumes "i < n"
  shows "p + sizeof_slab \<le> slot_adr p sz i" and "slot_adr p sz i + sz \<le> p + sizeof_slab + n * sz"
proof -
  have "(i + 1) * sz \<le> n * sz" using assms by (intro mult_right_mono) auto
  then show "slot_adr p sz i + sz \<le> p + sizeof_slab + n * sz" by (simp add: slot_adr_def)
  show "p + sizeof_slab \<le> slot_adr p sz i" by (simp add: slot_adr_def)
qed

lemma slots_disjoint:
  assumes "i \<noteq> j"
  shows "slot_adr p sz i + sz \<le> slot_adr p sz j \<or> slot_adr p sz j + sz \<le> slot_adr p sz i"
proof (cases "i < j")
  case True
  then have "(i + 1) * sz \<le> j * sz" by (intro mult_right_mono) auto
  then show ?thesis by (simp add: slot_adr_def)
next
  case False
  then have "(j + 1) * sz \<le> i * sz" using assms by (intro mult_right_mono) auto
  then show ?thesis by (simp add: slot_adr_def)
qed

lemma free_chain_agree:
  "\<forall>x\<in>set xs. agree m m' x 8 \<Longrightarrow> free_chain m' a xs = free_chain m a xs"
proof (induction xs arbitrary: a)
  case Nil
  then show ?case by simp
next
  case (Cons x xs)
  then show ?case using ld_agree [of m m' x 8] by simp
qed

text \<open>\<open>slab_alloc\<close> on a slab with a free slot.\<close>

lemma slab_alloc_pops:
  assumes rep: "slab_rep (bytes s) p sz n (x # xs)"
  shows "\<exists>m. slab_alloc p s = Ok (x, s\<lparr>bytes := m\<rparr>) \<and> slab_rep m p sz n xs
    \<and> (\<forall>a. a < p + 8 \<or> p + 24 \<le> a \<longrightarrow> m a = bytes s a)"
proof -
  let ?b = "bytes s"
  have r: "8 \<le> sz" "0 < p" "ram p (sizeof_slab + n * sz)" "ld64 ?b (slab_free_count p) = Suc (length xs)"
    "ld64 ?b (slab_free_list p) = x" "x \<noteq> 0" "free_chain ?b (ld64 ?b x) xs" "distinct (x # xs)"
    "\<forall>y\<in>set (x # xs). \<exists>i<n. y = slot_adr p sz i" "ld64 ?b p = n"
    using rep by (auto simp: slab_rep_def)
  define m1 where "m1 = st64 (slab_free_count p) (length xs) ?b"
  define m where "m = st64 (slab_free_list p) (ld64 m1 x) m1"
  have away: "p + sizeof_slab \<le> y" "ram y 8" if y: "y \<in> set (x # xs)" for y
  proof -
    obtain i where i: "i < n" "y = slot_adr p sz i" using bspec [OF r(9) y] by (elim exE conjE)
    note b = slot_bounds [OF i(1), of p sz, folded i(2)]
    show "p + sizeof_slab \<le> y" by (rule b(1))
    show "ram y 8" using b r(1,3) unfolding ram_def by linarith
  qed
  have ag: "agree ?b m1 y 8" "agree ?b m y 8" if y: "y \<in> set (x # xs)" for y
  proof -
    show a1: "agree ?b m1 y 8" unfolding m1_def using away(1) [OF y] by (intro agree_st) simp
    have "agree m1 m y 8" unfolding m_def using away(1) [OF y] by (intro agree_st) simp
    then show "agree ?b m y 8" using a1 agree_trans by blast
  qed
  have ram: "ram (p + 8) 8" "ram (p + 16) 8" "ram x 8" using r(3) away by (auto simp: ram_def)
  have len: "length xs < 2 ^ 64" using r(4) ld64_bound [of ?b "p + 8"] by simp
  have l1: "ld64 m1 (p + 16) = x" "ld64 m1 x = ld64 ?b x"
    using r(5) ld_agree [OF ag(1), of x] by (auto simp: m1_def mem_simps)
  have "slab_alloc p s = Ok (x, s\<lparr>bytes := m\<rparr>)"
    using r(2,4,6) ram l1 by (simp add: slab_alloc_def rd64_def wr64_def m_def m1_def)
  moreover have "ld64 m (p + 16) = ld64 ?b x" "ld64 m (p + 8) = length xs" "ld64 m p = n"
    using l1 len ld64_bound [of ?b x] r(10) by (auto simp: m_def m1_def mem_simps)
  then have "slab_rep m p sz n xs"
    using r ag(2) free_chain_agree [of xs ?b m] by (auto simp: slab_rep_def)
  moreover have "m a = ?b a" if "a < p + 8 \<or> p + 24 \<le> a" for a
    using that by (auto simp: m_def m1_def st_outside)
  ultimately show ?thesis by blast
qed

text \<open>\<open>slab_free\<close> of a slot that is not free.\<close>

lemma slab_free_pushes:
  assumes rep: "slab_rep (bytes s) p sz n xs" and i: "i < n" "y = slot_adr p sz i" "y \<notin> set xs"
  shows "\<exists>m. slab_free p y s = Ok (s\<lparr>bytes := m\<rparr>) \<and> slab_rep m p sz n (y # xs)
    \<and> (\<forall>a. (a < p + 8 \<or> p + 24 \<le> a) \<and> (a < y \<or> y + 8 \<le> a) \<longrightarrow> m a = bytes s a)"
proof -
  let ?b = "bytes s"
  have r: "8 \<le> sz" "0 < p" "ram p (sizeof_slab + n * sz)" "ld64 ?b (slab_free_count p) = length xs"
    "free_chain ?b (ld64 ?b (slab_free_list p)) xs" "distinct xs"
    "\<forall>x\<in>set xs. \<exists>i<n. x = slot_adr p sz i" "ld64 ?b p = n"
    using rep by (auto simp: slab_rep_def)
  note yb = slot_bounds [OF i(1), of p sz, folded i(2)]
  define m1 where "m1 = st64 y (ld64 ?b (slab_free_list p)) ?b"
  define m2 where "m2 = st64 (slab_free_list p) y m1"
  define m where "m = st64 (slab_free_count p) (Suc (length xs)) m2"
  have ram: "ram (p + 8) 8" "ram (p + 16) 8" "ram y 8" using r(1,3) yb by (auto simp: ram_def)
  have len: "n * sz < 2 ^ 63" using r(3) by (simp add: ram_def)
  have "length xs \<le> n"
  proof -
    have "set xs \<subseteq> slot_adr p sz ` {..<n}" using r(7) by auto
    from card_mono [OF _ this] card_image_le [of "{..<n}" "slot_adr p sz"] show ?thesis
      using distinct_card [OF r(6)] by simp
  qed
  moreover have "n * 1 \<le> n * sz" using r(1) by (intro mult_le_mono2) simp
  ultimately have "length xs < 2 ^ 63" using len by (simp only: mult_1_right)
  then have ln: "Suc (length xs) < 2 ^ 64" by simp
  have y64: "y < 2 ^ 64" using ram(3) by (simp add: ram_def)
  have l: "ld64 m2 (p + 8) = length xs" using r(4) yb by (simp add: m2_def m1_def mem_simps)
  have "slab_free p y s = Ok (s\<lparr>bytes := m\<rparr>)"
    using ram l ln by (simp add: slab_free_def rd64_def wr64_def add64_def m_def m2_def m1_def)
  moreover have hd: "ld64 m (p + 16) = y" "ld64 m (p + 8) = Suc (length xs)" "ld64 m p = n"
    "ld64 m y = ld64 ?b (slab_free_list p)"
    using yb r(8) y64 ln ld64_bound [of ?b "p + 16"] by (auto simp: m_def m2_def m1_def mem_simps)
  have ag: "agree ?b m x 8" if x: "x \<in> set xs" for x
  proof -
    obtain j where j: "j < n" "x = slot_adr p sz j" using bspec [OF r(7) x] by (elim exE conjE)
    have "i \<noteq> j" using x i(2,3) j(2) by auto
    then have d: "x + 8 \<le> y \<or> y + 8 \<le> x" using slots_disjoint [of i j p sz] r(1) i(2) j(2) by auto
    have px: "p + 32 \<le> x" using slot_bounds(1) [OF j(1), of p sz] j(2) by simp
    have "agree ?b m1 x 8" unfolding m1_def using d by (intro agree_st) auto
    moreover have "agree m1 m2 x 8" unfolding m2_def using px by (intro agree_st) simp
    moreover have "agree m2 m x 8" unfolding m_def using px by (intro agree_st) simp
    ultimately show ?thesis using agree_trans by blast
  qed
  have "slab_rep m p sz n (y # xs)"
    using r hd i free_chain_agree [of xs ?b m] ag yb(1) by (auto simp: slab_rep_def)
  moreover have "m a = ?b a" if "a < p + 8 \<or> p + 24 \<le> a" "a < y \<or> y + 8 \<le> a" for a
    using that by (auto simp: m_def m2_def m1_def st_outside)
  ultimately show ?thesis by blast
qed

text \<open>\<open>slab_init\<close> threads every slot.\<close>

lemma sub64_le: "b \<le> a \<Longrightarrow> a < 2 ^ 63 \<Longrightarrow> sub64 a b = a - b"
  by (simp add: sub64_def mod_if)

lemma slab_init_loop_threads:
  assumes sz: "8 \<le> sz" and rm: "ram p bsz" and n: "n = (bsz - sizeof_slab) div sz" and "sizeof_slab \<le> bsz"
    and "i < n" and "ld64 (bytes s) (slot_adr p sz i) = 0"
  shows "\<exists>m. slab_init_loop p sz bsz (slot_adr p sz i) (slot_adr p sz (Suc i)) s = Ok (s\<lparr>bytes := m\<rparr>)
    \<and> free_chain m (slot_adr p sz i) (map (slot_adr p sz) [i..<n])
    \<and> (\<forall>a. a < slot_adr p sz i \<longrightarrow> m a = bytes s a)"
  using assms(5,6)
proof (induction "n - i" arbitrary: i s)
  case 0
  then show ?case by simp
next
  case (Suc k)
  let ?a = "slot_adr p sz"
  have nz: "n * sz \<le> bsz - sizeof_slab" using n by simp
  have b: "?a j + sz \<le> p + bsz" if "j < n" for j
    using slot_bounds(2) [OF that, of p sz] nz assms(4) by linarith
  have bi: "?a i + sz \<le> p + bsz" using b Suc.prems(1) by blast
  have nx: "?a (Suc i) = ?a i + sz" by (simp add: slot_adr_def)
  have lt: "p + bsz < 2 ^ 63" using rm by (simp add: ram_def)
  have sm: "sz \<le> bsz" using bi by (simp add: slot_adr_def)
  have c: "add64 (?a (Suc i)) sz \<le> add64 p bsz \<longleftrightarrow> Suc i < n"
  proof -
    have "?a (Suc i) + sz \<le> p + bsz \<longleftrightarrow> Suc (Suc i) * sz \<le> bsz - sizeof_slab"
      using assms(4) by (auto simp: slot_adr_def)
    also have "\<dots> \<longleftrightarrow> Suc (Suc i) \<le> n"
      unfolding n using sz by (simp only: less_eq_div_iff_mult_less_eq)
    finally show ?thesis using lt bi sm nx by (simp add: add64_def less_eq_Suc_le)
  qed
  have a0: "?a j \<noteq> 0" for j by (simp add: slot_adr_def)
  show ?case
  proof (cases "Suc i < n")
    case False
    then have "[i..<n] = [i]" using Suc.prems(1) by (simp add: upt_rec)
    then show ?thesis
      using False c Suc.prems(2) a0 by (subst slab_init_loop.simps) (auto intro!: exI [of _ "bytes s"])
  next
    case True
    define m1 where "m1 = st64 (?a i) (?a (Suc i)) (bytes s)"
    define m2 where "m2 = st64 (?a (Suc i)) 0 m1"
    have ai: "add64 (?a (Suc i)) sz = ?a (Suc (Suc i))"
      using b [OF True] lt by (simp add: add64_def slot_adr_def)
    have ram: "ram (?a i) 8" "ram (?a (Suc i)) 8"
      using b [OF True] rm nx sz by (auto simp: ram_def slot_adr_def)
    have z: "ld64 (bytes (s\<lparr>bytes := m2\<rparr>)) (?a (Suc i)) = 0" by (simp add: m2_def mem_simps)
    have k: "k = n - Suc i" using Suc.hyps(2) by simp
    from Suc.hyps(1) [OF k True z] obtain m where m:
      "slab_init_loop p sz bsz (?a (Suc i)) (?a (Suc (Suc i))) (s\<lparr>bytes := m2\<rparr>) = Ok (s\<lparr>bytes := m\<rparr>)"
      "free_chain m (?a (Suc i)) (map ?a [Suc i..<n])" "\<forall>a. a < ?a (Suc i) \<longrightarrow> m a = m2 a"
      by auto
    have run: "slab_init_loop p sz bsz (?a i) (?a (Suc i)) s = Ok (s\<lparr>bytes := m\<rparr>)"
      using c True ai ram m(1) by (subst slab_init_loop.simps) (simp add: wr64_def m2_def m1_def)
    have "agree m2 m (?a i) 8" using m(3) nx sz by (auto simp: agree_def)
    from ld_agree [OF this] have "ld64 m (?a i) = ?a (Suc i)"
      using nx sz b [OF True] lt by (simp add: m2_def m1_def mem_simps)
    then have ch: "free_chain m (?a i) (map ?a [i..<n])"
      using m(2) a0 Suc.prems(1) by (subst upt_conv_Cons) auto
    have "m a = bytes s a" if "a < ?a i" for a
      using m(3) that nx by (auto simp: m2_def m1_def st_outside)
    then show ?thesis using run ch by blast
  qed
qed

lemma slab_init_rep:
  assumes sz: "8 \<le> sz" and rm: "ram p bsz" and n: "n = (bsz - sizeof_slab) div sz" "0 < n" and le: "sizeof_slab \<le> bsz"
  shows "\<exists>m. slab_init p sz bsz s = Ok (p, s\<lparr>bytes := m\<rparr>) \<and> slab_rep m p sz n (map (slot_adr p sz) [0..<n])"
proof -
  let ?a = "slot_adr p sz"
  define m1 where "m1 = st64 (p + 16) (p + 32) (bytes s)"
  define m2 where "m2 = st64 (p + 32) 0 m1"
  have a0: "?a 0 = p + 32" "?a (Suc 0) = p + 32 + sz" by (simp_all add: slot_adr_def)
  have nz: "n * sz \<le> bsz - sizeof_slab" using n by simp
  have s1: "1 * sz \<le> n * sz" using n(2) by (intro mult_right_mono) auto
  have lt: "p + bsz < 2 ^ 63" using rm by (simp add: ram_def)
  have sz40: "40 \<le> bsz" using nz s1 sz le by linarith
  have ram: "ram p 8" "ram (p + 8) 8" "ram (p + 16) 8" "ram (p + 32) 8"
    using rm sz40 by (auto simp: ram_def)
  have pf: "ld64 m1 (p + 16) = p + 32" using lt by (simp add: m1_def mem_simps)
  have z: "ld64 (bytes (s\<lparr>bytes := m2\<rparr>)) (?a 0) = 0" by (simp add: m2_def a0 mem_simps)
  from slab_init_loop_threads [OF sz rm n(1) le n(2) z] obtain m where m:
    "slab_init_loop p sz bsz (?a 0) (?a (Suc 0)) (s\<lparr>bytes := m2\<rparr>) = Ok (s\<lparr>bytes := m\<rparr>)"
    "free_chain m (?a 0) (map ?a [0..<n])" "\<forall>a. a < ?a 0 \<longrightarrow> m a = m2 a" by auto
  define m3 where "m3 = st64 p n m"
  define m4 where "m4 = st64 (p + 8) n m3"
  have n64: "n < 2 ^ 64"
  proof -
    have "n \<le> n * sz" using sz by simp
    also have "\<dots> \<le> bsz" using nz by linarith
    also have "\<dots> < 2 ^ 64" using lt by simp
    finally show ?thesis .
  qed
  have p0: "0 < p" using rm by (simp add: ram_def)
  have "p + 32 + sz \<le> p + bsz" using nz s1 le by linarith
  then have ad: "add64 (p + 32) sz = p + 32 + sz" using lt by (simp add: add64_def)
  have tot: "sub64 bsz sizeof_slab div sz = n" using sub64_le [OF le] lt n(1) by simp
  have "slab_init p sz bsz s = Ok (p, s\<lparr>bytes := m4\<rparr>)"
    using p0 ram pf m(1) sz n64 tot ad a0
    by (simp add: slab_init_def wr64_def rd64_def m4_def m3_def m2_def m1_def mem_simps)
  moreover have "slab_rep m4 p sz n (map ?a [0..<n])"
  proof -
    have "agree m2 m (p + 16) 8" using m(3) a0 by (auto simp: agree_def)
    from ld_agree [OF this] have "ld64 m (p + 16) = ?a 0"
      using pf a0 by (simp add: m2_def mem_simps)
    then have f: "ld64 m4 (p + 16) = ?a 0" by (simp add: m4_def m3_def mem_simps)
    have "agree m m4 x 8" if x: "x \<in> set (map ?a [0..<n])" for x
    proof -
      have px: "p + 32 \<le> x" using x by (auto simp: slot_adr_def)
      have "agree m m3 x 8" unfolding m3_def using px by (intro agree_st) simp
      moreover have "agree m3 m4 x 8" unfolding m4_def using px by (intro agree_st) simp
      ultimately show ?thesis by (rule agree_trans)
    qed
    then have ch: "free_chain m4 (?a 0) (map ?a [0..<n])"
      using m(2) free_chain_agree [of "map ?a [0..<n]" m m4] by blast
    have inj: "inj_on ?a (set [0..<n])" using sz by (auto simp: slot_adr_def inj_on_def)
    have "sizeof_slab + n * sz \<le> bsz" using nz le by linarith
    then have "ram p (sizeof_slab + n * sz)" using rm unfolding ram_def by linarith
    then show ?thesis
      using sz p0 f ch n64 inj by (auto simp: slab_rep_def m4_def m3_def mem_simps distinct_map)
  qed
  ultimately show ?thesis by blast
qed

section \<open>The interface of a pool\<close>

fun pool_gets :: "('s \<Rightarrow> (nat \<times> 's) result) \<Rightarrow> nat \<Rightarrow> 's \<Rightarrow> (nat list \<times> 's) result" where
  "pool_gets get 0 s = Ok ([], s)"
| "pool_gets get (Suc k) s =
     bindr (get s) (\<lambda>(x, s). bindr (pool_gets get k s) (\<lambda>(xs, s). Ok (x # xs, s)))"

locale object_pool =
  fixes rep :: "'s \<Rightarrow> nat list \<Rightarrow> bool" and slots :: "nat set"
    and get :: "'s \<Rightarrow> (nat \<times> 's) result" and put :: "nat \<Rightarrow> 's \<Rightarrow> 's result" and exhausted :: fault
  assumes get_law: "rep s (x # xs) \<Longrightarrow> \<exists>s'. get s = Ok (x, s') \<and> rep s' xs"
    and get_empty: "rep s [] \<Longrightarrow> get s = Err exhausted"
    and put_law: "rep s xs \<Longrightarrow> y \<in> slots \<Longrightarrow> y \<notin> set xs \<Longrightarrow> \<exists>s'. put y s = Ok s' \<and> rep s' (y # xs)"
    and rep_slots: "rep s xs \<Longrightarrow> distinct xs \<and> set xs \<subseteq> slots"
begin

lemma gets_take: "rep s xs \<Longrightarrow> k \<le> length xs \<Longrightarrow> \<exists>s'. pool_gets get k s = Ok (take k xs, s') \<and> rep s' (drop k xs)"
proof (induction k arbitrary: s xs)
  case 0
  then show ?case by simp
next
  case (Suc k)
  then obtain x ys where xs: "xs = x # ys" by (cases xs) auto
  obtain s1 where s1: "get s = Ok (x, s1)" "rep s1 ys" using get_law Suc.prems(1) unfolding xs by blast
  from Suc.IH [OF s1(2)] Suc.prems(2) xs s1(1) show ?case by auto
qed

lemma gets_exhausted:
  assumes "rep s xs"
  shows "pool_gets get (Suc (length xs)) s = Err exhausted"
  using assms
proof (induction xs arbitrary: s)
  case Nil
  from get_empty [OF this] show ?case by simp
next
  case (Cons x xs)
  obtain s1 where s1: "get s = Ok (x, s1)" "rep s1 xs" using get_law Cons.prems by blast
  from Cons.IH [OF s1(2)] s1(1) show ?case by auto
qed

lemma put_get:
  assumes "rep s xs" and "y \<in> slots" and "y \<notin> set xs"
  shows "\<exists>s' s''. put y s = Ok s' \<and> get s' = Ok (y, s'') \<and> rep s'' xs"
  using put_law [OF assms] get_law by blast

end

interpretation sp: object_pool "\<lambda>s :: kslab. slab_rep (bytes s) p sz n" "slot_adr p sz ` {..<n}" "slab_alloc p" "slab_free p"
    "Panic ''Invalid slab provided''"
  for p sz n
proof
  fix s :: kslab and x xs
  assume "slab_rep (bytes s) p sz n (x # xs)"
  from slab_alloc_pops [OF this] show "\<exists>s'. slab_alloc p s = Ok (x, s') \<and> slab_rep (bytes s') p sz n xs"
    by (elim exE conjE) (intro exI conjI, assumption, simp)
next
  fix s :: kslab
  assume "slab_rep (bytes s) p sz n []"
  then have "0 < p" "ld64 (bytes s) (p + 8) = 0" "ram (p + 8) 8" by (auto simp: slab_rep_def ram_def)
  then show "slab_alloc p s = Err (Panic ''Invalid slab provided'')" by (simp add: slab_alloc_def rd64_def)
next
  fix s :: kslab and xs y
  assume a: "slab_rep (bytes s) p sz n xs" "y \<in> slot_adr p sz ` {..<n}" "y \<notin> set xs"
  then obtain i where "i < n" "y = slot_adr p sz i" by auto
  from slab_free_pushes [OF a(1) this a(3)]
  show "\<exists>s'. slab_free p y s = Ok s' \<and> slab_rep (bytes s') p sz n (y # xs)"
    by (elim exE conjE) (intro exI conjI, assumption, simp)
next
  fix s :: kslab and xs
  assume "slab_rep (bytes s) p sz n xs"
  then show "distinct xs \<and> set xs \<subseteq> slot_adr p sz ` {..<n}" by (auto simp: slab_rep_def)
qed

text \<open>C17. A fresh slab of objects of at least 8 bytes, the size of the pointer a free slot holds, hands
  out each of its slots exactly once: \<open>slab_init\<close> on a block of RAM followed by as many \<open>slab_alloc\<close> as
  \<open>(slab_size - 32) / obj_size\<close> returns the slots in address order, pairwise disjoint and inside the block;
  one more \<open>slab_alloc\<close> panics with ``Invalid slab provided''.\<close>

theorem slab_exhausts:
  fixes s :: kslab
  assumes "8 \<le> sz" and "ram p bsz" and "n = (bsz - sizeof_slab) div sz" and "0 < n" and "sizeof_slab \<le> bsz"
  shows "\<exists>s1 s2. slab_init p sz bsz s = Ok (p, s1) \<and> pool_gets (slab_alloc p) n s1 = Ok (map (slot_adr p sz) [0..<n], s2)
    \<and> slab_alloc p s2 = Err (Panic ''Invalid slab provided'')
    \<and> (\<forall>i<n. p + sizeof_slab \<le> slot_adr p sz i \<and> slot_adr p sz i + sz \<le> p + bsz
        \<and> (\<forall>j<n. i \<noteq> j \<longrightarrow> disjnt {slot_adr p sz i..<slot_adr p sz i + sz} {slot_adr p sz j..<slot_adr p sz j + sz}))"
proof -
  obtain m where m: "slab_init p sz bsz s = Ok (p, s\<lparr>bytes := m\<rparr>)" "slab_rep m p sz n (map (slot_adr p sz) [0..<n])"
    using slab_init_rep [OF assms, of s] by blast
  obtain s2 where s2: "pool_gets (slab_alloc p) n (s\<lparr>bytes := m\<rparr>) = Ok (map (slot_adr p sz) [0..<n], s2)"
      "slab_rep (bytes s2) p sz n []"
    using sp.gets_take [of "s\<lparr>bytes := m\<rparr>" p sz n "map (slot_adr p sz) [0..<n]" n] m(2) by auto
  have "slot_adr p sz i + sz \<le> p + bsz" if "i < n" for i
  proof -
    have "n * sz \<le> bsz - sizeof_slab" using assms(3) by simp
    then show ?thesis using slot_bounds(2) [OF that, of p sz] assms(5) by linarith
  qed
  moreover have "disjnt {slot_adr p sz i..<slot_adr p sz i + sz} {slot_adr p sz j..<slot_adr p sz j + sz}" if "i \<noteq> j" for i j
    using slots_disjoint [OF that, of p sz] by (auto simp: disjnt_def)
  ultimately show ?thesis
    using m(1) s2(1) sp.get_empty [OF s2(2)] slot_bounds(1) by blast
qed

definition blank_slab :: kslab where
  "blank_slab = \<lparr>locks = \<lambda>_. \<lparr>lk_locked = 0, lk_name = [], lk_cpu = None\<rparr>, cpus = \<lambda>_. \<lparr>noff = 0, intena = False\<rparr>,
     sie = \<lambda>_. False, tree = (\<lambda>_. 0), bytes = \<lambda>_. 0, printed = [], caches_head = 0, small_mem_caches = \<lambda>_. 0\<rparr>"

theorem slab_exhausts_witness:
  "\<exists>s1 s2. slab_init 0x80100000 256 4096 blank_slab = Ok (0x80100000, s1)
    \<and> pool_gets (slab_alloc 0x80100000) 15 s1 = Ok (map (slot_adr 0x80100000 256) [0..<15], s2)
    \<and> slab_alloc 0x80100000 s2 = Err (Panic ''Invalid slab provided'')"
  using slab_exhausts [of 256 "0x80100000" 4096 15 blank_slab] by (auto simp: ram_def)

text \<open>Below 8 bytes the pointers of neighbouring slots overlap: in a slab of objects of 4 bytes the second
  \<open>slab_alloc\<close> follows an address made of two.\<close>

lemma small_loop:
  assumes "ram p (bsz + 4)" and "p \<le> prev" and "prev + 8 \<le> p + bsz + 4" and "temp = prev + 4"
  shows "\<exists>m. slab_init_loop p 4 bsz prev temp s = Ok (s\<lparr>bytes := m\<rparr>) \<and> (\<forall>x<prev. m x = bytes s x)"
  using assms(2-4)
proof (induction "p + bsz - prev" arbitrary: prev temp s rule: less_induct)
  case less
  have lt: "p + bsz < 2 ^ 63" "add64 temp 4 = temp + 4" "add64 p bsz = p + bsz"
    using assms(1) less.prems by (simp_all add: ram_def add64_def)
  show ?case
  proof (cases "temp + 4 \<le> p + bsz")
    case False
    then show ?thesis using lt by (subst slab_init_loop.simps) (auto intro!: exI [of _ "bytes s"])
  next
    case True
    let ?m = "st64 temp 0 (st64 prev temp (bytes s))"
    have r: "ram prev 8" "ram temp 8" using assms(1) less.prems True by (auto simp: ram_def)
    have d: "p + bsz - temp < p + bsz - prev" using less.prems True by simp
    obtain m where m: "slab_init_loop p 4 bsz temp (temp + 4) (s\<lparr>bytes := ?m\<rparr>) = Ok (s\<lparr>bytes := m\<rparr>)"
      "\<forall>x<temp. m x = ?m x"
      using less.hyps [OF d, of "temp + 4" "s\<lparr>bytes := ?m\<rparr>"] less.prems True by auto
    have "slab_init_loop p 4 bsz prev temp s = Ok (s\<lparr>bytes := m\<rparr>)"
      using True lt r m(1) by (subst slab_init_loop.simps) (simp add: wr64_def)
    moreover have "\<forall>x<prev. m x = bytes s x" using m(2) less.prems(3) by (simp add: st_outside)
    ultimately show ?thesis by blast
  qed
qed

lemma ld_split: "ld_bytes (j + k) m a = ld_bytes j m a + 256 ^ j * ld_bytes k m (a + j)"
  by (induction j arbitrary: a) (simp_all add: distrib_left mult.assoc)

lemma ld_prefix: "ld_bytes j (st_bytes (j + k) a v m) a = v mod 256 ^ j"
proof -
  let ?m = "st_bytes (j + k) a v m"
  have "v mod 256 ^ (j + k) = ld_bytes j ?m a + 256 ^ j * ld_bytes k ?m (a + j)"
    using ld_st_same [of "j + k" a v m] ld_split [of j k ?m a] by simp
  then have "v mod 256 ^ (j + k) mod 256 ^ j = ld_bytes j ?m a mod 256 ^ j" by simp
  also have "\<dots> = ld_bytes j ?m a" by (rule mod_less) (rule ld_bytes_bound)
  finally show ?thesis by (simp add: mod_mod_cancel power_add)
qed

lemma slab_small_objects:
  fixes s :: kslab
  assumes rm: "ram p (bsz + 4)" and bsz: "44 \<le> bsz"
  shows "\<exists>s1 s2 e. slab_init p 4 bsz s = Ok (p, s1) \<and> slab_alloc p s1 = Ok (p + 32, s2) \<and> slab_alloc p s2 = Err (BadAddress e)"
proof -
  let ?a = "p + 32"
  have lt: "0 < p" "p + bsz < 2 ^ 32" "add64 p bsz = p + bsz" "bsz < 2 ^ 64"
    using rm by (simp_all add: ram_def add64_def)
  have ad: "add64 ?a 4 = ?a + 4" "add64 (?a + 4) 4 = ?a + 8" "add64 (?a + 8) 4 = ?a + 12"
    using lt by (simp_all add: add64_def)
  have r: "ram (p + 16) 8" "ram ?a 8" "ram (?a + 4) 8" "ram (?a + 8) 8" "ram p 8" "ram (p + 8) 8"
    using rm bsz by (auto simp: ram_def)
  define m where "m = st64 (?a + 8) 0 (st64 (?a + 4) (?a + 8) (st64 (?a + 4) 0 (st64 ?a (?a + 4)
    (st64 ?a 0 (st64 (p + 16) ?a (bytes s))))))"
  obtain m' where m': "slab_init_loop p 4 bsz (?a + 8) (?a + 12) (s\<lparr>bytes := m\<rparr>) = Ok (s\<lparr>bytes := m'\<rparr>)" "\<forall>x<?a + 8. m' x = m x"
    using small_loop [OF rm, of "?a + 8" "?a + 12" "s\<lparr>bytes := m\<rparr>"] bsz by auto
  define n where "n = sub64 bsz sizeof_slab div 4"
  define m1 where "m1 = st64 (p + 8) n (st64 p n m')"
  have n: "1 < n" "n < 2 ^ 64"
  proof -
    have "n = (bsz - 32) div 4" using lt bsz by (simp add: n_def sub64_le)
    moreover have "12 div 4 \<le> (bsz - 32) div 4" by (rule div_le_mono) (use bsz in simp)
    ultimately show "1 < n" "n < 2 ^ 64" using lt(2) by simp_all
  qed
  have loop: "slab_init_loop p 4 bsz ?a (?a + 4) (s\<lparr>bytes := st64 ?a 0 (st64 (p + 16) ?a (bytes s))\<rparr>) = Ok (s\<lparr>bytes := m'\<rparr>)"
    using bsz lt ad r m'(1) unfolding m_def
    by (subst slab_init_loop.simps, simp add: wr64_def) (subst slab_init_loop.simps, simp add: wr64_def)
  have init: "slab_init p 4 bsz s = Ok (p, s\<lparr>bytes := m1\<rparr>)"
    using lt n(2) r ad loop by (simp add: slab_init_def wr64_def rd64_def n_def m1_def mem_simps)
  have low: "agree m m1 (p + 16) 24"
    using m'(2) by (auto simp: agree_def m1_def st_outside)
  define e where "e = ld64 m1 ?a"
  have fl: "ld64 m1 (p + 16) = ?a" and e: "2 ^ 63 \<le> e"
  proof -
    have "agree m m1 (p + 16) 8" "agree m m1 ?a 8" using agree_sub [OF low] by simp_all
    then have g: "ld64 m1 (p + 16) = ld64 m (p + 16)" "ld64 m1 ?a = ld64 m ?a" by (simp_all add: ld_agree)
    show "ld64 m1 (p + 16) = ?a" unfolding g using lt by (simp add: m_def mem_simps)
    have "ld32 m (?a + 4) = ld32 (st64 (?a + 4) (?a + 8) (st64 (?a + 4) 0 (st64 ?a (?a + 4) (st64 ?a 0 (st64 (p + 16) ?a (bytes s)))))) (?a + 4)"
      unfolding m_def by (rule ld_st_other) simp
    also have "\<dots> = (?a + 8) mod 2 ^ 32"
      using ld_prefix [of 4 4] by simp
    finally have "ld32 m (?a + 4) = ?a + 8" using lt bsz by simp
    then show "2 ^ 63 \<le> e" unfolding e_def g using ld_split [of 4 4 m ?a] rm by (simp add: ram_def)
  qed
  define s2 where "s2 = s\<lparr>bytes := st64 (p + 16) e (st64 (p + 8) (n - 1) m1)\<rparr>"
  have fc: "ld64 m1 (p + 8) = n" using n by (simp add: m1_def mem_simps)
  have "slab_alloc p (s\<lparr>bytes := m1\<rparr>) = Ok (?a, s2)"
    using lt(1) r n fc fl by (simp add: slab_alloc_def rd64_def wr64_def mem_simps s2_def e_def)
  moreover have "slab_alloc p s2 = Err (BadAddress e)"
  proof -
    have "\<not> ram e 8" "e < 2 ^ 64" using e ld64_bound [of m1 ?a] by (auto simp: ram_def e_def)
    then show ?thesis using lt(1) r n e by (simp add: slab_alloc_def rd64_def wr64_def mem_simps s2_def)
  qed
  ultimately show ?thesis using init by blast
qed

text \<open>C18. A slot put back with \<open>slab_free\<close> is the next one \<open>slab_alloc\<close> hands out, and the
  pair leaves the free slots of the slab as they were.\<close>

theorem slab_free_alloc:
  fixes s :: kslab
  assumes "slab_rep (bytes s) p sz n xs" and "i < n" and "slot_adr p sz i \<notin> set xs"
  shows "\<exists>s' s''. slab_free p (slot_adr p sz i) s = Ok s' \<and> slab_alloc p s' = Ok (slot_adr p sz i, s'')
    \<and> slab_rep (bytes s'') p sz n xs"
  using sp.put_get [OF assms(1), of "slot_adr p sz i"] assms(2,3) by blast

theorem slab_free_alloc_witness:
  "\<exists>(s :: kslab) s' s''. slab_free 0x80100000 0x80100020 s = Ok s' \<and> slab_alloc 0x80100000 s' = Ok (0x80100020, s'')"
proof -
  obtain m where m: "slab_rep m 0x80100000 256 15 (map (slot_adr 0x80100000 256) [0..<15])"
    using slab_init_rep [of 256 "0x80100000" 4096 15 blank_slab] by (auto simp: ram_def)
  have l: "map (slot_adr 0x80100000 256) [0..<15] = 0x80100020 # map (slot_adr 0x80100000 256) [1..<15]"
    by (subst upt_conv_Cons) (simp_all add: slot_adr_def)
  have "slab_rep (bytes (blank_slab\<lparr>bytes := m\<rparr>)) 0x80100000 256 15 (0x80100020 # map (slot_adr 0x80100000 256) [1..<15])"
    using m unfolding l by simp
  from sp.get_law [OF this] obtain s :: kslab where s: "slab_rep (bytes s) 0x80100000 256 15 (map (slot_adr 0x80100000 256) [1..<15])"
    by (elim exE conjE) blast
  have "slot_adr 0x80100000 256 0 \<notin> set (map (slot_adr 0x80100000 256) [1..<15])" by (auto simp: slot_adr_def)
  from slab_free_alloc [OF s _ this] show ?thesis by (auto simp: slot_adr_def)
qed

end
