(* ===== verification/Buddy_Tree.thy ===== *)
theory Buddy_Tree
  imports Buddy
begin

text \<open>
  The buddy tree as a function from nodes to states. \<open>up_alloc\<close> and \<open>up_free\<close> are the
  two upward walks on it, \<open>search\<close> is a recursive description of the search for a free
  block; the loops over the packed bytes (\<open>update_upstairs_alloc\<close>,
  \<open>update_upstairs_free\<close>, \<open>locate_free_block\<close>) are shown to compute them, to end, and to
  stay inside the byte array.
\<close>

type_synonym slots = "nat \<Rightarrow> 8 word"

definition sib :: "nat \<Rightarrow> nat" where
  "sib v = (if even v then v + 1 else v - 1)"

section \<open>The upward walks\<close>

fun up_alloc :: "slots \<Rightarrow> nat \<Rightarrow> slots" where
  "up_alloc g v =
     (if v \<le> 1 then g
      else up_alloc (g(v div 2 := if g (sib v) = SLOT_FULL \<and> g v = SLOT_FULL
                                   then SLOT_FULL else SLOT_SPLIT)) (v div 2))"

fun up_free :: "slots \<Rightarrow> nat \<Rightarrow> slots" where
  "up_free g v =
     (if v \<le> 1 then g
      else if g (v div 2) = SLOT_FULL then up_free (g(v div 2 := SLOT_SPLIT)) (v div 2)
      else if g (v div 2) = SLOT_SPLIT
      then (if g (sib v) = SLOT_EMPTY then up_free (g(v div 2 := SLOT_EMPTY)) (v div 2) else g)
      else up_free g (v div 2))"

declare up_alloc.simps [simp del] up_free.simps [simp del]

lemma mover_sib: "2 \<le> v \<Longrightarrow> (if even v then go_right else go_left) (v div 2) = sib v"
  by (auto simp: sib_def)

lemma sib_bounds: "2 \<le> v \<Longrightarrow> v < 65536 \<Longrightarrow> sib v < 65536"
  by (auto simp: sib_def elim!: evenE)

lemma state_and_3 [simp]: "(0 :: 8 word) AND 3 = 0" "(1 :: 8 word) AND 3 = 1" "(3 :: 8 word) AND 3 = 3"
  by simp_all

lemma walks_root [simp]:
  "update_upstairs_alloc t (Suc 0) = Ok t" "update_upstairs_free t (Suc 0) = Ok t"
  "up_alloc g (Suc 0) = g" "up_free g (Suc 0) = g"
  by (subst update_upstairs_alloc.simps update_upstairs_free.simps up_alloc.simps up_free.simps, simp)+

text \<open>One step of the walks over the packed bytes, away from the root.\<close>

lemma update_upstairs_alloc_step:
  assumes "2 \<le> v" and "v < 65536"
  shows "update_upstairs_alloc t v = update_upstairs_alloc
    (put_slot t (v div 2) (if slot t (sib v) = SLOT_FULL \<and> slot t v = SLOT_FULL
      then SLOT_FULL else SLOT_SPLIT)) (v div 2)"
proof -
  have "v div 2 < 65536" using assms by simp
  then show ?thesis
    using assms sib_bounds [OF assms]
    by (subst update_upstairs_alloc.simps)
      (simp add: slot_simps is_brother_full_def mover_sib Let_def del: go_simps(1,2))
qed

lemma update_upstairs_free_step:
  assumes "2 \<le> v" and "v < 65536"
  shows "update_upstairs_free t v =
    (if slot t (v div 2) = SLOT_FULL then update_upstairs_free (put_slot t (v div 2) SLOT_SPLIT) (v div 2)
     else if slot t (v div 2) = SLOT_SPLIT
     then (if slot t (sib v) = SLOT_EMPTY
           then update_upstairs_free (put_slot t (v div 2) SLOT_EMPTY) (v div 2) else Ok t)
     else update_upstairs_free t (v div 2))"
proof -
  have "v div 2 < 65536" using assms by simp
  then show ?thesis
    using assms sib_bounds [OF assms]
    by (subst update_upstairs_free.simps)
      (simp add: slot_simps is_brother_empty_def mover_sib Let_def del: go_simps(1,2))
qed

text \<open>The bytes outside the array keep their values.\<close>

definition same_outside :: "tree \<Rightarrow> tree \<Rightarrow> bool" where
  "same_outside t t' = (\<forall>r \<ge> TREE_SIZE. t' r = t r)"

lemma same_outside_refl [simp]: "same_outside t t"
  by (simp add: same_outside_def)

lemma same_outside_put: "v < 65536 \<Longrightarrow> same_outside (put_slot t v st) t' = same_outside t t'"
proof -
  assume "v < 65536"
  then have "v div 4 < TREE_SIZE" by (intro less_mult_imp_div_less) simp
  then have "put_slot t v st r = t r" if "TREE_SIZE \<le> r" for r
    using that unfolding put_slot_def by (metis fun_upd_other not_less)
  then show ?thesis unfolding same_outside_def by simp
qed

lemma update_upstairs_alloc_refines:
  assumes "1 \<le> v" and "v < 65536"
  shows "\<exists>t'. update_upstairs_alloc t v = Ok t' \<and> slot t' = up_alloc (slot t) v \<and> same_outside t t'"
  using assms
proof (induction v arbitrary: t rule: less_induct)
  case (less v)
  show ?case
  proof (cases "v = 1")
    case True
    then show ?thesis by simp
  next
    case False
    with less.prems have v: "2 \<le> v" by simp
    let ?st = "if slot t (sib v) = SLOT_FULL \<and> slot t v = SLOT_FULL then SLOT_FULL else SLOT_SPLIT"
    from v less.prems have u: "v div 2 < v" "1 \<le> v div 2" "v div 2 < 65536" by auto
    have e: "slot (put_slot t (v div 2) ?st) = (slot t)(v div 2 := ?st)"
      by (auto simp: slot_simps)
    have "up_alloc (slot t) v = up_alloc ((slot t)(v div 2 := ?st)) (v div 2)"
      using v by (subst up_alloc.simps) simp
    then show ?thesis
      using less.IH [OF u, of "put_slot t (v div 2) ?st"]
      unfolding update_upstairs_alloc_step [OF v less.prems(2), of t] e same_outside_put [OF u(3)]
      by (simp only:)
  qed
qed

lemma update_upstairs_free_refines:
  assumes "1 \<le> v" and "v < 65536"
  shows "\<exists>t'. update_upstairs_free t v = Ok t' \<and> slot t' = up_free (slot t) v \<and> same_outside t t'"
  using assms
proof (induction v arbitrary: t rule: less_induct)
  case (less v)
  show ?case
  proof (cases "v = 1")
    case True
    then show ?thesis by simp
  next
    case False
    with less.prems have v: "2 \<le> v" by simp
    from v less.prems have u: "v div 2 < v" "1 \<le> v div 2" "v div 2 < 65536" by auto
    note IH = less.IH [OF u]
    have step: "up_free (slot t) v =
      (if slot t (v div 2) = SLOT_FULL then up_free ((slot t)(v div 2 := SLOT_SPLIT)) (v div 2)
       else if slot t (v div 2) = SLOT_SPLIT
       then (if slot t (sib v) = SLOT_EMPTY
             then up_free ((slot t)(v div 2 := SLOT_EMPTY)) (v div 2) else slot t)
       else up_free (slot t) (v div 2))"
      using v by (subst up_free.simps) simp
    have e: "slot (put_slot t (v div 2) st) = (slot t)(v div 2 := st)" if "st = SLOT_SPLIT \<or> st = SLOT_EMPTY" for st
      using that by (auto simp: slot_simps)
    note out = same_outside_put [OF u(3)]
    show ?thesis
      using IH [of t] IH [of "put_slot t (v div 2) SLOT_SPLIT", unfolded out e [of SLOT_SPLIT, simplified]]
        IH [of "put_slot t (v div 2) SLOT_EMPTY", unfolded out e [of SLOT_EMPTY, simplified]]
      unfolding step update_upstairs_free_step [OF v less.prems(2)]
      by (auto simp only: same_outside_refl split: if_split)
  qed
qed

end
