(* ===== verification/Buddy_Inv.thy ===== *)
theory Buddy_Inv
  imports Buddy_Tree
begin

text \<open>
  The invariant of the buddy tree (\<open>wf_slots\<close>: every node agrees with its sons) and the
  pages in use (\<open>used\<close>: some node on the path from the page to the root is full). What
  allocating and freeing a node does to both, for the upward walks of \<^verbatim>\<open>Buddy_Tree\<close>.
\<close>

section \<open>Well-formed trees\<close>

text \<open>
  \<open>node_ok s l r\<close>: a node in state \<open>s\<close> agrees with the states \<open>l\<close> and \<open>r\<close> of its sons. A
  full node is either allocated as a whole (empty sons) or the sum of two full sons.
\<close>

definition node_ok :: "8 word \<Rightarrow> 8 word \<Rightarrow> 8 word \<Rightarrow> bool" where
  "node_ok s l r =
     (s = SLOT_EMPTY \<and> l = SLOT_EMPTY \<and> r = SLOT_EMPTY
      \<or> s = SLOT_SPLIT \<and> \<not> (l = SLOT_EMPTY \<and> r = SLOT_EMPTY) \<and> \<not> (l = SLOT_FULL \<and> r = SLOT_FULL)
      \<or> s = SLOT_FULL \<and> (l = SLOT_FULL \<and> r = SLOT_FULL \<or> l = SLOT_EMPTY \<and> r = SLOT_EMPTY))"

definition wf_but :: "slots \<Rightarrow> nat \<Rightarrow> bool" where
  "wf_but g u =
     ((\<forall>w. 1 \<le> w \<and> w < 32768 \<and> w \<noteq> u \<longrightarrow> node_ok (g w) (g (2 * w)) (g (2 * w + 1)))
      \<and> (\<forall>p. 32768 \<le> p \<and> p < 65536 \<longrightarrow> g p = SLOT_EMPTY \<or> g p = SLOT_FULL))"

definition wf_slots :: "slots \<Rightarrow> bool" where
  "wf_slots g = wf_but g 0"

text \<open>The path from page \<open>p\<close> up \<open>j\<close> levels meets a full node; \<open>used\<close>: the whole path does.\<close>

definition used_upto :: "slots \<Rightarrow> nat \<Rightarrow> nat \<Rightarrow> bool" where
  "used_upto g p j = (\<exists>k\<le>j. g (p div 2 ^ k) = SLOT_FULL)"

definition used :: "slots \<Rightarrow> nat \<Rightarrow> bool" where
  "used g p = used_upto g p 15"

text \<open>No node strictly above \<open>v\<close> is full.\<close>

fun open_above :: "slots \<Rightarrow> nat \<Rightarrow> bool" where
  "open_above g v = (if v \<le> 1 then True else if g (v div 2) = SLOT_FULL then False else open_above g (v div 2))"

declare open_above.simps [simp del]

subsection \<open>Generic facts\<close>

lemma at_level_0 [simp]: "at_level 0 v = (v = 1)"
  by (auto simp: at_level_def)

lemma at_level_up: "at_level (Suc l) v \<Longrightarrow> at_level l (v div 2) \<and> 2 \<le> v"
  unfolding at_level_def using half_level [of l v] by (auto intro: order_trans [rotated])

lemma at_level_down: "at_level l v \<Longrightarrow> at_level (Suc l) (2 * v) \<and> at_level (Suc l) (2 * v + 1)"
  by (auto simp: at_level_def)

lemma at_level_anc: "at_level (l + k) v \<Longrightarrow> at_level l (v div 2 ^ k)"
  unfolding at_level_def using pow2_div_bounds [of l k v] by simp

lemma at_level_bound: "at_level l v \<Longrightarrow> l \<le> m \<Longrightarrow> 1 \<le> v \<and> v < 2 ^ Suc m"
proof -
  assume "at_level l v" and "l \<le> m"
  moreover have "(2::nat) ^ Suc l \<le> 2 ^ Suc m" using \<open>l \<le> m\<close> by (intro power_increasing) auto
  moreover have "(1::nat) \<le> 2 ^ l" by simp
  ultimately show ?thesis unfolding at_level_def by linarith
qed

lemma at_level_15: "at_level 15 p = (32768 \<le> p \<and> p < 65536)"
  by (simp add: at_level_def)

lemma sons_pair: "2 \<le> v \<Longrightarrow>
    2 * (v div 2) = v \<and> 2 * (v div 2) + 1 = sib v \<or> 2 * (v div 2) = sib v \<and> 2 * (v div 2) + 1 = v"
  by (auto simp: sib_def)

lemma node_ok_sym: "node_ok s l r = node_ok s r l"
  by (auto simp: node_ok_def)

lemma node_ok_parent: "2 \<le> v \<Longrightarrow>
    node_ok s (g (2 * (v div 2))) (g (2 * (v div 2) + 1)) = node_ok s (g v) (g (sib v))"
  using sons_pair [of v] node_ok_sym by metis

lemma wf_but_node:
  "wf_but g u \<Longrightarrow> 1 \<le> w \<Longrightarrow> w < 32768 \<Longrightarrow> w \<noteq> u \<Longrightarrow> node_ok (g w) (g (2 * w)) (g (2 * w + 1))"
  by (simp add: wf_but_def)

lemma wf_but_parent:
  assumes "wf_but g u" and "2 \<le> v" and "v < 65536" and "v div 2 \<noteq> u"
  shows "node_ok (g (v div 2)) (g v) (g (sib v))"
  using wf_but_node [OF assms(1), of "v div 2"] assms node_ok_parent [of v _ g] by auto

text \<open>Changing the state of node \<open>u\<close> moves the one node that may disagree with its sons
  from \<open>u\<close> to the parent of \<open>u\<close>.\<close>

lemma wf_but_upd:
  assumes "wf_but g u" and "1 \<le> u" and "u < 32768" and "node_ok x (g (2 * u)) (g (2 * u + 1))"
  shows "wf_but (g(u := x)) (u div 2)"
  unfolding wf_but_def
proof (intro conjI allI impI)
  fix w assume w: "1 \<le> w \<and> w < 32768 \<and> w \<noteq> u div 2"
  then have ne: "2 * w \<noteq> u" "2 * w + 1 \<noteq> u" by auto
  show "node_ok ((g(u := x)) w) ((g(u := x)) (2 * w)) ((g(u := x)) (2 * w + 1))"
    using wf_but_node [OF assms(1), of w] w ne assms(2,4) by (cases "w = u") auto
next
  fix p :: nat assume "32768 \<le> p \<and> p < 65536"
  then show "(g(u := x)) p = SLOT_EMPTY \<or> (g(u := x)) p = SLOT_FULL"
    using assms(1,3) by (auto simp: wf_but_def)
qed

lemma wf_but_wf: "wf_but g u \<Longrightarrow> u = 0 \<or> u \<ge> 32768 \<or> node_ok (g u) (g (2 * u)) (g (2 * u + 1)) \<Longrightarrow> wf_slots g"
  by (auto simp: wf_slots_def wf_but_def)

lemma used_upto_Suc: "used_upto g p (Suc j) = (used_upto g p j \<or> g (p div 2 ^ Suc j) = SLOT_FULL)"
  by (auto simp: used_upto_def le_Suc_eq)

lemma used_upto_upd:
  assumes "\<And>k. k \<le> j \<Longrightarrow> p div 2 ^ k = u \<Longrightarrow> (x = SLOT_FULL) = (g u = SLOT_FULL)"
  shows "used_upto (g(u := x)) p j = used_upto g p j"
  using assms by (auto simp: used_upto_def)

lemma used_split:
  assumes "j \<le> 15" and "open_above g (p div 2 ^ j)" and "at_level 15 p"
  shows "used g p = used_upto g p j"
  using assms(1,2)
proof (induction rule: inc_induct)
  case base
  then show ?case by (simp add: used_def)
next
  case (step n)
  then have "at_level (15 - n) (p div 2 ^ n)" using assms(3) at_level_anc [of "15 - n" n p] by simp
  moreover have "15 - n = Suc (14 - n)" using step.hyps by simp
  ultimately have "2 \<le> p div 2 ^ n" using at_level_up [of "14 - n"] by simp
  with step.prems have "g (p div 2 ^ Suc n) \<noteq> SLOT_FULL \<and> open_above g (p div 2 ^ Suc n)"
    by (simp add: open_above.simps [of g "p div 2 ^ n"] div_pow2_step' del: power_Suc split: if_splits)
  with step.IH show ?case by (simp add: used_upto_Suc)
qed

lemma open_above_parent:
  "2 \<le> v \<Longrightarrow> open_above g v = (g (v div 2) \<noteq> SLOT_FULL \<and> open_above g (v div 2))"
  by (subst open_above.simps) auto

lemma open_above_1 [simp]: "open_above g (Suc 0)"
  by (subst open_above.simps) simp

text \<open>A node split in a well-formed tree has only split nodes above it.\<close>

lemma split_open_above:
  assumes "wf_but g w" and "at_level l v" and "l \<le> 15" and "g v = SLOT_SPLIT" and "v \<le> w \<or> w = 0"
  shows "open_above g v"
  using assms(2-)
proof (induction l arbitrary: v)
  case 0
  then show ?case by simp
next
  case (Suc l)
  then have v: "at_level l (v div 2)" "2 \<le> v" "v < 65536"
    using at_level_up at_level_bound [of "Suc l" v 15] by auto
  then have "v div 2 \<noteq> w" using Suc.prems(4) by auto
  with v have "node_ok (g (v div 2)) (g v) (g (sib v))"
    by (intro wf_but_parent [OF assms(1)]) auto
  then have "g (v div 2) = SLOT_SPLIT" using Suc.prems(3) by (auto simp: node_ok_def)
  with Suc.IH [OF v(1)] Suc.prems v(2) show ?case by (auto simp: open_above_parent)
qed

lemma open_above_upd_below:
  "v \<le> u \<Longrightarrow> open_above (g(u := x)) v = open_above g v"
proof (induction v rule: less_induct)
  case (less v)
  show ?case
  proof (cases "v \<le> 1")
    case True
    then show ?thesis by (simp add: open_above.simps [of _ v])
  next
    case False
    then have "v div 2 < v" "v div 2 \<noteq> u" using less.prems by auto
    with False less show ?thesis by (simp add: open_above.simps [of _ v])
  qed
qed

section \<open>Allocation keeps the tree well-formed\<close>

lemma up_alloc_wf:
  assumes "wf_but g (v div 2)" and "at_level l v" and "l \<le> 15" and "g v = SLOT_SPLIT \<or> g v = SLOT_FULL"
  shows "wf_slots (up_alloc g v)"
  using assms
proof (induction l arbitrary: g v)
  case 0
  then show ?case by (simp add: wf_slots_def)
next
  case (Suc l)
  let ?u = "v div 2" and ?x = "if g (sib v) = SLOT_FULL \<and> g v = SLOT_FULL then SLOT_FULL else SLOT_SPLIT"
  have v: "at_level l ?u" "2 \<le> v" "1 \<le> ?u" "?u < 32768"
    using at_level_up [OF Suc.prems(2)] at_level_bound [of "Suc l" v 15] Suc.prems by auto
  have "node_ok ?x (g v) (g (sib v))" using Suc.prems(4) by (auto simp: node_ok_def)
  then have upd: "wf_but (g(?u := ?x)) (?u div 2)"
    using v by (intro wf_but_upd [OF Suc.prems(1)]) (auto simp only: node_ok_parent)
  define g' where "g' = g(?u := ?x)"
  from upd have "wf_but g' (?u div 2)" by (simp only: g'_def)
  moreover have "g' ?u = SLOT_SPLIT \<or> g' ?u = SLOT_FULL" by (simp add: g'_def)
  ultimately have "wf_slots (up_alloc g' ?u)"
    using Suc.IH [of g' ?u] v Suc.prems(3) by simp
  then show ?case using v(2) unfolding g'_def by (subst up_alloc.simps) simp
qed

text \<open>The walk after an allocation does not change which pages are in use.\<close>

lemma full_sons_used:
  assumes "at_level 15 p" and "u < 32768" and "g (2 * u) = SLOT_FULL" and "g (2 * u + 1) = SLOT_FULL"
    and "p div 2 ^ k = u" and "k \<le> 15"
  shows "used g p"
proof -
  have "k \<noteq> 0"
  proof
    assume "k = 0"
    with assms(1,2,5) show False by (simp add: at_level_15)
  qed
  then obtain j where k: "k = Suc j" by (cases k) auto
  then have "p div 2 ^ j = 2 * u \<or> p div 2 ^ j = 2 * u + 1"
    using assms(5) by (auto simp: div_pow2_step' simp del: power_Suc)
  with assms(3,4,6) k show ?thesis unfolding used_def used_upto_def by (metis Suc_leD)
qed

lemma up_alloc_used:
  assumes "open_above g v" and "at_level l v" and "l \<le> 15" and "at_level 15 p"
  shows "used (up_alloc g v) p = used g p"
  using assms(1-3)
proof (induction l arbitrary: g v)
  case 0
  then show ?case by simp
next
  case (Suc l)
  let ?u = "v div 2" and ?x = "if g (sib v) = SLOT_FULL \<and> g v = SLOT_FULL then SLOT_FULL else SLOT_SPLIT"
  have v: "at_level l ?u" "2 \<le> v" "1 \<le> ?u" "?u < 32768"
    using at_level_up [OF Suc.prems(2)] at_level_bound [of "Suc l" v 15] Suc.prems by auto
  have opn: "g ?u \<noteq> SLOT_FULL" "open_above g ?u" using Suc.prems(1) v(2) by (auto simp: open_above_parent)
  define g' where "g' = g(?u := ?x)"
  have "open_above g' ?u" using opn(2) unfolding g'_def by (simp only: open_above_upd_below)
  then have "used (up_alloc g' ?u) p = used g' p"
    using Suc.IH [of g' ?u] v Suc.prems(3) by simp
  then have "used (up_alloc (g(?u := ?x)) ?u) p = used (g(?u := ?x)) p"
    by (simp only: g'_def)
  also have "\<dots> = used g p"
  proof (cases "?x = SLOT_FULL")
    case True
    then have "g v = SLOT_FULL" "g (sib v) = SLOT_FULL" by (auto split: if_splits)
    then have sons: "g (2 * ?u) = SLOT_FULL" "g (2 * ?u + 1) = SLOT_FULL"
      using sons_pair [OF v(2)] by auto
    have "used g p" if "used (g(?u := ?x)) p"
    proof -
      from that obtain k where k: "k \<le> 15" "(g(?u := ?x)) (p div 2 ^ k) = SLOT_FULL"
        by (auto simp: used_def used_upto_def)
      then show ?thesis
        using full_sons_used [OF assms(4) v(4) sons, of k]
        by (cases "p div 2 ^ k = ?u") (auto simp: used_def used_upto_def)
    qed
    moreover have "used (g(?u := ?x)) p" if "used g p"
      using that opn(1) unfolding used_def used_upto_def by (metis fun_upd_apply)
    ultimately show ?thesis by blast
  next
    case False
    then show ?thesis using opn(1) unfolding used_def by (intro used_upto_upd) simp
  qed
  finally show ?case using v(2) by (subst up_alloc.simps) simp
qed

end
