(* ===== verification/Buddy_Block.thy ===== *)
theory Buddy_Block imports Buddy_Inv begin

section \<open>Blocks\<close>

text \<open>The pages below node \<open>v\<close> of level \<open>l\<close>.\<close>

definition leaves :: "nat \<Rightarrow> nat \<Rightarrow> nat set" where
  "leaves l v = {p. at_level 15 p \<and> p div 2 ^ (15 - l) = v}"

lemma wf_slots_node:
  "wf_slots g \<Longrightarrow> 1 \<le> w \<Longrightarrow> w < 32768 \<Longrightarrow> node_ok (g w) (g (2 * w)) (g (2 * w + 1))"
  by (simp add: wf_slots_def wf_but_def)

lemma path_parent: "(p::nat) div 2 ^ j = 2 * (p div 2 ^ Suc j) \<or> p div 2 ^ j = 2 * (p div 2 ^ Suc j) + 1"
  unfolding div_pow2_step' by auto

lemma path_internal:
  assumes "at_level 15 p" and "Suc j \<le> 15"
  shows "1 \<le> p div 2 ^ Suc j \<and> p div 2 ^ Suc j < 32768"
proof -
  have "at_level (14 - j) (p div 2 ^ Suc j)"
    using assms at_level_anc [of "14 - j" "Suc j" p] by simp
  then show ?thesis using at_level_bound [of "14 - j" _ 14] by simp
qed

text \<open>Below an empty node everything is empty.\<close>

lemma empty_below:
  assumes "wf_slots g" and "at_level 15 p" and "k \<le> 15" and "g (p div 2 ^ k) = SLOT_EMPTY" and "j \<le> k"
  shows "g (p div 2 ^ j) = SLOT_EMPTY"
  using assms(5,4,3)
proof (induction rule: inc_induct)
  case base
  then show ?case by simp
next
  case (step n)
  then have "node_ok (g (p div 2 ^ Suc n)) (g (2 * (p div 2 ^ Suc n))) (g (2 * (p div 2 ^ Suc n) + 1))"
    using path_internal [OF assms(2), of n] by (intro wf_slots_node [OF assms(1)]) auto
  with step show ?case using path_parent [of p n] by (auto simp: node_ok_def)
qed

lemma empty_unused:
  assumes "wf_slots g" and "at_level l v" and "l \<le> 15" and "g v = SLOT_EMPTY" and "open_above g v"
    and "p \<in> leaves l v"
  shows "\<not> used g p"
proof -
  have p: "at_level 15 p" "p div 2 ^ (15 - l) = v" using assms(6) by (auto simp: leaves_def)
  then have "used g p = used_upto g p (15 - l)"
    using assms(5) by (intro used_split) auto
  moreover have "g (p div 2 ^ j) = SLOT_EMPTY" if "j \<le> 15 - l" for j
    using empty_below [OF assms(1) p(1), of "15 - l" j] p(2) assms(4) that by simp
  ultimately show ?thesis by (auto simp: used_upto_def)
qed

text \<open>A node that is not empty has a page in use below it.\<close>

lemma nonempty_used:
  assumes "wf_slots g" and "at_level l v" and "l \<le> 15" and "g v \<noteq> SLOT_EMPTY"
  shows "\<exists>p \<in> leaves l v. used g p"
  using assms(3,2,4)
proof (induction arbitrary: v rule: inc_induct)
  case base
  then have "g v = SLOT_FULL"
    using assms(1) by (auto simp: wf_slots_def wf_but_def at_level_15)
  then have "used g v" by (auto simp: used_def used_upto_def intro!: exI [of _ 0])
  with base show ?case by (auto simp: leaves_def)
next
  case (step n)
  have n: "1 \<le> v" "v < 32768" using step at_level_bound [of n v 14] by auto
  have sub: "leaves (Suc n) (2 * v) \<subseteq> leaves n v" "leaves (Suc n) (2 * v + 1) \<subseteq> leaves n v"
  proof -
    have "15 - n = Suc (15 - Suc n)" using step.hyps by simp
    then have "p div 2 ^ (15 - n) = p div 2 ^ (15 - Suc n) div 2" for p :: nat
      by (simp only: div_pow2_step')
    then show "leaves (Suc n) (2 * v) \<subseteq> leaves n v" "leaves (Suc n) (2 * v + 1) \<subseteq> leaves n v"
      by (auto simp: leaves_def)
  qed
  show ?case
  proof (cases "g v = SLOT_FULL")
    case True
    have "v * 2 ^ (15 - n) \<in> leaves n v"
    proof -
      have "2 ^ n * 2 ^ (15 - n) \<le> v * 2 ^ (15 - n)" "v * 2 ^ (15 - n) < 2 ^ Suc n * 2 ^ (15 - n)"
        using step.prems(1) by (auto simp: at_level_def)
      moreover have "(2::nat) ^ n * 2 ^ (15 - n) = 2 ^ 15" "(2::nat) ^ Suc n * 2 ^ (15 - n) = 2 ^ 16"
        using step.hyps by (simp_all flip: power_add)
      ultimately have "2 ^ 15 \<le> v * 2 ^ (15 - n)" "v * 2 ^ (15 - n) < 2 ^ 16" by (simp_all only:)
      then show ?thesis by (simp add: leaves_def at_level_15)
    qed
    moreover from this True have "used g (v * 2 ^ (15 - n))"
      unfolding used_def used_upto_def by (intro exI [of _ "15 - n"]) (auto simp: leaves_def)
    ultimately show ?thesis by blast
  next
    case False
    with step.prems(2) wf_slots_node [OF assms(1) n]
    have "g (2 * v) \<noteq> SLOT_EMPTY \<or> g (2 * v + 1) \<noteq> SLOT_EMPTY" by (auto simp: node_ok_def)
    then show ?thesis
      using step.IH [of "2 * v"] step.IH [of "2 * v + 1"] at_level_down [OF step.prems(1)] sub by blast
  qed
qed

section \<open>Allocating a node\<close>

lemma alloc_node:
  assumes wf: "wf_slots g" and lev: "at_level l v" "l \<le> 15" and emp: "g v = SLOT_EMPTY"
    and opn: "open_above g v"
  shows "wf_slots (up_alloc (g(v := SLOT_FULL)) v)"
    and "at_level 15 p \<Longrightarrow> used (up_alloc (g(v := SLOT_FULL)) v) p = (used g p \<or> p \<in> leaves l v)"
proof -
  have v: "1 \<le> v" "v < 65536" using at_level_bound [OF lev] by auto
  have "wf_but (g(v := SLOT_FULL)) (v div 2)"
  proof (cases "v < 32768")
    case True
    then have "node_ok SLOT_FULL (g (2 * v)) (g (2 * v + 1))"
      using wf_slots_node [OF wf, of v] v emp by (auto simp: node_ok_def)
    moreover have "wf_but g v" using wf by (auto simp: wf_slots_def wf_but_def)
    ultimately show ?thesis using v True by (intro wf_but_upd)
  next
    case False
    with wf show ?thesis by (auto simp: wf_slots_def wf_but_def)
  qed
  then show "wf_slots (up_alloc (g(v := SLOT_FULL)) v)"
    using lev by (intro up_alloc_wf) auto
  assume p: "at_level 15 p"
  have "used (up_alloc (g(v := SLOT_FULL)) v) p = used (g(v := SLOT_FULL)) p"
    using lev p opn open_above_upd_below [of v v g] by (intro up_alloc_used) auto
  also have "\<dots> = (used g p \<or> p \<in> leaves l v)"
  proof
    assume "used (g(v := SLOT_FULL)) p"
    then obtain k where k: "k \<le> 15" "(g(v := SLOT_FULL)) (p div 2 ^ k) = SLOT_FULL"
      by (auto simp: used_def used_upto_def)
    show "used g p \<or> p \<in> leaves l v"
    proof (cases "p div 2 ^ k = v")
      case True
      have "at_level (15 - k) v" using at_level_anc [of "15 - k" k p] k(1) p True by simp
      then have "l = 15 - k" using lev(1) at_level_unique by blast
      with True k(1) p show ?thesis by (auto simp: leaves_def)
    next
      case False
      with k show ?thesis by (auto simp: used_def used_upto_def)
    qed
  next
    assume "used g p \<or> p \<in> leaves l v"
    then show "used (g(v := SLOT_FULL)) p"
    proof
      assume "used g p"
      then show ?thesis unfolding used_def used_upto_def by (metis fun_upd_apply)
    next
      assume "p \<in> leaves l v"
      then show ?thesis
        unfolding used_def used_upto_def by (intro exI [of _ "15 - l"]) (simp add: leaves_def)
    qed
  qed
  finally show "used (up_alloc (g(v := SLOT_FULL)) v) p = (used g p \<or> p \<in> leaves l v)" .
qed

section \<open>Freeing a node\<close>

text \<open>
  The walk after \<open>set_state(v, SLOT_EMPTY)\<close> turns the full ancestors of \<open>v\<close> into split ones.
  \<open>run_safe g u\<close>: the topmost node of the run of full nodes from \<open>u\<close> upwards is the root
  or has a brother that is not empty. \<open>free_safe g v\<close>: there is no such run, or it is safe.
\<close>

fun run_safe :: "slots \<Rightarrow> nat \<Rightarrow> bool" where
  "run_safe g u =
     (if u \<le> 1 then True
      else if g (u div 2) = SLOT_FULL then run_safe g (u div 2) else g (sib u) \<noteq> SLOT_EMPTY)"

declare run_safe.simps [simp del]

definition free_safe :: "slots \<Rightarrow> nat \<Rightarrow> bool" where
  "free_safe g v = (v \<le> 1 \<or> g (v div 2) \<noteq> SLOT_FULL \<or> run_safe g (v div 2))"

lemma sib_half: "2 \<le> u \<Longrightarrow> sib (u div 2) < u"
proof (cases "even (u div 2)")
  case True
  then obtain k where k: "u div 2 = 2 * k" by (rule evenE)
  moreover assume "2 \<le> u"
  ultimately have "1 \<le> k" by (cases k) auto
  moreover have "2 * (u div 2) \<le> u" by simp
  ultimately show ?thesis using k by (simp add: sib_def)
qed (auto simp: sib_def)

lemma run_safe_upd: "u \<le> w \<Longrightarrow> w \<noteq> sib u \<Longrightarrow> run_safe (g(w := x)) u = run_safe g u"
proof (induction u rule: less_induct)
  case (less u)
  show ?case
  proof (cases "u \<le> 1")
    case True
    then show ?thesis by (simp add: run_safe.simps [of _ u])
  next
    case False
    then have "u div 2 < u" "u div 2 \<noteq> w"
      using less.prems by auto
    moreover have "w \<noteq> sib (u div 2)"
      using less.prems(1) False sib_half [of u] by simp
    ultimately show ?thesis
      using False less by (simp add: run_safe.simps [of _ u])
  qed
qed

text \<open>
  Where the upward walk of \<open>buddy_kfree\<close> can stand. \<open>wf_but g (v div 2)\<close> holds, and:
  merging (the son is empty, its father split), unwinding a run of full nodes, or done.
\<close>

definition free_pc :: "slots \<Rightarrow> nat \<Rightarrow> bool" where
  "free_pc g v =
     (v = 1
      \<or> g v = SLOT_EMPTY \<and> g (v div 2) = SLOT_SPLIT
      \<or> (g v = SLOT_EMPTY \<or> g v = SLOT_SPLIT) \<and> g (v div 2) = SLOT_FULL \<and> g (sib v) = SLOT_FULL
         \<and> run_safe g (v div 2)
      \<or> g v = SLOT_SPLIT \<and> g (v div 2) = SLOT_SPLIT \<and> g (sib v) \<noteq> SLOT_EMPTY)"

lemma sib_sib: "2 \<le> v \<Longrightarrow> sib (sib v) = v \<and> sib v \<noteq> v \<and> sib v div 2 = v div 2"
  by (auto simp: sib_def elim!: oddE)

lemma same_parent: "a div 2 = v div 2 \<Longrightarrow> a \<noteq> v \<Longrightarrow> 2 \<le> v \<Longrightarrow> a = sib v"
  by (cases "even a"; cases "even v") (auto simp: sib_def elim!: evenE oddE)

lemma free_step_wf:
  assumes "wf_but g (v div 2)" and "2 \<le> v" and "v < 65536" and "node_ok x (g v) (g (sib v))"
  shows "wf_but (g(v div 2 := x)) (v div 2 div 2)"
  using assms by (intro wf_but_upd) (auto simp only: node_ok_parent div_le_mono)


text \<open>\<open>freed l g v h\<close>: the walk from node \<open>v\<close> of level \<open>l\<close> in \<open>g\<close> ended in the well-formed tree
  \<open>h\<close>; below \<open>v\<close> a page is in use if a full node of \<open>g\<close> up to \<open>v\<close> says so, elsewhere nothing
  changed.\<close>

definition freed :: "nat \<Rightarrow> slots \<Rightarrow> nat \<Rightarrow> slots \<Rightarrow> bool" where
  "freed l g v h = (wf_slots h
     \<and> (\<forall>p. at_level 15 p \<longrightarrow> used h p =
          (if p div 2 ^ (15 - l) = v then used_upto g p (15 - l) else used g p)))"

lemma level_Suc: "Suc l \<le> 15 \<Longrightarrow> 15 - l = Suc (15 - Suc l)"
  by simp

lemma path_up: "Suc l \<le> 15 \<Longrightarrow> (p::nat) div 2 ^ (15 - l) = p div 2 ^ (15 - Suc l) div 2"
  by (simp only: level_Suc div_pow2_step')

lemma used_upto_up: "Suc l \<le> 15 \<Longrightarrow> used_upto h p (15 - l) =
    (used_upto h p (15 - Suc l) \<or> h (p div 2 ^ (15 - l)) = SLOT_FULL)"
  by (simp only: level_Suc used_upto_Suc)

lemma path_level:
  assumes "at_level 15 p" and "k \<le> 15" and "at_level l (p div 2 ^ k)"
  shows "k = 15 - l"
proof -
  have "at_level (15 - k) (p div 2 ^ k)" using at_level_anc [of "15 - k" k p] assms(1,2) by simp
  then have "15 - k = l" using assms(3) at_level_unique by blast
  with assms(2) show ?thesis by auto
qed

lemma freed_stop:
  assumes "wf_slots g" and "open_above g v"
  shows "freed l g v g"
  using assms used_split [of "15 - l" g] by (simp add: freed_def)

lemma freed_merge:
  assumes h: "freed l (g(v div 2 := SLOT_EMPTY)) (v div 2) h"
    and g: "g (v div 2) = SLOT_SPLIT" "open_above g v" "2 \<le> v" "Suc l \<le> 15"
  shows "freed (Suc l) g v h"
proof -
  have same: "used_upto (g(v div 2 := SLOT_EMPTY)) p j = used_upto g p j" for p j
    using g(1) by (intro used_upto_upd) simp
  have "open_above g (v div 2)" using g(2,3) by (simp add: open_above_parent)
  then have "used g p = used_upto g p (15 - l)" if "at_level 15 p" "p div 2 ^ (15 - l) = v div 2" for p
    using that used_split [of "15 - l" g p] by simp
  then have "used h p = used g p" if "at_level 15 p" for p
    using h that same by (simp add: freed_def used_def)
  moreover have "used g p = used_upto g p (15 - Suc l)" if "at_level 15 p" "p div 2 ^ (15 - Suc l) = v" for p
    using that g(2) used_split [of "15 - Suc l" g p] by simp
  ultimately show ?thesis using h by (simp add: freed_def)
qed

lemma freed_run:
  assumes h: "freed l (g(v div 2 := SLOT_SPLIT)) (v div 2) h"
    and g: "g (sib v) = SLOT_FULL" "at_level (Suc l) v" "Suc l \<le> 15"
  shows "freed (Suc l) g v h"
proof -
  let ?u = "v div 2" and ?g = "g(v div 2 := SLOT_SPLIT)" and ?q = "15 - Suc l"
  have v: "at_level l ?u" "2 \<le> v" using at_level_up [OF g(2)] by auto
  have off: "p div 2 ^ k \<noteq> ?u" if "at_level 15 p" "k \<le> ?q \<or> k \<le> 15 \<and> p div 2 ^ (15 - l) \<noteq> ?u" for p k
    using path_level [OF that(1), of k l] that(2) v(1) g(3) by force
  have below: "used_upto ?g p (15 - l) = used_upto g p ?q"
    if p: "at_level 15 p" "p div 2 ^ (15 - l) = ?u" for p
  proof -
    have "used_upto ?g p ?q = used_upto g p ?q"
      using off [OF p(1)] by (intro used_upto_upd) auto
    then show ?thesis unfolding used_upto_up [OF g(3)] p(2) by simp
  qed
  have beside: "used_upto g p ?q \<and> used g p" if "p div 2 ^ (15 - l) = ?u" "p div 2 ^ ?q \<noteq> v" for p
  proof -
    have "p div 2 ^ ?q div 2 = ?u" using that(1) path_up [OF g(3), of p] by simp
    then have "p div 2 ^ ?q = sib v" using that(2) v(2) by (rule same_parent)
    then show ?thesis using g(1) unfolding used_def used_upto_def
      by (intro conjI exI [of _ ?q]) auto
  qed
  have "used ?g p = used g p" if "at_level 15 p" "p div 2 ^ (15 - l) \<noteq> ?u" for p
    unfolding used_def using off [OF that(1)] that(2) by (intro used_upto_upd) auto
  with below beside show ?thesis
    using h path_up [OF g(3)] by (auto simp: freed_def)
qed

lemma free_pc_merge:
  assumes "g u = SLOT_SPLIT" and "1 \<le> u" and "2 \<le> u \<Longrightarrow> node_ok (g (u div 2)) (g u) (g (sib u))"
  shows "free_pc (g(u := SLOT_EMPTY)) u"
proof (cases "u = 1")
  case False
  with assms(2) have "2 \<le> u" "u div 2 \<noteq> u" by auto
  with assms show ?thesis by (auto simp: free_pc_def node_ok_def)
qed (simp add: free_pc_def)

lemma free_pc_run:
  assumes "g u = SLOT_FULL" and "1 \<le> u" and "run_safe g u"
    and "2 \<le> u \<Longrightarrow> node_ok (g (u div 2)) (g u) (g (sib u))"
  shows "free_pc (g(u := SLOT_SPLIT)) u"
proof (cases "u = 1")
  case False
  with assms(2) have u: "2 \<le> u" "u div 2 \<noteq> u" "sib u \<noteq> u" by (auto simp: sib_def)
  have "run_safe (g(u := SLOT_SPLIT)) (u div 2) = run_safe g (u div 2)"
    using u(1) by (intro run_safe_upd) (auto simp: sib_def)
  with assms u show ?thesis
    by (auto simp: free_pc_def node_ok_def run_safe.simps [of g u] split: if_splits)
qed (simp add: free_pc_def)

lemma up_free_step:
  "2 \<le> v \<Longrightarrow> up_free g v =
     (if g (v div 2) = SLOT_FULL then up_free (g(v div 2 := SLOT_SPLIT)) (v div 2)
      else if g (v div 2) = SLOT_SPLIT
      then (if g (sib v) = SLOT_EMPTY then up_free (g(v div 2 := SLOT_EMPTY)) (v div 2) else g)
      else up_free g (v div 2))"
  by (subst up_free.simps) simp

lemma free_walk:
  assumes "free_pc g v" and "wf_but g (v div 2)" and "at_level l v" and "l \<le> 15"
  shows "freed l g v (up_free g v)"
  using assms
proof (induction l arbitrary: g v)
  case 0
  then show ?case by (auto simp: freed_def wf_slots_def used_def)
next
  case (Suc l)
  let ?u = "v div 2"
  have v: "at_level l ?u" "2 \<le> v" "v < 65536" "1 \<le> ?u" "?u < 32768" "v \<noteq> 1"
    using at_level_up [OF Suc.prems(3)] at_level_bound [of "Suc l" v 15] Suc.prems by auto
  have grand: "node_ok (g (?u div 2)) (g ?u) (g (sib ?u))" if "2 \<le> ?u"
    using that v by (intro wf_but_parent [OF Suc.prems(2)]) auto
  have opn: "open_above g v" if "g ?u = SLOT_SPLIT"
    using split_open_above [OF Suc.prems(2) v(1)] Suc.prems(4) that v(2) by (simp add: open_above_parent)
  have IH: "freed l g' ?u (up_free g' ?u)" if "free_pc g' ?u" "wf_but g' (?u div 2)" for g'
    using Suc.IH [OF that v(1)] Suc.prems(4) by simp
  consider (stop) "g ?u = SLOT_SPLIT" "g (sib v) \<noteq> SLOT_EMPTY" "g v = SLOT_EMPTY \<or> g v = SLOT_SPLIT"
    | (merge) "g v = SLOT_EMPTY" "g ?u = SLOT_SPLIT" "g (sib v) = SLOT_EMPTY"
    | (run) "g v = SLOT_EMPTY \<or> g v = SLOT_SPLIT" "g ?u = SLOT_FULL" "g (sib v) = SLOT_FULL" "run_safe g ?u"
    using Suc.prems(1) v(6) unfolding free_pc_def by blast
  then show ?case
  proof cases
    case stop
    have "node_ok (g ?u) (g v) (g (sib v))" using stop by (auto simp: node_ok_def)
    then have "wf_slots g"
      using v by (intro wf_but_wf [OF Suc.prems(2)]) (auto simp only: node_ok_parent)
    then show ?thesis using stop freed_stop opn by (simp add: up_free_step v)
  next
    case merge
    have "node_ok SLOT_EMPTY (g v) (g (sib v))" using merge by (auto simp: node_ok_def)
    then have "wf_but (g(?u := SLOT_EMPTY)) (?u div 2)"
      using v by (intro free_step_wf [OF Suc.prems(2)])
    from freed_merge [OF IH [OF free_pc_merge this]] merge opn v grand Suc.prems(4)
    show ?thesis by (simp add: up_free_step)
  next
    case run
    have "node_ok SLOT_SPLIT (g v) (g (sib v))" using run by (auto simp: node_ok_def)
    then have "wf_but (g(?u := SLOT_SPLIT)) (?u div 2)"
      using v by (intro free_step_wf [OF Suc.prems(2)])
    from freed_run [OF IH [OF free_pc_run this]] run v grand Suc.prems(3,4)
    show ?thesis by (simp add: up_free_step)
  qed
qed

text \<open>Freeing an allocated block when the run of full nodes above it is safe.\<close>

definition unit_block :: "slots \<Rightarrow> nat \<Rightarrow> nat \<Rightarrow> bool" where
  "unit_block g l v =
     (g v = SLOT_FULL \<and> (l < 15 \<longrightarrow> g (2 * v) = SLOT_EMPTY \<and> g (2 * v + 1) = SLOT_EMPTY))"

lemma free_start_wf:
  assumes "wf_slots g" and "at_level l v" "l \<le> 15" and "unit_block g l v"
  shows "wf_but (g(v := SLOT_EMPTY)) (v div 2)"
proof (cases "l < 15")
  case True
  then have "1 \<le> v" "v < 32768" using at_level_bound [OF assms(2), of 14] by auto
  moreover have "node_ok SLOT_EMPTY (g (2 * v)) (g (2 * v + 1))"
    using assms(4) True by (simp add: unit_block_def node_ok_def)
  moreover have "wf_but g v" using assms(1) by (auto simp: wf_slots_def wf_but_def)
  ultimately show ?thesis by (intro wf_but_upd)
next
  case False
  with assms(2,3) have "32768 \<le> v" by (simp add: at_level_def)
  with assms(1) show ?thesis by (auto simp: wf_slots_def wf_but_def)
qed

lemma free_start_pc:
  assumes "wf_slots g" and "1 \<le> v" "v < 65536" and "g v = SLOT_FULL" and "free_safe g v"
  shows "free_pc (g(v := SLOT_EMPTY)) v"
proof (cases "v = 1")
  case False
  then have v: "2 \<le> v" "v div 2 \<noteq> v" "sib v \<noteq> v" using assms(2) by (auto simp: sib_def)
  have "node_ok (g (v div 2)) (g v) (g (sib v))"
    using assms v by (intro wf_but_parent [of g 0]) (auto simp: wf_slots_def)
  moreover have "run_safe (g(v := SLOT_EMPTY)) (v div 2) = run_safe g (v div 2)"
    using v sib_half [of v] by (intro run_safe_upd) auto
  ultimately show ?thesis
    using assms(4,5) v by (auto simp: free_pc_def free_safe_def node_ok_def)
qed (simp add: free_pc_def)

lemma unit_block_below:
  assumes "wf_slots g" and "unit_block g l v" and p: "at_level 15 p" "p div 2 ^ (15 - l) = v"
  shows "\<not> used_upto (g(v := SLOT_EMPTY)) p (15 - l)"
proof -
  have "(g(v := SLOT_EMPTY)) (p div 2 ^ j) \<noteq> SLOT_FULL" if j: "j \<le> 15 - l" for j
  proof (cases "j = 15 - l")
    case True
    then show ?thesis using p(2) by simp
  next
    case False
    define i where "i = 14 - l"
    have i: "j \<le> i" "Suc i = 15 - l" "i \<le> 15" "l < 15" using False j by (auto simp: i_def)
    have "p div 2 ^ i = 2 * v \<or> p div 2 ^ i = 2 * v + 1"
      using path_parent [of p i] i(2) p(2) by simp
    then have "g (p div 2 ^ i) = SLOT_EMPTY" using assms(2) i(4) by (auto simp: unit_block_def)
    then have "g (p div 2 ^ j) = SLOT_EMPTY"
      using empty_below [OF assms(1) p(1) i(3)] i(1) by simp
    then show ?thesis by simp
  qed
  then show ?thesis by (auto simp: used_upto_def)
qed

lemma free_node:
  assumes wf: "wf_slots g" and lev: "at_level l v" "l \<le> 15" and blk: "unit_block g l v"
    and safe: "free_safe g v"
  shows "wf_slots (up_free (g(v := SLOT_EMPTY)) v)"
    and "at_level 15 p \<Longrightarrow> used (up_free (g(v := SLOT_EMPTY)) v) p = (used g p \<and> p \<notin> leaves l v)"
proof -
  let ?g = "g(v := SLOT_EMPTY)"
  have "free_pc ?g v"
    using free_start_pc [OF wf _ _ _ safe] at_level_bound [OF lev] blk by (simp add: unit_block_def)
  from free_walk [OF this free_start_wf [OF wf lev blk] lev]
  have fr: "freed l ?g v (up_free ?g v)" .
  then show "wf_slots (up_free ?g v)" by (simp add: freed_def)
  assume p: "at_level 15 p"
  have "used ?g p = used g p" if "p div 2 ^ (15 - l) \<noteq> v"
    unfolding used_def using path_level [OF p, of _ l] lev(1) that by (intro used_upto_upd) auto
  then show "used (up_free ?g v) p = (used g p \<and> p \<notin> leaves l v)"
    using fr p unit_block_below [OF wf blk p] by (auto simp: freed_def leaves_def)
qed

text \<open>
  When the run is not safe, the father of its topmost node ends up empty although a
  full node below it, the brother of the freed one, stays full.
\<close>

lemma up_free_frame: "v div 2 < w \<Longrightarrow> up_free g v w = g w"
proof (induction v arbitrary: g rule: less_induct)
  case (less v)
  show ?case
  proof (cases "v \<le> 1")
    case True
    then show ?thesis by (simp add: up_free.simps [of g v])
  next
    case False
    then have v: "2 \<le> v" "v div 2 < v" "v div 2 div 2 < w" "w \<noteq> v div 2" using less.prems by auto
    note IH = less.IH [OF v(2,3)]
    from v(4) show ?thesis
      unfolding up_free_step [OF v(1)] IH by (auto simp: IH)
  qed
qed

lemma unsafe_walk:
  assumes "v div 2 = u" and "g u = SLOT_FULL" and "\<not> run_safe g u"
    and "\<And>w. 2 \<le> w \<Longrightarrow> w \<le> u \<Longrightarrow> g w = SLOT_FULL \<Longrightarrow> g (w div 2) = SLOT_FULL \<or> g (w div 2) = SLOT_SPLIT"
  shows "\<exists>k\<ge>1. 1 \<le> u div 2 ^ k \<and> up_free g v (u div 2 ^ k) = SLOT_EMPTY"
  using assms
proof (induction u arbitrary: g v rule: less_induct)
  case (less u)
  have u: "2 \<le> u" using less.prems(3) by (simp add: run_safe.simps [of g u] split: if_splits)
  then have v: "2 \<le> v" "u div 2 < u" "u div 2 \<noteq> u" "1 \<le> u div 2" "sib u \<noteq> u"
    using less.prems(1) by (auto simp: sib_def)
  define g1 where "g1 = g(u := SLOT_SPLIT)"
  have walk: "up_free g v = up_free g1 u"
    using less.prems(1,2) v(1) by (simp add: up_free_step g1_def)
  have same: "g1 w = g w" if "w \<noteq> u" for w using that by (simp add: g1_def)
  show ?case
  proof (cases "g (u div 2) = SLOT_FULL")
    case True
    have "run_safe g1 (u div 2) = run_safe g (u div 2)"
      unfolding g1_def using u sib_half [OF u] by (intro run_safe_upd) auto
    moreover have "\<not> run_safe g (u div 2)"
      using less.prems(3) u True by (simp add: run_safe.simps [of g u])
    ultimately have "\<exists>k\<ge>1. 1 \<le> u div 2 div 2 ^ k \<and> up_free g1 u (u div 2 div 2 ^ k) = SLOT_EMPTY"
      using less.IH [OF v(2) refl, of g1] less.prems(4) True v(2,3) same by auto
    then obtain k where "1 \<le> k" "1 \<le> u div 2 ^ Suc k" "up_free g1 u (u div 2 ^ Suc k) = SLOT_EMPTY"
      unfolding div_pow2_step by blast
    then show ?thesis unfolding walk by (intro exI [of _ "Suc k"]) auto
  next
    case False
    then have "g (u div 2) = SLOT_SPLIT" "g (sib u) = SLOT_EMPTY"
      using less.prems(2,3,4) u by (auto simp: run_safe.simps [of g u] split: if_splits)
    then have "up_free g1 u = up_free (g1(u div 2 := SLOT_EMPTY)) (u div 2)"
      using u v(3,5) same by (simp add: up_free_step)
    then have "up_free g1 u (u div 2) = SLOT_EMPTY"
      using up_free_frame [of "u div 2" "u div 2" "g1(u div 2 := SLOT_EMPTY)"] v(4) by simp
    then show ?thesis unfolding walk using v(4) by (intro exI [of _ 1]) auto
  qed
qed

lemma free_node_unsafe:
  assumes wf: "wf_slots g" and lev: "at_level l v" "l \<le> 15" and full: "g v = SLOT_FULL"
    and unsafe: "\<not> free_safe g v"
  shows "\<exists>k. 2 \<le> k \<and> k \<le> l \<and> up_free (g(v := SLOT_EMPTY)) v (v div 2 ^ k) = SLOT_EMPTY
    \<and> up_free (g(v := SLOT_EMPTY)) v (sib v) = SLOT_FULL \<and> sib v div 2 ^ k = v div 2 ^ k"
proof -
  let ?g = "g(v := SLOT_EMPTY)" and ?u = "v div 2"
  have b: "1 \<le> v" "v < 65536" using at_level_bound [OF lev] by auto
  have u: "2 \<le> v" "g ?u = SLOT_FULL" "\<not> run_safe g ?u" using unsafe by (auto simp: free_safe_def)
  have ok: "node_ok (g (w div 2)) (g w) (g (sib w))" if "2 \<le> w" "w \<le> v" for w
    using that wf b by (intro wf_but_parent [of g 0]) (auto simp: wf_slots_def)
  have uv: "?g ?u = g ?u" using u(1) by auto
  have "run_safe ?g ?u = run_safe g ?u"
    using u(1) sib_half [of v] by (intro run_safe_upd) auto
  moreover have "?g (w div 2) = SLOT_FULL \<or> ?g (w div 2) = SLOT_SPLIT"
    if "2 \<le> w" "w \<le> ?u" "?g w = SLOT_FULL" for w
  proof -
    have "w < v" "w div 2 < v" using that u(1) by auto
    then show ?thesis using ok [of w] that by (auto simp: node_ok_def split: if_splits)
  qed
  ultimately obtain k where k: "1 \<le> k" "1 \<le> ?u div 2 ^ k" "up_free ?g v (?u div 2 ^ k) = SLOT_EMPTY"
    using unsafe_walk [OF refl, of ?g v] u(2,3) uv by auto
  have "Suc k \<le> l"
  proof (rule ccontr)
    assume "\<not> Suc k \<le> l"
    then have "(2::nat) ^ Suc l \<le> 2 ^ Suc k" by (intro power_increasing) auto
    then have "v < 2 ^ Suc k" using lev(1) unfolding at_level_def by linarith
    then have "v div 2 ^ Suc k = 0" by (rule div_less)
    with k(2) show False by (simp only: div_pow2_step)
  qed
  moreover have "up_free ?g v (sib v) = SLOT_FULL"
  proof -
    have "node_ok (g ?u) (g v) (g (sib v))" using ok [of v] u(1) by simp
    then have "g (sib v) = SLOT_FULL" using u(2) full by (auto simp: node_ok_def)
    moreover have "?u < sib v" "sib v \<noteq> v" using u(1) by (auto simp: sib_def elim!: oddE)
    ultimately show ?thesis using up_free_frame [of v "sib v" ?g] by simp
  qed
  moreover have "sib v div 2 ^ Suc k = v div 2 ^ Suc k"
    unfolding div_pow2_step [symmetric] using sib_sib [OF u(1)] sib_half [OF u(1)] by simp
  ultimately show ?thesis
    using k unfolding div_pow2_step by (intro exI [of _ "Suc k"]) (simp del: power_Suc)
qed

end
