(* ===== verification/Buddy_Search.thy ===== *)
theory Buddy_Search
  imports Buddy_Block
begin

text \<open>
  \<open>locate_free_block\<close> (\<^verbatim>\<open>kernel/buddy_kalloc.c\<close>): its two nested loops with the explicit
  backtracking stack compute the recursion \<open>search\<close>; a node the search returns is empty
  and below no full node, and the search fails only when there is no such node.
\<close>

section \<open>The search as a recursion\<close>

text \<open>\<open>search g d v\<close>: the node \<open>d\<close> levels below \<open>v\<close> that \<open>locate_free_block\<close> ends at.\<close>

fun search :: "slots \<Rightarrow> nat \<Rightarrow> nat \<Rightarrow> nat option" where
  "search g 0 v = (if g v = SLOT_EMPTY then Some v else None)"
| "search g (Suc d) v =
     (if g v = SLOT_EMPTY then search g d (2 * v)
      else if g v \<noteq> SLOT_SPLIT then None
      else if g (2 * v) = SLOT_SPLIT \<and> g (2 * v + 1) = SLOT_SPLIT
      then (case search g d (2 * v) of None \<Rightarrow> search g d (2 * v + 1) | Some w \<Rightarrow> Some w)
      else if g (2 * v) = SLOT_EMPTY then search g d (2 * v)
      else if g (2 * v + 1) = SLOT_EMPTY then search g d (2 * v + 1)
      else if g (2 * v) = SLOT_FULL \<and> g (2 * v + 1) = SLOT_SPLIT then search g d (2 * v + 1)
      else if g (2 * v + 1) = SLOT_FULL \<and> g (2 * v) = SLOT_SPLIT then search g d (2 * v)
      else None)"

text \<open>The stack holds the pending nodes \<open>xs\<close>, the last pushed first.\<close>

definition stack_rel :: "buddy_stack \<Rightarrow> nat list \<Rightarrow> bool" where
  "stack_rel stack xs =
     (top stack = length xs \<and> length (vindex_stack stack) = BUDDY_TREE_LEVEL
      \<and> take (length xs) (vindex_stack stack) = rev xs)"

lemma stack_init: "stack_rel init_buddy_stack []"
  by (simp add: stack_rel_def init_buddy_stack_def)

lemma stack_push:
  assumes "stack_rel stack xs" and "length xs < BUDDY_TREE_LEVEL"
  shows "\<exists>stack'. push stack v = Some stack' \<and> stack_rel stack' (v # xs)"
  using assms by (auto simp: stack_rel_def push_def take_Suc_conv_app_nth)

lemma stack_pop:
  assumes "stack_rel stack (y # ys)"
  shows "\<exists>stack'. pop stack = Some (y, stack') \<and> stack_rel stack' ys \<and> \<not> empty stack"
proof -
  have len: "length ys < length (vindex_stack stack)"
    using assms by (auto simp: stack_rel_def dest: arg_cong [of _ _ length])
  then have "take (length ys) (vindex_stack stack) @ [vindex_stack stack ! length ys] = rev ys @ [y]"
    using assms by (simp add: stack_rel_def take_Suc_conv_app_nth)
  then show ?thesis using assms by (simp add: stack_rel_def pop_def empty_def)
qed

lemma stack_empty: "stack_rel stack [] \<Longrightarrow> empty stack"
  by (simp add: stack_rel_def empty_def)

text \<open>
  What the loop does when the search below the current node fails: nothing is pending and
  it returns 0 or a node that is not empty, or it goes on with the right son of the node
  pushed last.
\<close>

definition gives_up :: "tree \<Rightarrow> nat \<Rightarrow> nat \<Rightarrow> nat list \<Rightarrow> (nat \<times> nat) result \<Rightarrow> bool" where
  "gives_up t level v0 xs r =
     (case xs of
        [] \<Rightarrow> \<exists>l w. r = Ok (l, w) \<and> (l = 0 \<or> w < 65536 \<and> slot t w \<noteq> SLOT_EMPTY)
      | y # ys \<Rightarrow> \<exists>stack. stack_rel stack ys \<and>
          r = locate_loop t level v0 (2 * y + 1) (nat (get_level (2 * y + 1) mod 2 ^ 16)) stack)"

lemma locate_here:
  assumes "descend t level v cl stack = Ok (Inr (v, cl, stack, False))" and "stack_rel stack xs"
    and "v < 65536" and "slot t v = SLOT_EMPTY \<Longrightarrow> cl \<noteq> level"
  shows "gives_up t level v0 xs (locate_loop t level v0 v cl stack)"
proof (cases xs)
  case Nil
  with assms(2) have "empty stack" by (simp add: stack_empty)
  then show ?thesis
    using assms(1,3,4) Nil by (subst locate_loop.simps) (auto simp: gives_up_def)
next
  case (Cons y ys)
  with assms(2) obtain stack' where "pop stack = Some (y, stack')" "stack_rel stack' ys" "\<not> empty stack"
    using stack_pop by blast
  then show ?thesis
    using assms(1) Cons by (subst locate_loop.simps) (auto simp: gives_up_def Let_def)
qed

lemma locate_move:
  "descend t level v cl stack = descend t level v' cl' stack' \<Longrightarrow>
   locate_loop t level v0 v cl stack = locate_loop t level v0 v' cl' stack'"
  by (simp add: locate_loop.simps [of t level v0])

text \<open>One step of the descent, on a node above the wanted level.\<close>

lemma descend_step:
  assumes "at_level cl v" and "cl < level" and "level \<le> 15"
  shows "descend t level v cl stack =
    (if slot t v = SLOT_EMPTY then descend t level (2 * v) (cl + 1) stack
     else if slot t v \<noteq> SLOT_SPLIT then Ok (Inr (v, cl, stack, False))
     else if slot t (2 * v) = SLOT_SPLIT \<and> slot t (2 * v + 1) = SLOT_SPLIT
     then (case push stack v of None \<Rightarrow> Ok (Inl 0)
           | Some stack \<Rightarrow> descend t level (2 * v) (cl + 1) stack)
     else if slot t (2 * v) = SLOT_EMPTY then descend t level (2 * v) (cl + 1) stack
     else if slot t (2 * v + 1) = SLOT_EMPTY then descend t level (2 * v + 1) (cl + 1) stack
     else if slot t (2 * v) = SLOT_FULL \<and> slot t (2 * v + 1) = SLOT_SPLIT
     then descend t level (2 * v + 1) (cl + 1) stack
     else if slot t (2 * v + 1) = SLOT_FULL \<and> slot t (2 * v) = SLOT_SPLIT
     then descend t level (2 * v) (cl + 1) stack
     else Ok (Inr (v, cl, stack, False)))"
proof -
  have "v < 32768" using at_level_bound [OF assms(1), of 14] assms(2,3) by simp
  then have "v < 65536" "2 * v < 65536" "2 * v + 1 < 65536" by auto
  note sl = this [THEN get_state_slot, of t]
  have cl: "cl \<le> level" "cl \<noteq> level" using assms(2) by auto
  consider "slot t v = SLOT_EMPTY" | "slot t v = SLOT_SPLIT" | "slot t v \<noteq> SLOT_EMPTY" "slot t v \<noteq> SLOT_SPLIT"
    by blast
  then show ?thesis
    by cases (subst descend.simps, simp only: sl bindr_simps go_simps cl if_True if_False simp_thms,
      simp split del: if_split)+
qed

lemma descend_target:
  assumes "at_level level v" and "level \<le> 15"
  shows "descend t level v level stack = Ok (Inr (v, level, stack, slot t v = SLOT_EMPTY))"
proof -
  have "v < 65536" using at_level_bound [OF assms] by simp
  then show ?thesis by (subst descend.simps) (simp add: get_state_slot)
qed

text \<open>The recursion is what the loop computes, backtracking stack included.\<close>

lemma locate_search:
  assumes "at_level cl v" and "cl + d = level" and "level \<le> 15"
    and "stack_rel stack xs" and "length xs \<le> cl"
  shows "case search (slot t) d v of
      None \<Rightarrow> gives_up t level v0 xs (locate_loop t level v0 v cl stack)
    | Some w \<Rightarrow> locate_loop t level v0 v cl stack = Ok (level, w)"
  using assms
proof (induction d arbitrary: v cl stack xs)
  case 0
  then have v: "v < 65536" "cl = level" using at_level_bound [of cl v 15] by auto
  note d = descend_target [of level v t stack]
  show ?case
  proof (cases "slot t v = SLOT_EMPTY")
    case True
    then show ?thesis using 0 d v(2) by (subst locate_loop.simps) simp
  next
    case False
    then show ?thesis using locate_here [OF _ 0(4) v(1)] 0 d v(2) by simp
  qed
next
  case (Suc d)
  then have lt: "cl < level" and v: "v < 65536" using at_level_bound [of cl v 15] by auto
  have sons: "at_level (cl + 1) (2 * v)" "at_level (cl + 1) (2 * v + 1)"
    using at_level_down [OF Suc.prems(1)] by auto
  have lev: "nat (get_level (2 * v + 1) mod 2 ^ 16) = cl + 1"
    using get_level_at [OF sons(2)] lt Suc.prems(3) by simp
  note step = descend_step [OF Suc.prems(1) lt Suc.prems(3), of t]
  have left: ?case if "search (slot t) (Suc d) v = search (slot t) d (2 * v)"
      "descend t level v cl stack = descend t level (2 * v) (cl + 1) stack"
    unfolding that(1) locate_move [OF that(2)]
    by (rule Suc.IH [OF sons(1) _ Suc.prems(3,4)]) (use Suc.prems(2,5) in auto)
  have right: ?case if "search (slot t) (Suc d) v = search (slot t) d (2 * v + 1)"
      "descend t level v cl stack = descend t level (2 * v + 1) (cl + 1) stack"
    unfolding that(1) locate_move [OF that(2)]
    by (rule Suc.IH [OF sons(2) _ Suc.prems(3,4)]) (use Suc.prems(2,5) in auto)
  have stop: ?case if "search (slot t) (Suc d) v = None"
      "descend t level v cl stack = Ok (Inr (v, cl, stack, False))"
    unfolding that(1) option.case using locate_here [OF that(2) Suc.prems(4) v] lt by simp
  have both: ?case if sp: "slot t v = SLOT_SPLIT" "slot t (2 * v) = SLOT_SPLIT" "slot t (2 * v + 1) = SLOT_SPLIT"
  proof -
    obtain stack' where st: "push stack v = Some stack'" "stack_rel stack' (v # xs)"
      using stack_push [OF Suc.prems(4)] Suc.prems(3,5) lt by fastforce
    then have mv: "locate_loop t level v0 v cl stack = locate_loop t level v0 (2 * v) (cl + 1) stack'"
      using sp by (intro locate_move) (simp add: step)
    have l: "case search (slot t) d (2 * v) of
        None \<Rightarrow> gives_up t level v0 (v # xs) (locate_loop t level v0 (2 * v) (cl + 1) stack')
      | Some w \<Rightarrow> locate_loop t level v0 (2 * v) (cl + 1) stack' = Ok (level, w)"
      using Suc.IH [OF sons(1) _ Suc.prems(3) st(2)] Suc.prems(2,5) by simp
    show ?thesis
    proof (cases "search (slot t) d (2 * v)")
      case None
      then obtain stack2 where st2: "stack_rel stack2 xs"
        "locate_loop t level v0 (2 * v) (cl + 1) stack' = locate_loop t level v0 (2 * v + 1) (cl + 1) stack2"
        using l unfolding gives_up_def list.case lev by auto
      then show ?thesis
        using Suc.IH [OF sons(2) _ Suc.prems(3) st2(1)] Suc.prems(2,5) None sp mv st2(2)
        by (simp split: option.splits)
    next
      case (Some w)
      then show ?thesis using l sp mv by simp
    qed
  qed
  show ?case
    using left right stop both step [of stack] by (auto split: if_splits)
qed

lemma locate_free_block_search:
  assumes "level \<le> 15"
  shows "case search (slot t) level 1 of
      None \<Rightarrow> \<exists>l w. locate_free_block t 1 level = Ok (l, w) \<and> (l = 0 \<or> w < 65536 \<and> slot t w \<noteq> SLOT_EMPTY)
    | Some w \<Rightarrow> locate_free_block t 1 level = Ok (level, w)"
  using locate_search [of 0 1 level level init_buddy_stack "[]" t 1] assms stack_init
  unfolding locate_free_block_def gives_up_def list.case by simp

section \<open>The search is sound and complete\<close>

lemma search_not_full: "search g d v = Some w \<Longrightarrow> g v \<noteq> SLOT_FULL"
  by (cases d) (auto split: if_splits)

lemma search_sound:
  assumes "search g d v = Some w" and "1 \<le> v" and "open_above g v"
  shows "w div 2 ^ d = v \<and> g w = SLOT_EMPTY \<and> open_above g w"
  using assms
proof (induction d arbitrary: v)
  case 0
  then show ?case by (auto split: if_splits)
next
  case (Suc d)
  have up: "w div 2 ^ Suc d = v \<and> g w = SLOT_EMPTY \<and> open_above g w"
    if "search g d v' = Some w" "v' = 2 * v \<or> v' = 2 * v + 1" for v'
    using Suc.IH [OF that(1)] that(2) Suc.prems(2,3) search_not_full [OF Suc.prems(1)]
    by (auto simp: open_above_parent div_pow2_step' simp del: power_Suc search.simps)
  from Suc.prems(1) have "search g d (2 * v) = Some w \<or> search g d (2 * v + 1) = Some w"
    by (auto split: if_splits option.splits)
  then show ?case using up by blast
qed

lemma slot_states:
  assumes "wf_slots g" and "1 \<le> v" and "v < 65536"
  shows "g v = SLOT_EMPTY \<or> g v = SLOT_SPLIT \<or> g v = SLOT_FULL"
proof (cases "v < 32768")
  case True
  then show ?thesis using wf_slots_node [OF assms(1,2)] by (auto simp: node_ok_def)
next
  case False
  then show ?thesis using assms unfolding wf_slots_def wf_but_def by (meson not_less)
qed

lemma search_empty:
  assumes "wf_slots g" and "at_level l v" and "l + d \<le> 15" and "g v = SLOT_EMPTY"
  shows "search g d v \<noteq> None"
  using assms(2-)
proof (induction d arbitrary: v l)
  case 0
  then show ?case by simp
next
  case (Suc d)
  have "1 \<le> v" "v < 32768" using at_level_bound [OF Suc.prems(1), of 14] Suc.prems(2) by auto
  then have "g (2 * v) = SLOT_EMPTY"
    using wf_slots_node [OF assms(1), of v] Suc.prems(3) by (auto simp: node_ok_def)
  then show ?case
    using Suc.IH [of "Suc l" "2 * v"] at_level_down [OF Suc.prems(1)] Suc.prems(2,3) by simp
qed

text \<open>The search succeeds when an empty node of the level has no full node above it.\<close>

lemma search_complete:
  assumes "wf_slots g" and "at_level l v" and "l + d \<le> 15" and "w div 2 ^ d = v"
    and "g w = SLOT_EMPTY" and "\<And>k. k \<le> d \<Longrightarrow> g (w div 2 ^ k) \<noteq> SLOT_FULL"
  shows "search g d v \<noteq> None"
  using assms(2-)
proof (induction d arbitrary: v l)
  case 0
  then show ?case by simp
next
  case (Suc d)
  let ?l = "2 * v" and ?r = "2 * v + 1"
  have b: "1 \<le> v" "v < 32768" using at_level_bound [OF Suc.prems(1), of 14] Suc.prems(2) by auto
  then have ok: "node_ok (g v) (g ?l) (g ?r)" using wf_slots_node [OF assms(1)] by blast
  have states: "g ?l = SLOT_EMPTY \<or> g ?l = SLOT_SPLIT \<or> g ?l = SLOT_FULL"
    "g ?r = SLOT_EMPTY \<or> g ?r = SLOT_SPLIT \<or> g ?r = SLOT_FULL"
    using slot_states [OF assms(1), of ?l] slot_states [OF assms(1), of ?r] b by auto
  have sons: "at_level (Suc l) ?l" "at_level (Suc l) ?r" "Suc l + d \<le> 15"
    using at_level_down [OF Suc.prems(1)] Suc.prems(2) by auto
  have path: "w div 2 ^ d = ?l \<or> w div 2 ^ d = ?r"
    using Suc.prems(3) path_parent [of w d] by simp
  have nf: "g (w div 2 ^ d) \<noteq> SLOT_FULL" "g v \<noteq> SLOT_FULL"
    using Suc.prems(5) [of d] Suc.prems(5) [of "Suc d"] Suc.prems(3) by auto
  have found: "search g d (w div 2 ^ d) \<noteq> None"
    using path sons Suc.IH [of "Suc l" "w div 2 ^ d"] Suc.prems(4,5) by auto
  show ?case
  proof (cases "g ?l = SLOT_EMPTY \<or> g ?r = SLOT_EMPTY")
    case True
    then show ?thesis
      using search_empty [OF assms(1) sons(1,3)] search_empty [OF assms(1) sons(2,3)] ok nf(2)
      by (auto simp: node_ok_def)
  next
    case False
    then have "g v = SLOT_SPLIT" using ok nf(2) by (auto simp: node_ok_def)
    then show ?thesis
      using False states path nf(1) found ok by (auto simp: node_ok_def split: option.splits)
  qed
qed

text \<open>
  The search enters a split node only when its brother is not empty: this is what makes
  freeing the block that was just allocated safe.
\<close>

lemma search_prefers:
  assumes "wf_slots g" and "at_level l v" and "l + d \<le> 15" and "search g d v = Some w"
    and "k < d" and "g (w div 2 ^ k) = SLOT_SPLIT" and "open_above g v"
  shows "g (sib (w div 2 ^ k)) \<noteq> SLOT_EMPTY"
  using assms(2-)
proof (induction d arbitrary: v l)
  case 0
  then show ?case by simp
next
  case (Suc d)
  let ?l = "2 * v" and ?r = "2 * v + 1"
  have b: "1 \<le> v" "v < 32768" using at_level_bound [OF Suc.prems(1), of 14] Suc.prems(2) by auto
  then have ok: "node_ok (g v) (g ?l) (g ?r)" using wf_slots_node [OF assms(1)] by blast
  have sons: "at_level (Suc l) ?l" "at_level (Suc l) ?r" "Suc l + d \<le> 15"
    using at_level_down [OF Suc.prems(1)] Suc.prems(2) by auto
  have opn: "open_above g ?l" "open_above g ?r"
    using Suc.prems(6) search_not_full [OF Suc.prems(3)] b by (simp_all add: open_above_parent)
  have sibs: "sib ?l = ?r" "sib ?r = ?l" by (simp_all add: sib_def)
  have "search g d ?l = Some w \<and> (g ?l = SLOT_SPLIT \<longrightarrow> g ?r \<noteq> SLOT_EMPTY)
      \<or> search g d ?r = Some w \<and> (g ?r = SLOT_SPLIT \<longrightarrow> g ?l \<noteq> SLOT_EMPTY)"
    using Suc.prems(3) ok by (auto simp: node_ok_def split: if_splits option.splits)
  then obtain v' where v': "v' = ?l \<or> v' = ?r" "search g d v' = Some w"
    and pref: "g v' = SLOT_SPLIT \<Longrightarrow> g (sib v') \<noteq> SLOT_EMPTY"
    using sibs by metis
  show ?case
  proof (cases "k < d")
    case True
    then show ?thesis using Suc.IH [of "Suc l" v'] sons opn v' Suc.prems(5) by auto
  next
    case False
    then have "k = d" using Suc.prems(4) by simp
    moreover have "w div 2 ^ d = v'" using search_sound [OF v'(2)] v'(1) b opn by auto
    ultimately show ?thesis using pref Suc.prems(5) by simp
  qed
qed

end
