(* ===== verification/Buddy_Frame.thy ===== *)
theory Buddy_Frame
  imports Buddy_Search
begin

text \<open>
  What the upward walks leave alone: every node that is not above the one they start at.
  Blocks allocated as a whole survive other allocations and frees, and a block that was
  just allocated can be freed without meeting the flaw of \<open>update_upstairs_free\<close>.
\<close>

section \<open>What the walks leave alone\<close>

lemma up_alloc_step:
  "2 \<le> v \<Longrightarrow> up_alloc g v = up_alloc (g(v div 2 := if g (sib v) = SLOT_FULL \<and> g v = SLOT_FULL
     then SLOT_FULL else SLOT_SPLIT)) (v div 2)"
  by (subst up_alloc.simps) simp

lemma not_above_half:
  assumes "\<And>k. 1 \<le> k \<Longrightarrow> v div 2 ^ k \<noteq> (x::nat)"
  shows "x \<noteq> v div 2" and "1 \<le> k \<Longrightarrow> v div 2 div 2 ^ k \<noteq> x"
  using assms [of 1] assms [of "Suc k"] unfolding div_pow2_step by auto

lemma up_alloc_frame: "(\<And>k. 1 \<le> k \<Longrightarrow> v div 2 ^ k \<noteq> x) \<Longrightarrow> up_alloc g v x = g x"
proof (induction v arbitrary: g rule: less_induct)
  case (less v)
  note h = not_above_half [OF less.prems]
  show ?case
  proof (cases "v \<le> 1")
    case True
    then show ?thesis by (simp add: up_alloc.simps [of g v])
  next
    case False
    then have v: "2 \<le> v" "v div 2 < v" by auto
    have IH: "up_alloc g' (v div 2) x = g' x" for g' using less.IH [OF v(2)] h by blast
    show ?thesis unfolding up_alloc_step [OF v(1)] IH using h by simp
  qed
qed

lemma up_free_frame_path: "(\<And>k. 1 \<le> k \<Longrightarrow> v div 2 ^ k \<noteq> x) \<Longrightarrow> up_free g v x = g x"
proof (induction v arbitrary: g rule: less_induct)
  case (less v)
  note h = not_above_half [OF less.prems]
  show ?case
  proof (cases "v \<le> 1")
    case True
    then show ?thesis by (simp add: up_free.simps [of g v])
  next
    case False
    then have v: "2 \<le> v" "v div 2 < v" by auto
    have IH: "up_free g' (v div 2) x = g' x" for g' using less.IH [OF v(2)] h by blast
    show ?thesis unfolding up_free_step [OF v(1)] using h by (auto simp: IH)
  qed
qed

lemma open_above_anc:
  assumes "open_above g v" and "1 \<le> k" and "1 \<le> v div 2 ^ k"
  shows "g (v div 2 ^ k) \<noteq> SLOT_FULL"
  using assms
proof (induction k arbitrary: v)
  case 0
  then show ?case by simp
next
  case (Suc k)
  have "1 \<le> v div 2" using Suc.prems(3) unfolding div_pow2_step [symmetric]
    by (cases "v div 2") auto
  then have "2 \<le> v" by simp
  then have "g (v div 2) \<noteq> SLOT_FULL" "open_above g (v div 2)"
    using Suc.prems(1) by (auto simp: open_above_parent)
  then show ?case
    using Suc.IH [of "v div 2"] Suc.prems(3) unfolding div_pow2_step [symmetric] by (cases k) auto
qed

lemma leaf_below:
  assumes "at_level l v" and "l \<le> 15"
  shows "v * 2 ^ (15 - l) \<in> leaves l v"
proof -
  let ?p = "v * 2 ^ (15 - l)"
  have "(2::nat) ^ l * 2 ^ (15 - l) \<le> ?p" "?p < 2 ^ Suc l * 2 ^ (15 - l)"
    using assms(1) by (auto simp: at_level_def)
  moreover have "(2::nat) ^ l * 2 ^ (15 - l) = 32768" using assms(2) by (simp only: power_add [symmetric]) simp
  moreover from this have "(2::nat) ^ Suc l * 2 ^ (15 - l) = 65536" by simp
  ultimately have p: "at_level 15 ?p" unfolding at_level_15 by linarith
  then show ?thesis by (simp add: leaves_def)
qed

lemma empty_anc:
  assumes "wf_slots g" and "at_level l v" and "l \<le> 15" and "k \<le> l" and "g (v div 2 ^ k) = SLOT_EMPTY"
  shows "g v = SLOT_EMPTY"
proof -
  let ?p = "v * 2 ^ (15 - l)"
  have p: "at_level 15 ?p" using leaf_below [OF assms(2,3)] by (simp add: leaves_def)
  have "?p div 2 ^ (15 - l + k) = v div 2 ^ k" by (simp add: power_add div_mult2_eq)
  then have "g (?p div 2 ^ (15 - l)) = SLOT_EMPTY"
    using empty_below [OF assms(1) p, of "15 - l + k" "15 - l"] assms(3-5) by simp
  then show ?thesis by simp
qed

section \<open>Blocks allocated as a whole stay so\<close>

lemma unit_block_frame:
  assumes "unit_block g l w" and "w \<noteq> v" and "\<And>k. 1 \<le> k \<Longrightarrow> v div 2 ^ k \<noteq> w"
    and "\<And>x. x \<noteq> v \<Longrightarrow> (\<And>k. 1 \<le> k \<Longrightarrow> v div 2 ^ k \<noteq> x) \<Longrightarrow> f x = g x"
  shows "unit_block f l w"
proof -
  have son: "f x = g x" if "x div 2 = w" for x
  proof (rule assms(4))
    show "x \<noteq> v" using assms(3) [of 1] that by auto
    show "v div 2 ^ k \<noteq> x" if "1 \<le> k" for k
      using assms(3) [of "Suc k"] \<open>x div 2 = w\<close> by (auto simp: div_pow2_step' simp del: power_Suc)
  qed
  have "f w = g w" using assms(2,3) by (intro assms(4)) auto
  then show ?thesis using assms(1) son [of "2 * w"] son [of "2 * w + 1"] by (simp add: unit_block_def)
qed

lemma unit_block_alloc:
  assumes "unit_block g l w" and "1 \<le> w" and "g v = SLOT_EMPTY" and "open_above g v"
  shows "unit_block (up_alloc (g(v := SLOT_FULL)) v) l w"
proof (rule unit_block_frame [OF assms(1)])
  have w: "g w = SLOT_FULL" using assms(1) by (simp add: unit_block_def)
  then show "w \<noteq> v" using assms(3) by auto
  show "v div 2 ^ k \<noteq> w" if "1 \<le> k" for k
    using open_above_anc [OF assms(4) that] w assms(2) by auto
  show "up_alloc (g(v := SLOT_FULL)) v x = g x" if "x \<noteq> v" "\<And>k. 1 \<le> k \<Longrightarrow> v div 2 ^ k \<noteq> x" for x
    using up_alloc_frame [of v x "g(v := SLOT_FULL)"] that by simp
qed

lemma unit_block_free:
  assumes "unit_block g l' w" and "at_level l' w" and "wf_slots g" and "at_level l v" and "l \<le> 15"
    and "g v = SLOT_FULL" and "w \<noteq> v"
  shows "unit_block (up_free (g(v := SLOT_EMPTY)) v) l' w"
proof (rule unit_block_frame [OF assms(1,7)])
  show "v div 2 ^ k \<noteq> w" if k: "1 \<le> k" for k
  proof
    assume vw: "v div 2 ^ k = w"
    have "k \<le> l"
    proof (rule ccontr)
      assume "\<not> k \<le> l"
      then have "(2::nat) ^ Suc l \<le> 2 ^ k" by (intro power_increasing) auto
      then have "v < 2 ^ k" using assms(4) unfolding at_level_def by linarith
      then show False using vw assms(2) by (auto simp: at_level_def)
    qed
    obtain j where j: "k = Suc j" using k by (cases k) auto
    have "l' = l - k"
      using at_level_anc [of "l - k" k v] assms(2,4) vw \<open>k \<le> l\<close> at_level_unique by simp
    then have "l' < 15" using k \<open>k \<le> l\<close> assms(5) by simp
    then have "g (2 * w) = SLOT_EMPTY" "g (2 * w + 1) = SLOT_EMPTY"
      using assms(1) by (auto simp: unit_block_def)
    then have "g (v div 2 ^ j) = SLOT_EMPTY" using path_parent [of v j] vw j by auto
    then show False using empty_anc [OF assms(3-5), of j] \<open>k \<le> l\<close> j assms(6) by simp
  qed
  show "up_free (g(v := SLOT_EMPTY)) v x = g x" if "x \<noteq> v" "\<And>k. 1 \<le> k \<Longrightarrow> v div 2 ^ k \<noteq> x" for x
    using up_free_frame_path [of v x "g(v := SLOT_EMPTY)"] that by simp
qed

section \<open>A block just allocated is safe to free\<close>

lemma run_safeI:
  assumes "\<And>k. 2 \<le> u div 2 ^ k \<Longrightarrow> h (u div 2 ^ k) = SLOT_FULL \<Longrightarrow> h (sib (u div 2 ^ k)) \<noteq> SLOT_EMPTY"
    and "h u = SLOT_FULL"
  shows "run_safe h u"
  using assms
proof (induction u rule: less_induct)
  case (less u)
  have "run_safe h (u div 2)" if "2 \<le> u" "h (u div 2) = SLOT_FULL"
  proof (rule less.IH [OF _ _ that(2)])
    show "u div 2 < u" using that(1) by simp
    show "h (sib (u div 2 div 2 ^ k)) \<noteq> SLOT_EMPTY"
      if "2 \<le> u div 2 div 2 ^ k" "h (u div 2 div 2 ^ k) = SLOT_FULL" for k
      using less.prems(1) [of "Suc k"] that unfolding div_pow2_step by blast
  qed
  moreover have "h (sib u) \<noteq> SLOT_EMPTY" if "2 \<le> u"
    using less.prems(1) [of 0] less.prems(2) that by simp
  ultimately show ?case by (simp add: run_safe.simps [of h u])
qed

lemma sib_not_above:
  assumes "2 \<le> v div 2 ^ k"
  shows "v div 2 ^ j \<noteq> sib (v div 2 ^ k)"
proof
  assume e: "v div 2 ^ j = sib (v div 2 ^ k)"
  note ss = sib_sib [OF assms]
  then have half: "v div 2 ^ Suc j = v div 2 ^ Suc k" using e by (simp only: div_pow2_step')
  have "1 \<le> v div 2 ^ Suc k" using assms by (simp add: div_pow2_step' del: power_Suc)
  moreover have "v div 2 ^ b < v div 2 ^ a" if "a < b" "1 \<le> v div 2 ^ b" for a b
  proof -
    have "v div 2 ^ b = v div 2 ^ a div 2 ^ (b - a)"
      using that(1) by (simp add: div_mult2_eq [symmetric] power_add [symmetric])
    moreover have "(2::nat) ^ 1 \<le> 2 ^ (b - a)" using that(1) by (intro power_increasing) auto
    moreover have "v div 2 ^ a div 2 ^ (b - a) \<le> v div 2 ^ a div 2"
      using div_le_mono2 [of 2 "2 ^ (b - a)" "v div 2 ^ a"] calculation(2) by simp
    ultimately show ?thesis using that(2) by linarith
  qed
  ultimately have "j = k" using half by (metis Suc_less_eq nat_neq_iff)
  then show False using e ss by simp
qed

text \<open>A node above the allocated one that has become full was split, and its brother is as before.\<close>

lemma alloc_full_above:
  assumes wf: "wf_slots g" and lev: "at_level l w" "l \<le> 15" and emp: "g w = SLOT_EMPTY"
    and opn: "open_above g w" and k: "2 \<le> w div 2 ^ Suc j"
    and full: "up_alloc (g(w := SLOT_FULL)) w (w div 2 ^ Suc j) = SLOT_FULL"
  shows "g (w div 2 ^ Suc j) = SLOT_SPLIT
    \<and> up_alloc (g(w := SLOT_FULL)) w (sib (w div 2 ^ Suc j)) = g (sib (w div 2 ^ Suc j))"
proof -
  let ?h = "up_alloc (g(w := SLOT_FULL)) w" and ?u = "w div 2 ^ Suc j" and ?ch = "w div 2 ^ j"
  have wfh: "wf_slots ?h" using alloc_node(1) [OF wf lev emp opn] .
  have u: "?u = ?ch div 2" by (rule div_pow2_step')
  then have ch: "2 \<le> ?ch" using k by simp
  have wb: "1 \<le> w" "w < 65536" using at_level_bound [OF lev] by auto
  then have chb: "?ch < 65536" using div_le_dividend [of w "2 ^ j"] by linarith
  have "j \<le> l"
  proof (rule ccontr)
    assume "\<not> j \<le> l"
    then have "(2::nat) ^ Suc l \<le> 2 ^ j" by (intro power_increasing) auto
    then have "w < 2 ^ j" using lev(1) unfolding at_level_def by linarith
    then show False using ch by simp
  qed
  have sibs: "?h (sib (w div 2 ^ i)) = g (sib (w div 2 ^ i))" if "2 \<le> w div 2 ^ i" for i
    using up_alloc_frame [of w "sib (w div 2 ^ i)" "g(w := SLOT_FULL)"] sib_not_above [OF that]
      sib_not_above [OF that, of 0] by auto
  have "?h w = SLOT_FULL"
  proof -
    have "w div 2 ^ i \<noteq> w" if "1 \<le> i" for i
      using wb(1) that power_increasing [of 1 i "2::nat"] div_less_dividend [of "2 ^ i" w] by fastforce
    then show ?thesis using up_alloc_frame [of w w "g(w := SLOT_FULL)"] by simp
  qed
  then have "?h ?ch \<noteq> SLOT_EMPTY" using empty_anc [OF wfh lev \<open>j \<le> l\<close>] by auto
  then have "?h (sib ?ch) = SLOT_FULL"
    using wf_but_parent [of ?h 0 ?ch] wfh ch chb full u by (auto simp: wf_slots_def node_ok_def)
  then have "g (sib ?ch) = SLOT_FULL" using sibs [OF ch] by simp
  then have "g ?u = SLOT_SPLIT"
    using wf_but_parent [of g 0 ?ch] wf ch chb u open_above_anc [OF opn, of "Suc j"] k
    by (auto simp: wf_slots_def node_ok_def)
  then show ?thesis using sibs [OF k] by blast
qed

lemma alloc_safe:
  assumes wf: "wf_slots g" and lev: "at_level l w" "l \<le> 15" and emp: "g w = SLOT_EMPTY"
    and opn: "open_above g w"
    and pref: "\<And>k. k < l \<Longrightarrow> g (w div 2 ^ k) = SLOT_SPLIT \<Longrightarrow> g (sib (w div 2 ^ k)) \<noteq> SLOT_EMPTY"
  shows "free_safe (up_alloc (g(w := SLOT_FULL)) w) w"
proof -
  let ?h = "up_alloc (g(w := SLOT_FULL)) w"
  have "?h (sib (w div 2 div 2 ^ j)) \<noteq> SLOT_EMPTY"
    if j: "2 \<le> w div 2 div 2 ^ j" "?h (w div 2 div 2 ^ j) = SLOT_FULL" for j
  proof -
    have "Suc j < l"
    proof (rule ccontr)
      assume "\<not> Suc j < l"
      then have "(2::nat) ^ l \<le> 2 ^ Suc j" by (intro power_increasing) auto
      then have "w < 2 * 2 ^ Suc j" using lev(1) unfolding at_level_def by simp
      then have "w div 2 ^ Suc j < 2" by (simp only: less_mult_imp_div_less)
      then show False using j(1) unfolding div_pow2_step by simp
    qed
    then show ?thesis
      using alloc_full_above [OF wf lev emp opn, of j] j pref [of "Suc j"] unfolding div_pow2_step by simp
  qed
  then show ?thesis using run_safeI [of "w div 2" ?h] by (auto simp: free_safe_def)
qed

end
