(* ===== verification/Buddy_Alloc.thy ===== *)
theory Buddy_Alloc
  imports Buddy_Frame
begin

text \<open>
  \<open>buddy_kalloc\<close> and \<open>buddy_kfree\<close> (\<^verbatim>\<open>kernel/buddy_kalloc.c\<close>) as operations on
  memory: the bytes in use (\<open>allocated\<close>), the blocks that are allocated as a whole
  (\<open>live\<close>), and what both operations do to them. The contract is the locale
  \<open>block_allocator\<close>, which the two functions implement.
\<close>

section \<open>Critical sections of the buddy lock\<close>

lemma push_off_tree [simp]: "tree (push_off c s) = tree s"
  by (simp add: push_off_def intr_off_def Let_def)

lemma enter_tree [lock_simps]: "tree (enter c lk s) = tree s"
  by (simp add: enter_def)

lemma note_intena_tree [simp]: "tree (note_intena c s) = tree s"
  by (simp add: note_intena_def)

lemma buddy_leave [lock_simps]:
  assumes "lock_free BuddyLock s" and "intr_ok c s"
  shows "release c BuddyLock ((enter c BuddyLock s)\<lparr>tree := t\<rparr>) = Ok ((note_intena c s)\<lparr>tree := t\<rparr>)"
    and "release c BuddyLock (enter c BuddyLock s) = Ok (note_intena c s)"
  using release_exit [OF assms, of "(enter c BuddyLock s)\<lparr>tree := t\<rparr>"]
    release_exit [OF assms, of "enter c BuddyLock s"]
  by (simp_all add: enter_def push_off_def note_intena_def intr_off_def Let_def)

section \<open>Addresses and pages\<close>

definition page_of :: "nat \<Rightarrow> nat" where
  "page_of a = 32768 + (a - KERNBASE) div PGSIZE"

text \<open>The bytes that belong to a page in use, and the bytes of a block.\<close>

definition allocated :: "tree \<Rightarrow> nat set" where
  "allocated t = {a. KERNBASE \<le> a \<and> a < PHYSTOP \<and> used (slot t) (page_of a)}"

definition block :: "nat \<Rightarrow> nat \<Rightarrow> nat set" where
  "block adr order = {adr..<adr + 2 ^ (order + 12)}"

lemma page_of_level: "KERNBASE \<le> a \<Longrightarrow> a < PHYSTOP \<Longrightarrow> at_level 15 (page_of a)"
  by (auto simp: page_of_def at_level_15)

lemma page_of_div:
  assumes "l \<le> 15"
  shows "page_of a div 2 ^ (15 - l) = 2 ^ l + (a - KERNBASE) div 2 ^ (27 - l)"
proof -
  have "(32768::nat) = 2 ^ l * 2 ^ (15 - l)" using assms by (simp flip: power_add)
  then have "page_of a div 2 ^ (15 - l) = (2 ^ l * 2 ^ (15 - l) + (a - KERNBASE) div PGSIZE) div 2 ^ (15 - l)"
    by (simp add: page_of_def)
  also have "\<dots> = 2 ^ l + (a - KERNBASE) div PGSIZE div 2 ^ (15 - l)"
    by (simp add: div_add1_eq)
  also have "(a - KERNBASE) div PGSIZE div 2 ^ (15 - l) = (a - KERNBASE) div (2 ^ 12 * 2 ^ (15 - l))"
    by (simp add: div_mult2_eq)
  also have "(2::nat) ^ 12 * 2 ^ (15 - l) = 2 ^ (27 - l)"
    unfolding power_add [symmetric] using assms by simp
  finally show ?thesis .
qed

lemma block_leaves:
  assumes "at_level l v" and "l \<le> 15"
  shows "a \<in> block (node_adr l v) (15 - l) \<longleftrightarrow> KERNBASE \<le> a \<and> a < PHYSTOP \<and> page_of a \<in> leaves l v"
proof -
  let ?b = "2 ^ (27 - l) :: nat"
  have e: "15 - l + 12 = 27 - l" using assms(2) by simp
  have bnd: "KERNBASE \<le> node_adr l v" "node_adr l v + ?b \<le> PHYSTOP" using node_adr_bounds [OF assms] by auto
  have "a \<in> block (node_adr l v) (15 - l) \<longleftrightarrow> KERNBASE \<le> a \<and> a < PHYSTOP \<and> (a - KERNBASE) div ?b = v - 2 ^ l"
  proof (cases "KERNBASE \<le> a")
    case True
    then obtain r where r: "a = KERNBASE + r" using le_Suc_ex by blast
    have "(r div ?b = v - 2 ^ l) = ((v - 2 ^ l) * ?b \<le> r \<and> r < (v - 2 ^ l) * ?b + ?b)"
      by (intro div_eq_bounds) simp
    then show ?thesis using bnd unfolding block_def e r by (auto simp: node_adr_def)
  next
    case False
    then show ?thesis using bnd unfolding block_def e by auto
  qed
  moreover have "page_of a div 2 ^ (15 - l) = v \<longleftrightarrow> (a - KERNBASE) div ?b = v - 2 ^ l"
    unfolding page_of_div [OF assms(2)] using assms(1) by (auto simp: at_level_def)
  ultimately show ?thesis using page_of_level by (auto simp: leaves_def)
qed

lemma allocated_eqI:
  assumes "at_level l v" and "l \<le> 15"
    and "\<And>p. at_level 15 p \<Longrightarrow> used (slot t') p = (used (slot t) p \<or> p \<in> leaves l v)"
  shows "allocated t' = allocated t \<union> block (node_adr l v) (15 - l)"
  using assms(3) page_of_level by (auto simp: allocated_def block_leaves [OF assms(1,2)])

lemma allocated_diffI:
  assumes "at_level l v" and "l \<le> 15"
    and "\<And>p. at_level 15 p \<Longrightarrow> used (slot t') p = (used (slot t) p \<and> p \<notin> leaves l v)"
  shows "allocated t' = allocated t - block (node_adr l v) (15 - l)"
  using assms(3) page_of_level by (auto simp: allocated_def block_leaves [OF assms(1,2)])

lemma block_free:
  assumes "at_level l v" and "l \<le> 15" and "\<And>p. p \<in> leaves l v \<Longrightarrow> \<not> used (slot t) p"
  shows "block (node_adr l v) (15 - l) \<inter> allocated t = {}"
  using assms(3) by (auto simp: allocated_def block_leaves [OF assms(1,2)])

text \<open>Every aligned block of the managed memory is the block of one node.\<close>

lemma aligned_node:
  assumes "KERNBASE \<le> b" and "b + 2 ^ (order + 12) \<le> PHYSTOP" and "2 ^ (order + 12) dvd b - KERNBASE"
    and "order \<le> 15"
  shows "at_level (15 - order) (get_vindex b (15 - order))"
    and "node_adr (15 - order) (get_vindex b (15 - order)) = b"
proof -
  let ?l = "15 - order"
  have e: "27 - ?l = order + 12" using assms(4) by simp
  have pw: "(2::nat) ^ ?l * 2 ^ (order + 12) = 134217728"
    using assms(4) by (simp flip: power_add)
  have v: "get_vindex b ?l = 2 ^ ?l + (b - KERNBASE) div 2 ^ (order + 12)"
    using get_vindex_eq [of b ?l] assms e by simp
  obtain k where k: "b - KERNBASE = 2 ^ (order + 12) * k" using assms(3) by (rule dvdE)
  have "(0::nat) < 2 ^ (order + 12)" by simp
  then have "b - KERNBASE < 134217728" using assms(1,2) by linarith
  then have "2 ^ (order + 12) * k < 2 ^ (order + 12) * 2 ^ ?l"
    unfolding k [symmetric] using pw by (simp only: mult.commute)
  then have "k < 2 ^ ?l" by simp
  then show "at_level ?l (get_vindex b ?l)" using k by (simp add: v at_level_def)
  show "node_adr ?l (get_vindex b ?l) = b"
    unfolding node_adr_def e v using k assms(1) by (simp add: mult.commute)
qed

section \<open>What \<open>buddy_kalloc\<close> does\<close>

lemma root_level: "w div 2 ^ l = 1 \<Longrightarrow> at_level l w"
  using div_eq_bounds [of "2 ^ l" w 1] by (simp add: at_level_def)

lemma search_root:
  assumes "search g l 1 = Some w"
  shows "at_level l w" and "g w = SLOT_EMPTY" and "open_above g w"
  using search_sound [OF assms] root_level by auto

lemma kalloc_found:
  assumes "lock_free BuddyLock s" and "intr_ok c s" and "order < 15"
    and "search (slot (tree s)) (15 - order) 1 = Some w"
  shows "\<exists>t. buddy_kalloc c order s = Ok (node_adr (15 - order) w, (note_intena c s)\<lparr>tree := t\<rparr>)
    \<and> slot t = up_alloc ((slot (tree s))(w := SLOT_FULL)) w"
proof -
  note w = search_root [OF assms(4)]
  have b: "1 \<le> w" "w < 65536" using at_level_bound [OF w(1), of 15] by auto
  have loc: "locate_free_block (tree s) 1 (15 - order) = Ok (15 - order, w)"
    using locate_free_block_search [of "15 - order" "tree s"] assms(4) by simp
  obtain t where "update_upstairs_alloc (put_slot (tree s) w SLOT_FULL) w = Ok t"
    "slot t = up_alloc (slot (put_slot (tree s) w SLOT_FULL)) w"
    using update_upstairs_alloc_refines [OF b] by blast
  then show ?thesis
    using assms(1-3) b w(2) loc get_adr_at [OF w(1)]
    by (auto simp: buddy_kalloc_def Let_def lock_simps slot_simps)
qed

lemma kalloc_none:
  assumes "lock_free BuddyLock s" and "intr_ok c s" and "order \<le> 15"
    and "search (slot (tree s)) (15 - order) 1 = None \<or> order = 15"
  shows "buddy_kalloc c order s = Ok (0, note_intena c s)"
proof -
  obtain l w where "locate_free_block (tree s) 1 (15 - order) = Ok (l, w)"
    and "l = 0 \<or> w < 65536 \<and> slot (tree s) w \<noteq> SLOT_EMPTY"
    using locate_free_block_search [of "15 - order" "tree s"] assms(4)
    by (cases "search (slot (tree s)) (15 - order) 1") auto
  then show ?thesis
    using assms(1-3) by (auto simp: buddy_kalloc_def Let_def lock_simps slot_simps)
qed

section \<open>The contract of a block allocator\<close>

text \<open>
  \<open>buddy_ok c kend s\<close>: the buddy lock is free, interrupts nest properly on hart \<open>c\<close>, the
  tree is well-formed and the memory below \<open>kend\<close> is in use.
\<close>

definition buddy_ok :: "nat \<Rightarrow> nat \<Rightarrow> 'z buddy_scheme \<Rightarrow> bool" where
  "buddy_ok c kend s =
     (lock_free BuddyLock s \<and> intr_ok c s \<and> wf_slots (slot (tree s))
      \<and> {KERNBASE..<kend} \<subseteq> allocated (tree s))"

text \<open>\<open>live kend t adr order\<close>: \<open>adr\<close> is the address of a block that is allocated as a whole.\<close>

definition live :: "nat \<Rightarrow> tree \<Rightarrow> nat \<Rightarrow> nat \<Rightarrow> bool" where
  "live kend t adr order =
     (order \<le> 15 \<and> KERNBASE \<le> adr \<and> kend \<le> adr \<and> adr + 2 ^ (order + 12) \<le> PHYSTOP
      \<and> 2 ^ (order + 12) dvd adr - KERNBASE
      \<and> unit_block (slot t) (15 - order) (get_vindex adr (15 - order)))"

text \<open>Freeing the block does not run into the flaw of \<open>update_upstairs_free\<close>.\<close>

definition safe_to_free :: "tree \<Rightarrow> nat \<Rightarrow> nat \<Rightarrow> bool" where
  "safe_to_free t adr order = free_safe (slot t) (get_vindex adr (15 - order))"

lemma locks_tree [simp]:
  "lock_free lk (s\<lparr>tree := t\<rparr>) = lock_free lk s" "intr_ok c (s\<lparr>tree := t\<rparr>) = intr_ok c s"
  "lock_free lk (note_intena c s) = lock_free lk s" "intr_ok c (note_intena d s) = intr_ok c s"
  by (auto simp: lock_free_def intr_ok_def note_intena_def)

lemma live_node:
  assumes "live kend t adr order"
  shows "at_level (15 - order) (get_vindex adr (15 - order))"
    and "node_adr (15 - order) (get_vindex adr (15 - order)) = adr"
    and "unit_block (slot t) (15 - order) (get_vindex adr (15 - order))"
  using assms aligned_node [of adr order] by (auto simp: live_def)

lemma node_aligned: "l \<le> 15 \<Longrightarrow> 2 ^ (15 - l + 12) dvd node_adr l v - KERNBASE"
  by (simp add: node_adr_def)

lemma live_nodeI:
  assumes "at_level l v" and "l \<le> 15" and "unit_block (slot t) l v" and "kend \<le> node_adr l v"
  shows "live kend t (node_adr l v) (15 - l)"
proof -
  have e: "15 - (15 - l) = l" "15 - l + 12 = 27 - l" using assms(2) by auto
  show ?thesis
    using node_adr_bounds [OF assms(1,2)] get_vindex_node_adr [OF assms(1,2)] assms(2-4) node_aligned [of l v]
    unfolding live_def e by auto
qed

lemma live_mono:
  assumes "live kend t b o'"
    and "unit_block (slot t') (15 - o') (get_vindex b (15 - o'))"
  shows "live kend t' b o'"
  using assms by (simp add: live_def)

lemma alloc_unit:
  assumes "wf_slots g" and "at_level l v" and "l \<le> 15" and "g v = SLOT_EMPTY"
  shows "unit_block (up_alloc (g(v := SLOT_FULL)) v) l v"
proof -
  have v: "1 \<le> v" using at_level_bound [OF assms(2,3)] by simp
  have frame: "up_alloc (g(v := SLOT_FULL)) v x = (g(v := SLOT_FULL)) x" if "v \<le> x" for x
  proof (rule up_alloc_frame)
    fix k :: nat assume "1 \<le> k"
    then have "(2::nat) ^ 1 \<le> 2 ^ k" by (intro power_increasing) auto
    then have "v div 2 ^ k < v" using v by (intro div_less_dividend) auto
    then show "v div 2 ^ k \<noteq> x" using that by simp
  qed
  have "g (2 * v) = SLOT_EMPTY \<and> g (2 * v + 1) = SLOT_EMPTY" if "l < 15"
  proof -
    have "v < 32768" using at_level_bound [OF assms(2), of 14] that by simp
    then show ?thesis using wf_slots_node [OF assms(1) v] assms(4) by (auto simp: node_ok_def)
  qed
  then show ?thesis
    using frame [of v] frame [of "2 * v"] frame [of "2 * v + 1"] v by (auto simp: unit_block_def)
qed

section \<open>Allocation\<close>

lemma kalloc_law:
  assumes ok: "buddy_ok c kend s" and ord: "order \<le> 15"
  shows "\<exists>adr t. buddy_kalloc c order s = Ok (adr, (note_intena c s)\<lparr>tree := t\<rparr>)
    \<and> buddy_ok c kend ((note_intena c s)\<lparr>tree := t\<rparr>)
    \<and> (adr = 0 \<and> t = tree s
       \<or> live kend t adr order \<and> safe_to_free t adr order
         \<and> block adr order \<inter> allocated (tree s) = {} \<and> allocated t = allocated (tree s) \<union> block adr order
         \<and> (\<forall>b o'. live kend (tree s) b o' \<longrightarrow> live kend t b o'))"
proof -
  let ?g = "slot (tree s)" and ?l = "15 - order"
  have lk: "lock_free BuddyLock s" "intr_ok c s" and wf: "wf_slots ?g"
    and low: "{KERNBASE..<kend} \<subseteq> allocated (tree s)" using ok by (auto simp: buddy_ok_def)
  show ?thesis
  proof (cases "order < 15 \<and> search ?g ?l 1 \<noteq> None")
    case False
    then have "buddy_kalloc c order s = Ok (0, note_intena c s)"
      using kalloc_none [OF lk ord] ord by auto
    then show ?thesis using ok by (intro exI [of _ 0] exI [of _ "tree s"]) (simp add: buddy_ok_def)
  next
    case True
    then obtain w where w: "search ?g ?l 1 = Some w" by auto
    note r = search_root [OF w]
    have l: "?l \<le> 15" "15 - ?l = order" using ord by auto
    obtain t where t: "buddy_kalloc c order s = Ok (node_adr ?l w, (note_intena c s)\<lparr>tree := t\<rparr>)"
      "slot t = up_alloc (?g(w := SLOT_FULL)) w" using kalloc_found [OF lk _ w] True by blast
    note new = alloc_node [OF wf r(1) l(1) r(2,3), folded t(2)]
    have dis: "block (node_adr ?l w) order \<inter> allocated (tree s) = {}"
      using block_free [OF r(1) l(1), of "tree s"] empty_unused [OF wf r(1) l(1) r(2,3)] l(2) by simp
    have all: "allocated t = allocated (tree s) \<union> block (node_adr ?l w) order"
      using allocated_eqI [OF r(1) l(1) new(2)] l(2) by simp
    have "kend \<le> node_adr ?l w"
      using dis low node_adr_bounds(1) [OF r(1) l(1)] by (force simp: block_def)
    then have "live kend t (node_adr ?l w) order"
      using live_nodeI [OF r(1) l(1)] alloc_unit [OF wf r(1) l(1) r(2)] t(2) l(2) by simp
    moreover have "safe_to_free t (node_adr ?l w) order"
      unfolding safe_to_free_def get_vindex_node_adr [OF r(1) l(1)] t(2)
      using alloc_safe [OF wf r(1) l(1) r(2,3)] search_prefers [OF wf _ _ w, of 0] l(1) by auto
    moreover have "live kend t b o'" if "live kend (tree s) b o'" for b o'
      using live_mono [OF that] unit_block_alloc [OF live_node(3) [OF that] _ r(2,3)]
        at_level_bound [OF live_node(1) [OF that], of 15] t(2) by simp
    ultimately show ?thesis
      using t(1) dis all new(1) lk low
      by (intro exI [of _ "node_adr ?l w"] exI [of _ t]) (auto simp: buddy_ok_def)
  qed
qed

text \<open>When \<open>buddy_kalloc\<close> returns 0, every aligned block of the order meets memory in use.\<close>

lemma kalloc_zero:
  assumes ok: "buddy_ok c kend s" and ord: "order < 15" and zero: "buddy_kalloc c order s = Ok (0, s')"
    and b: "KERNBASE \<le> b" "b + 2 ^ (order + 12) \<le> PHYSTOP" "2 ^ (order + 12) dvd b - KERNBASE"
  shows "block b order \<inter> allocated (tree s) \<noteq> {}"
proof
  let ?g = "slot (tree s)" and ?l = "15 - order" and ?w = "get_vindex b (15 - order)"
  assume dis: "block b order \<inter> allocated (tree s) = {}"
  have lk: "lock_free BuddyLock s" "intr_ok c s" and wf: "wf_slots ?g" using ok by (auto simp: buddy_ok_def)
  have l: "?l \<le> 15" "15 - ?l = order" using ord by auto
  have w: "at_level ?l ?w" "node_adr ?l ?w = b" using aligned_node [OF b] ord by auto
  have un: "\<not> used ?g p" if "p \<in> leaves ?l ?w" for p
  proof -
    let ?a = "KERNBASE + (p - 32768) * PGSIZE"
    have p: "32768 \<le> p" "p < 65536" using that by (auto simp: leaves_def at_level_15)
    then have "page_of ?a = p" "?a < PHYSTOP" by (auto simp: page_of_def)
    then have "?a \<in> block b order"
      using block_leaves [OF w(1) l(1), of ?a] that w(2) l(2) by simp
    then show ?thesis using dis \<open>page_of ?a = p\<close> \<open>?a < PHYSTOP\<close> by (auto simp: allocated_def)
  qed
  have emp: "?g ?w = SLOT_EMPTY" using nonempty_used [OF wf w(1) l(1)] un by blast
  have "?g (?w div 2 ^ k) \<noteq> SLOT_FULL" if "k \<le> ?l" for k
  proof
    assume full: "?g (?w div 2 ^ k) = SLOT_FULL"
    obtain p where p: "p \<in> leaves ?l ?w" using leaf_below [OF w(1) l(1)] by blast
    then have "p div 2 ^ (15 - ?l + k) = ?w div 2 ^ k"
      unfolding power_add div_mult2_eq by (simp only: leaves_def mem_Collect_eq)
    then have "used ?g p" using full that unfolding used_def used_upto_def by (intro exI [of _ "15 - ?l + k"]) auto
    then show False using un p by blast
  qed
  moreover have "?w div 2 ^ ?l = 1"
    using w(1) div_eq_bounds [of "2 ^ ?l" ?w 1] by (simp add: at_level_def)
  ultimately have "search ?g ?l 1 \<noteq> None"
    using search_complete [OF wf, of 0 1 ?l ?w] emp l(1) by simp
  then obtain w' where w': "search ?g ?l 1 = Some w'" by auto
  then have "buddy_kalloc c order s = Ok (0, s') \<Longrightarrow> node_adr ?l w' = 0"
    using kalloc_found [OF lk ord w'] by auto
  then show False using zero node_adr_bounds [OF search_root(1) [OF w'] l(1)] by simp
qed

section \<open>Freeing\<close>

lemma kfree_cases:
  assumes "lock_free BuddyLock s" and "intr_ok c s" and "order \<le> 15" and "kend \<le> adr" and "adr \<le> PHYSTOP"
    and "v = get_vindex adr (15 - order)" and "1 \<le> v" and "v < 65536"
  shows "if slot (tree s) v = SLOT_FULL
    then \<exists>t. buddy_kfree c kend adr order s = Ok (1, (note_intena c s)\<lparr>tree := t\<rparr>)
           \<and> slot t = up_free ((slot (tree s))(v := SLOT_EMPTY)) v
    else buddy_kfree c kend adr order s = Ok (0, note_intena c s)"
proof -
  obtain t where "update_upstairs_free (put_slot (tree s) v SLOT_EMPTY) v = Ok t"
    "slot t = up_free (slot (put_slot (tree s) v SLOT_EMPTY)) v"
    using update_upstairs_free_refines [OF assms(7,8)] by blast
  note t = this
  have en: "\<not> (order > 15 \<or> adr > PHYSTOP \<or> adr < kend)" using assms(3-5) by auto
  note unf = buddy_kfree_def Let_def en if_False acquire_free [OF assms(1)] bindr_simps enter_tree
    assms(6) [symmetric] get_state_slot [OF assms(8)] set_state_slot [OF assms(8)] t(1) buddy_leave [OF assms(1,2)]
  show ?thesis
    unfolding unf using t(2) assms(3-5) by (auto simp: slot_put_slot)
qed

lemma live_bounds:
  assumes "live kend t adr order"
  shows "order \<le> 15" and "kend \<le> adr" and "adr \<le> PHYSTOP"
    and "1 \<le> get_vindex adr (15 - order)" and "get_vindex adr (15 - order) < 65536"
  using assms at_level_bound [OF live_node(1) [OF assms], of 15] by (auto simp: live_def)

lemma kfree_live:
  assumes "buddy_ok c kend s" and "live kend (tree s) adr order"
  shows "\<exists>t. buddy_kfree c kend adr order s = Ok (1, (note_intena c s)\<lparr>tree := t\<rparr>)
    \<and> slot t = up_free ((slot (tree s))(get_vindex adr (15 - order) := SLOT_EMPTY)) (get_vindex adr (15 - order))"
  using kfree_cases [OF _ _ live_bounds(1-3) [OF assms(2)] refl live_bounds(4,5) [OF assms(2)], of s c]
    assms(1) live_node(3) [OF assms(2)] by (simp add: buddy_ok_def unit_block_def)

lemma kfree_law:
  assumes ok: "buddy_ok c kend s" and lv: "live kend (tree s) adr order"
    and safe: "safe_to_free (tree s) adr order"
  shows "\<exists>t. buddy_kfree c kend adr order s = Ok (1, (note_intena c s)\<lparr>tree := t\<rparr>)
    \<and> buddy_ok c kend ((note_intena c s)\<lparr>tree := t\<rparr>)
    \<and> allocated t = allocated (tree s) - block adr order
    \<and> (\<forall>b o'. live kend (tree s) b o' \<longrightarrow> (b, o') \<noteq> (adr, order) \<longrightarrow> live kend t b o')"
proof -
  let ?g = "slot (tree s)" and ?l = "15 - order" and ?v = "get_vindex adr (15 - order)"
  have wf: "wf_slots ?g" and low: "{KERNBASE..<kend} \<subseteq> allocated (tree s)"
    using ok by (auto simp: buddy_ok_def)
  note v = live_node [OF lv]
  have l: "?l \<le> 15" "15 - ?l = order" using live_bounds(1) [OF lv] by auto
  obtain t where t: "buddy_kfree c kend adr order s = Ok (1, (note_intena c s)\<lparr>tree := t\<rparr>)"
    "slot t = up_free (?g(?v := SLOT_EMPTY)) ?v" using kfree_live [OF ok lv] by blast
  note new = free_node [OF wf v(1) l(1) v(3) safe [unfolded safe_to_free_def], folded t(2)]
  have all: "allocated t = allocated (tree s) - block adr order"
    using allocated_diffI [OF v(1) l(1) new(2)] v(2) l(2) by simp
  have "live kend t b o'" if b: "live kend (tree s) b o'" "(b, o') \<noteq> (adr, order)" for b o'
  proof -
    note w = live_node [OF b(1)]
    have "get_vindex b (15 - o') \<noteq> ?v"
    proof
      assume e: "get_vindex b (15 - o') = ?v"
      then have lev: "15 - o' = ?l" using at_level_unique [of "15 - o'" ?v ?l] w(1) v(1) by simp
      have "o' = order" using lev live_bounds(1) [OF b(1)] live_bounds(1) [OF lv] by linarith
      moreover have "b = adr" using w(2) [unfolded lev e [unfolded lev]] v(2) by (rule trans [OF sym])
      ultimately show False using b(2) by simp
    qed
    moreover have "?g ?v = SLOT_FULL" using v(3) by (simp add: unit_block_def)
    ultimately show ?thesis
      using live_mono [OF b(1)] unit_block_free [OF w(3,1) wf v(1) l(1)] t(2) by simp
  qed
  moreover have "{KERNBASE..<kend} \<subseteq> allocated t"
    using low live_bounds(2) [OF lv] unfolding all block_def by fastforce
  ultimately show ?thesis
    using t(1) new(1) all ok by (intro exI [of _ t]) (simp add: buddy_ok_def)
qed

end
