(* ===== verification/Buddy_Init.thy ===== *)
theory Buddy_Init
  imports Buddy_Alloc
begin

text \<open>
  \<open>buddy_init\<close> (\<^verbatim>\<open>kernel/buddy_kalloc.c\<close>) marks every node full and frees the pages above
  the kernel one by one. \<open>init_st\<close> is the state of a node after the pages \<open>a \<dots> i - 1\<close>
  have been freed in this order; every call of \<open>buddy_kfree\<close> takes the tree from \<open>i\<close> to
  \<open>i + 1\<close>, and at the end the pages above the kernel are free and the tree is well-formed.
\<close>

section \<open>The state of a node during initialisation\<close>

text \<open>The node covers the pages \<open>lo \<dots> lo + sz - 1\<close>.\<close>

definition init_st :: "nat \<Rightarrow> nat \<Rightarrow> nat \<Rightarrow> nat \<Rightarrow> 8 word" where
  "init_st a i lo sz =
     (if min i (lo + sz) \<le> max a lo then SLOT_FULL
      else if lo < a then SLOT_SPLIT
      else if sz = 1 \<or> lo + sz div 2 < i then SLOT_EMPTY
      else SLOT_SPLIT)"

definition node_lo :: "nat \<Rightarrow> nat \<Rightarrow> nat" where
  "node_lo l v = (v - 2 ^ l) * 2 ^ (15 - l)"

text \<open>Nodes of level at least \<open>l\<close> are as after freeing page \<open>i\<close>, the others as before.\<close>

definition init_upto :: "slots \<Rightarrow> nat \<Rightarrow> nat \<Rightarrow> nat \<Rightarrow> bool" where
  "init_upto g a i l = (\<forall>k v. k \<le> 15 \<longrightarrow> at_level k v \<longrightarrow>
     g v = init_st a (if l \<le> k then i + 1 else i) (node_lo k v) (2 ^ (15 - k)))"

lemma init_upto_at: "init_upto g a i l \<Longrightarrow> k \<le> 15 \<Longrightarrow> at_level k v \<Longrightarrow>
    g v = init_st a (if l \<le> k then i + 1 else i) (node_lo k v) (2 ^ (15 - k))"
  by (simp add: init_upto_def)

lemma init_st_other: "\<not> (lo \<le> i \<and> i < lo + sz) \<Longrightarrow> init_st a (i + 1) lo sz = init_st a i lo sz"
  by (auto simp: init_st_def)

lemma node_covers:
  assumes "at_level l v" and "l \<le> 15"
  shows "node_lo l v \<le> i \<and> i < node_lo l v + 2 ^ (15 - l) \<longleftrightarrow> (32768 + i) div 2 ^ (15 - l) = v"
proof -
  have pw: "(2::nat) ^ l * 2 ^ (15 - l) = 32768" using assms(2) by (simp only: power_add [symmetric]) simp
  obtain k where k: "v = 2 ^ l + k" using assms(1) by (auto simp: at_level_def le_iff_add)
  have "v * 2 ^ (15 - l) = 32768 + k * 2 ^ (15 - l)" by (simp only: k distrib_right pw)
  moreover have "node_lo l v = k * 2 ^ (15 - l)" by (simp add: node_lo_def k)
  ultimately show ?thesis using div_eq_bounds [of "2 ^ (15 - l)" "32768 + i" v] by simp
qed

lemma node_lo_sons:
  assumes "at_level l q" and "Suc l \<le> 15"
  shows "node_lo (Suc l) (2 * q) = node_lo l q"
    and "node_lo (Suc l) (2 * q + 1) = node_lo l q + 2 ^ (15 - Suc l)"
    and "(2::nat) ^ (15 - l) = 2 * 2 ^ (15 - Suc l)"
proof -
  have d: "15 - l = Suc (15 - Suc l)" using assms(2) by simp
  obtain k where k: "q = 2 ^ l + k" using assms(1) by (auto simp: at_level_def le_iff_add)
  show "(2::nat) ^ (15 - l) = 2 * 2 ^ (15 - Suc l)" by (simp only: d power_Suc)
  then show "node_lo (Suc l) (2 * q) = node_lo l q"
    and "node_lo (Suc l) (2 * q + 1) = node_lo l q + 2 ^ (15 - Suc l)"
    by (simp_all only: node_lo_def k) (simp_all add: algebra_simps)
qed

text \<open>How the state of a node moves when one of its pages is freed, given the brother of
  the son that holds the page.\<close>

lemma init_st_full: "init_st a i lo (2 * h) = SLOT_FULL \<Longrightarrow> lo \<le> i \<Longrightarrow> i < lo + 2 * h \<Longrightarrow> a \<le> i \<Longrightarrow>
    init_st a (i + 1) lo (2 * h) = SLOT_SPLIT"
  by (auto simp: init_st_def split: if_splits)

lemma init_st_empty: "init_st a i lo (2 * h) = SLOT_EMPTY \<Longrightarrow> 1 \<le> h \<Longrightarrow> lo \<le> i \<Longrightarrow> i < lo + 2 * h \<Longrightarrow>
    init_st a (i + 1) lo (2 * h) = SLOT_EMPTY"
  by (auto simp: init_st_def split: if_splits)

lemma init_st_split_left:
  assumes "init_st a i lo (2 * h) = SLOT_SPLIT" and "lo \<le> i" and "i < lo + h" and "a \<le> i"
  shows "init_st a (i + 1) (lo + h) h = SLOT_FULL \<and> init_st a (i + 1) lo (2 * h) = SLOT_SPLIT"
  using assms by (auto simp: init_st_def split: if_splits)

lemma init_st_split_right:
  assumes "init_st a i lo (2 * h) = SLOT_SPLIT" and "lo + h \<le> i" and "i < lo + 2 * h" and "a \<le> i"
    and "1 \<le> h"
  shows "init_st a (i + 1) lo h = SLOT_EMPTY \<longleftrightarrow> init_st a (i + 1) lo (2 * h) = SLOT_EMPTY"
    and "init_st a (i + 1) lo (2 * h) \<noteq> SLOT_FULL"
  using assms by (auto simp: init_st_def split: if_splits)

lemma init_st_settled:
  "max a lo < i \<Longrightarrow> i < lo + 2 * h \<Longrightarrow> i \<noteq> lo + h \<Longrightarrow> init_st a (i + 1) lo (2 * h) = init_st a i lo (2 * h)"
  by (auto simp: init_st_def)

lemma init_st_some: "init_st a i lo sz \<noteq> SLOT_FULL \<Longrightarrow> max a lo < i"
  by (auto simp: init_st_def split: if_splits)

lemma init_st_range: "init_st a i lo sz = SLOT_EMPTY \<or> init_st a i lo sz = SLOT_SPLIT \<or> init_st a i lo sz = SLOT_FULL"
  by (simp add: init_st_def)

section \<open>One call of \<open>buddy_kfree\<close>\<close>

lemma path_at:
  assumes "i < 32768" and "l \<le> 15"
  shows "at_level l ((32768 + i) div 2 ^ (15 - l))"
  using assms at_level_anc [of l "15 - l" "32768 + i"] by (simp add: at_level_15)

lemma init_upto_upd:
  assumes g: "init_upto g a i (Suc l)" and q: "q = (32768 + i) div 2 ^ (15 - l)" "l \<le> 15" "i < 32768"
    and x: "x = init_st a (i + 1) (node_lo l q) (2 ^ (15 - l))"
  shows "init_upto (g(q := x)) a i l"
  unfolding init_upto_def
proof (intro allI impI)
  fix k v assume k: "k \<le> 15" "at_level k v"
  have ql: "at_level l q" using path_at q by simp
  have old: "g v = init_st a (if Suc l \<le> k then i + 1 else i) (node_lo k v) (2 ^ (15 - k))"
    using g k by (simp add: init_upto_def)
  show "(g(q := x)) v = init_st a (if l \<le> k then i + 1 else i) (node_lo k v) (2 ^ (15 - k))"
  proof (cases "v = q")
    case True
    then have "k = l" using at_level_unique k ql by blast
    then show ?thesis using True x by simp
  next
    case False
    then have "k = l \<Longrightarrow> init_st a (i + 1) (node_lo k v) (2 ^ (15 - k)) = init_st a i (node_lo k v) (2 ^ (15 - k))"
      using node_covers [OF k(2,1), of i] q by (intro init_st_other) auto
    then show ?thesis using False old by (cases "k = l") auto
  qed
qed

text \<open>When the walk stops, the nodes above it keep their states.\<close>

lemma init_upto_stop:
  assumes g: "init_upto g a i l" and q: "q = (32768 + i) div 2 ^ (15 - l)" "l \<le> 15" "i < 32768"
    and some: "max a (node_lo l q) < i"
  shows "init_upto g a i 0"
  unfolding init_upto_def
proof (intro allI impI)
  fix k v assume k: "k \<le> 15" "at_level k v"
  let ?lo = "node_lo k v" and ?h = "2 ^ (14 - k) :: nat"
  have old: "g v = init_st a (if l \<le> k then i + 1 else i) ?lo (2 ^ (15 - k))"
    using g k by (simp add: init_upto_def)
  have "init_st a (i + 1) ?lo (2 ^ (15 - k)) = init_st a i ?lo (2 ^ (15 - k))" if "k < l"
  proof (cases "?lo \<le> i \<and> i < ?lo + 2 ^ (15 - k)")
    case False
    then show ?thesis by (rule init_st_other)
  next
    case True
    have sz: "(2::nat) ^ (15 - k) = 2 * ?h" using that q(2) by (simp flip: power_Suc add: Suc_diff_le)
    have cov: "node_lo l q \<le> i" "i < node_lo l q + 2 ^ (15 - l)"
      using node_covers [OF path_at, of i l i] q by auto
    have dv: "2 ^ (15 - l) dvd ?lo" "2 ^ (15 - l) dvd ?h" "2 ^ (15 - l) dvd node_lo l q"
      using that q(2) by (auto simp: node_lo_def intro!: dvd_mult le_imp_power_dvd)
    have "\<not> 2 ^ (15 - l) dvd i"
    proof
      assume "2 ^ (15 - l) dvd i"
      then have "2 ^ (15 - l) dvd i - node_lo l q" using dv(3) by (rule dvd_diff_nat)
      moreover have "0 < i - node_lo l q" "i - node_lo l q < 2 ^ (15 - l)" using cov some by auto
      ultimately show False using nat_dvd_not_less by blast
    qed
    then have "i \<noteq> ?lo + ?h" "i \<noteq> ?lo" using dv(1,2) dvd_add by blast+
    then show ?thesis using True some unfolding sz by (intro init_st_settled) auto
  qed
  then show "g v = init_st a (if 0 \<le> k then i + 1 else i) ?lo (2 ^ (15 - k))" using old by auto
qed

lemma init_step:
  assumes g: "init_upto g a i (Suc l)" and l: "Suc l \<le> 15" and i: "a \<le> i" "i < 32768"
    and u: "u = (32768 + i) div 2 ^ (15 - Suc l)"
  shows "(\<exists>g'. up_free g u = up_free g' (u div 2) \<and> init_upto g' a i l) \<or> up_free g u = g \<and> init_upto g a i 0"
proof -
  let ?q = "u div 2" and ?h = "2 ^ (15 - Suc l) :: nat"
  have q: "?q = (32768 + i) div 2 ^ (15 - l)" unfolding u using path_up [OF l] by simp
  have lq: "at_level l ?q" using path_at [OF i(2), of l] l unfolding q by simp
  have lu: "at_level (Suc l) u" unfolding u by (rule path_at [OF i(2) l])
  have u2: "2 \<le> u" using at_level_up [OF lu] by simp
  let ?lo = "node_lo l ?q"
  note sons = node_lo_sons [OF lq l]
  have h: "1 \<le> ?h" by simp
  have cov: "?lo \<le> i" "i < ?lo + 2 * ?h" using node_covers [OF lq, of i] l q sons(3) by auto
  have gq: "g ?q = init_st a i ?lo (2 * ?h)"
    using init_upto_at [OF g _ lq] l unfolding sons(3) by simp
  note upd = init_upto_upd [OF g q _ i(2), unfolded sons(3)]
  have gs: "g (sib u) = init_st a (i + 1) (if even u then ?lo + ?h else ?lo) ?h"
  proof -
    have "at_level (Suc l) (sib u)" "node_lo (Suc l) (sib u) = (if even u then ?lo + ?h else ?lo)"
      using sons_pair [OF u2] at_level_down [OF lq] sons(1,2) by (auto simp: sib_def)
    then show ?thesis using init_upto_at [OF g l, of "sib u"] by simp
  qed
  have half: "if even u then i < ?lo + ?h else ?lo + ?h \<le> i"
  proof -
    have "node_lo (Suc l) u \<le> i" "i < node_lo (Suc l) u + ?h" using node_covers [OF lu l, of i] u by auto
    moreover have "node_lo (Suc l) u = (if even u then ?lo else ?lo + ?h)"
      using sons_pair [OF u2] sons(1,2) by (auto simp: sib_def)
    ultimately show ?thesis by (auto split: if_splits)
  qed
  consider "g ?q = SLOT_FULL" | "g ?q = SLOT_EMPTY" | "g ?q = SLOT_SPLIT"
    using init_st_range gq by metis
  then show ?thesis
  proof cases
    case 1
    then have "init_upto (g(?q := SLOT_SPLIT)) a i l"
      using upd [of SLOT_SPLIT] init_st_full [OF _ cov i(1)] gq l by simp
    then show ?thesis using 1 by (auto simp: up_free_step [OF u2])
  next
    case 2
    then have "init_upto (g(?q := SLOT_EMPTY)) a i l"
      using upd [of SLOT_EMPTY] init_st_empty [OF _ h cov] gq l by simp
    moreover have "g(?q := SLOT_EMPTY) = g" using 2 by auto
    ultimately show ?thesis using 2 by (auto simp: up_free_step [OF u2])
  next
    case 3
    have stop: ?thesis if "g (sib u) \<noteq> SLOT_EMPTY" "init_st a (i + 1) ?lo (2 * ?h) = SLOT_SPLIT"
    proof -
      have "g(?q := SLOT_SPLIT) = g" using 3 by auto
      then have "init_upto g a i l" using upd [of SLOT_SPLIT] that(2) l by simp
      then have "init_upto g a i 0"
        using init_upto_stop [OF _ q _ i(2)] init_st_some [of a i ?lo "2 * ?h"] gq 3 l by simp
      then show ?thesis using that(1) 3 by (simp add: up_free_step [OF u2])
    qed
    have merge: ?thesis if "g (sib u) = SLOT_EMPTY" "init_st a (i + 1) ?lo (2 * ?h) = SLOT_EMPTY"
    proof -
      have "init_upto (g(?q := SLOT_EMPTY)) a i l" using upd [of SLOT_EMPTY] that(2) l by simp
      then show ?thesis using that(1) 3 by (auto simp: up_free_step [OF u2])
    qed
    show ?thesis
    proof (cases "even u")
      case True
      then show ?thesis
        using stop init_st_split_left [of a i ?lo ?h] gq gs half cov(1) i(1) 3 by simp
    next
      case False
      then show ?thesis
        using stop merge init_st_split_right [of a i ?lo ?h] init_st_range [of a "i + 1" ?lo "2 * ?h"]
          gq gs half cov(2) i(1) h 3 by auto
    qed
  qed
qed

lemma init_walk:
  assumes "init_upto g a i l" and "l \<le> 15" and "a \<le> i" and "i < 32768"
  shows "init_upto (up_free g ((32768 + i) div 2 ^ (15 - l))) a i 0"
  using assms(1,2)
proof (induction l arbitrary: g)
  case 0
  have "(32768 + i) div 2 ^ (15 - 0) = 1" using assms(4) by (intro div_nat_eqI) auto
  then show ?case using 0 by simp
next
  case (Suc l)
  have "(32768 + i) div 2 ^ (15 - Suc l) div 2 = (32768 + i) div 2 ^ (15 - l)"
    using path_up [OF Suc.prems(2)] by simp
  then show ?case
    using init_step [OF Suc.prems assms(3,4) refl] Suc.IH Suc.prems(2) by auto
qed

text \<open>The tree after the pages \<open>a \<dots> i - 1\<close> have been freed.\<close>

definition init_tree :: "slots \<Rightarrow> nat \<Rightarrow> nat \<Rightarrow> bool" where
  "init_tree g a i = (\<forall>k v. k \<le> 15 \<longrightarrow> at_level k v \<longrightarrow> g v = init_st a i (node_lo k v) (2 ^ (15 - k)))"

lemma init_tree_at: "init_tree g a i \<Longrightarrow> k \<le> 15 \<Longrightarrow> at_level k v \<Longrightarrow>
    g v = init_st a i (node_lo k v) (2 ^ (15 - k))"
  by (simp add: init_tree_def)

lemma init_free_page:
  assumes g: "init_tree g a i" and i: "a \<le> i" "i < 32768"
  shows "g (32768 + i) = SLOT_FULL \<and> init_tree (up_free (g(32768 + i := SLOT_EMPTY)) (32768 + i)) a (i + 1)"
proof -
  have lo: "node_lo 15 (32768 + i) = i" "at_level 15 (32768 + i)" using i by (simp_all add: node_lo_def at_level_15)
  have "g (32768 + i) = init_st a i i 1" using init_tree_at [OF g _ lo(2)] lo(1) by simp
  then have full: "g (32768 + i) = SLOT_FULL" using i by (simp add: init_st_def)
  have "init_upto g a i 16" using g by (simp add: init_tree_def init_upto_def)
  then have "init_upto (g(32768 + i := SLOT_EMPTY)) a i 15"
    using init_upto_upd [of g a i 15 "32768 + i" SLOT_EMPTY] i lo by (simp add: init_st_def)
  then have "init_upto (up_free (g(32768 + i := SLOT_EMPTY)) (32768 + i)) a i 0"
    using init_walk [of _ a i 15] i by simp
  then show ?thesis using full by (simp add: init_tree_def init_upto_def)
qed

section \<open>The loop and its result\<close>

text \<open>\<open>first_page kend\<close>: the number of the first page above the kernel.\<close>

definition first_page :: "nat \<Rightarrow> nat" where
  "first_page kend = (PGROUNDUP kend - KERNBASE) div PGSIZE"

lemma note_intena_idem: "note_intena c ((note_intena c s)\<lparr>tree := t\<rparr>) = (note_intena c s)\<lparr>tree := t\<rparr>"
  by (simp add: note_intena_def)

lemma page_vindex: "i < 32768 \<Longrightarrow> get_vindex (KERNBASE + i * PGSIZE) 15 = 32768 + i"
  by (subst get_vindex_eq) auto

lemma init_loop:
  assumes "lock_free BuddyLock s" and "intr_ok c s" and "init_tree (slot (tree s)) a i" and "a \<le> i" and "i \<le> 32768"
    and "kend \<le> KERNBASE + i * PGSIZE"
  shows "\<exists>t. buddy_init_loop c kend (KERNBASE + i * PGSIZE) s
      = Ok ((if i < 32768 then note_intena c s else s)\<lparr>tree := t\<rparr>) \<and> init_tree (slot t) a 32768"
  using assms
proof (induction "32768 - i" arbitrary: i s)
  case 0
  then have "i = 32768" by simp
  then show ?case
    using 0 by (subst buddy_init_loop.simps) (auto intro!: exI [of _ "tree s"])
next
  case (Suc n)
  then have i: "i < 32768" by simp
  let ?p = "KERNBASE + i * PGSIZE" and ?g = "slot (tree s)"
  have p: "?p + PGSIZE \<le> PHYSTOP" "?p \<le> PHYSTOP" using i by auto
  note page = init_free_page [OF Suc.prems(3,4) i]
  obtain t where t: "buddy_kfree c kend ?p 0 s = Ok (1, (note_intena c s)\<lparr>tree := t\<rparr>)"
    "slot t = up_free (?g(32768 + i := SLOT_EMPTY)) (32768 + i)"
    using kfree_cases [OF Suc.prems(1,2), of 0 kend ?p "32768 + i"] page page_vindex [OF i] p(2) Suc.prems(6) i by auto
  let ?s = "(note_intena c s)\<lparr>tree := t\<rparr>"
  have next_p: "?p + PGSIZE = KERNBASE + (i + 1) * PGSIZE" by simp
  have "\<exists>t'. buddy_init_loop c kend (KERNBASE + (i + 1) * PGSIZE) ?s
      = Ok ((if i + 1 < 32768 then note_intena c ?s else ?s)\<lparr>tree := t'\<rparr>) \<and> init_tree (slot t') a 32768"
    using Suc.hyps(2) Suc.prems i page t(2) by (intro Suc.hyps(1)) auto
  moreover have "buddy_init_loop c kend ?p s = buddy_init_loop c kend (KERNBASE + (i + 1) * PGSIZE) ?s"
    using p(1) t(1) unfolding next_p [symmetric] by (subst buddy_init_loop.simps) simp
  ultimately show ?case using i by (auto simp: note_intena_idem)
qed

lemma init_final: "lo + sz \<le> n \<Longrightarrow> 1 \<le> sz \<Longrightarrow> init_st a n lo sz =
    (if lo + sz \<le> a then SLOT_FULL else if lo < a then SLOT_SPLIT else SLOT_EMPTY)"
  by (auto simp: init_st_def)

lemma level_exists: "1 \<le> v \<Longrightarrow> v < 2 ^ Suc m \<Longrightarrow> \<exists>l\<le>m. at_level l v"
proof (induction m)
  case 0
  then show ?case by simp
next
  case (Suc m)
  show ?case
  proof (cases "v < 2 ^ Suc m")
    case True
    then show ?thesis using Suc by (auto intro: le_SucI)
  next
    case False
    then show ?thesis using Suc.prems(2) by (intro exI [of _ "Suc m"]) (simp add: at_level_def)
  qed
qed

lemma node_lo_end:
  assumes "at_level l v" and "l \<le> 15"
  shows "node_lo l v + 2 ^ (15 - l) \<le> 32768"
proof -
  have pw: "(2::nat) ^ l * 2 ^ (15 - l) = 32768" using assms(2) by (simp only: power_add [symmetric]) simp
  have k: "v - 2 ^ l + 1 \<le> 2 ^ l" using assms(1) by (auto simp: at_level_def)
  have "node_lo l v + 2 ^ (15 - l) = (v - 2 ^ l + 1) * 2 ^ (15 - l)" by (simp add: node_lo_def)
  also have "\<dots> \<le> 2 ^ l * 2 ^ (15 - l)" using k by (rule mult_right_mono) simp
  finally show ?thesis by (simp only: pw)
qed

lemma init_tree_final:
  assumes "init_tree g a 32768" and "l \<le> 15" and "at_level l v"
  shows "g v = (if node_lo l v + 2 ^ (15 - l) \<le> a then SLOT_FULL
    else if node_lo l v < a then SLOT_SPLIT else SLOT_EMPTY)"
  using init_tree_at [OF assms] init_final [OF node_lo_end [OF assms(3,2)]] by simp

lemma init_tree_wf:
  assumes "init_tree g a 32768"
  shows "wf_slots g"
  unfolding wf_slots_def wf_but_def
proof (intro conjI allI impI)
  fix w :: nat assume "1 \<le> w \<and> w < 32768 \<and> w \<noteq> 0"
  then obtain l where l: "l \<le> 14" "at_level l w" using level_exists [of w 14] by auto
  have l': "Suc l \<le> 15" "l \<le> 15" using l(1) by auto
  note f = init_tree_final [OF assms]
  have h: "1 \<le> (2::nat) ^ (15 - Suc l)" by simp
  show "node_ok (g w) (g (2 * w)) (g (2 * w + 1))"
    using f [OF l'(2) l(2)] f [OF l'(1), of "2 * w"] f [OF l'(1), of "2 * w + 1"] at_level_down [OF l(2)] h
    unfolding node_lo_sons [OF l(2) l'(1)] by (auto simp: node_ok_def split: if_splits)
next
  fix p :: nat assume "32768 \<le> p \<and> p < 65536"
  then have "at_level 15 p" by (simp add: at_level_15)
  then show "g p = SLOT_EMPTY \<or> g p = SLOT_FULL" using init_tree_final [OF assms, of 15 p] by auto
qed

lemma init_tree_used:
  assumes "init_tree g a 32768" and "at_level 15 p"
  shows "used g p \<longleftrightarrow> p - 32768 < a"
proof
  assume "used g p"
  then obtain k where k: "k \<le> 15" "g (p div 2 ^ k) = SLOT_FULL" by (auto simp: used_def used_upto_def)
  let ?l = "15 - k"
  have lev: "at_level ?l (p div 2 ^ k)" using at_level_anc [of ?l k p] assms(2) k(1) by simp
  have "32768 + (p - 32768) = p" using assms(2) by (simp add: at_level_15)
  then have "p - 32768 < node_lo ?l (p div 2 ^ k) + 2 ^ (15 - ?l)"
    using node_covers [OF lev, of "p - 32768"] k(1) by simp
  moreover have "node_lo ?l (p div 2 ^ k) + 2 ^ (15 - ?l) \<le> a"
    using init_tree_final [OF assms(1) _ lev] k(2) by (auto split: if_splits)
  ultimately show "p - 32768 < a" by linarith
next
  assume "p - 32768 < a"
  then have "g p = SLOT_FULL" using init_tree_final [OF assms(1) _ assms(2)] by (simp add: node_lo_def)
  then show "used g p" by (auto simp: used_def used_upto_def intro!: exI [of _ 0])
qed

lemma PGROUNDUP_bounds:
  assumes "KERNBASE \<le> kend" and "kend \<le> PHYSTOP"
  shows "PGROUNDUP kend = KERNBASE + first_page kend * PGSIZE" and "kend \<le> PGROUNDUP kend"
    and "first_page kend \<le> 32768"
proof -
  define r where "r = kend - KERNBASE"
  then have r: "kend = KERNBASE + r" "r \<le> 134217728" using assms by auto
  have "PGROUNDUP kend = (KERNBASE + r + 4095) div PGSIZE * PGSIZE"
    using r by (simp add: PGROUNDUP_def)
  also have "(KERNBASE + r + 4095) div PGSIZE = 524288 + (r + 4095) div PGSIZE"
    using div_mult_self4 [of PGSIZE 524288 "r + 4095"] by (simp add: add.assoc)
  finally have e: "PGROUNDUP kend = KERNBASE + (r + 4095) div PGSIZE * PGSIZE" by simp
  then have f: "first_page kend = (r + 4095) div PGSIZE" by (simp add: first_page_def)
  show "PGROUNDUP kend = KERNBASE + first_page kend * PGSIZE" using e f by simp
  show "kend \<le> PGROUNDUP kend" using e r(1) by simp
  show "first_page kend \<le> 32768" using f r(2) by simp
qed

lemma init_all_full: "slot (\<lambda>i. if i < TREE_SIZE then NOT 0 else t i) v = SLOT_FULL" if "v < 65536"
proof -
  have "v div 4 < TREE_SIZE" using that by (intro less_mult_imp_div_less) simp
  then have "slot (\<lambda>i. if i < TREE_SIZE then NOT 0 else t i) v = drop_bit (2 * (v mod 4)) (NOT 0) AND 3"
    by (simp add: slot_def)
  also have "\<dots> = 3"
    unfolding three_mask by (intro bit_eqI) (auto simp: bit_simps)
  finally show ?thesis .
qed

lemma init_tree_start:
  assumes "a \<le> 32768"
  shows "init_tree (slot (\<lambda>i. if i < TREE_SIZE then NOT 0 else t i)) a a"
  unfolding init_tree_def
proof (intro allI impI)
  fix k v assume k: "k \<le> 15" "at_level k v"
  then have "v < 65536" using at_level_bound [OF k(2,1)] by simp
  then show "slot (\<lambda>i. if i < TREE_SIZE then NOT 0 else t i) v = init_st a a (node_lo k v) (2 ^ (15 - k))"
    by (simp add: init_all_full init_st_def)
qed

lemma buddy_init_runs:
  assumes "KERNBASE \<le> kend" and "kend \<le> PHYSTOP" and "intr_ok c s"
  shows "\<exists>s'. buddy_init c kend s = Ok (1, s') \<and> lock_free BuddyLock s' \<and> intr_ok c s'
    \<and> init_tree (slot (tree s')) (first_page kend) 32768"
proof -
  note b = PGROUNDUP_bounds [OF assms(1,2)]
  let ?s = "(initlock BuddyLock ''buddy_lock'' s)\<lparr>tree := \<lambda>i. if i < TREE_SIZE then NOT 0 else tree s i\<rparr>"
  have st: "lock_free BuddyLock ?s" "intr_ok c ?s" using assms(3) by (auto simp: lock_free_def intr_ok_def initlock_def)
  have tr: "tree (initlock BuddyLock ''buddy_lock'' s) = tree s" by (simp add: initlock_def)
  obtain t where t: "buddy_init_loop c kend (PGROUNDUP kend) ?s
      = Ok ((if first_page kend < 32768 then note_intena c ?s else ?s)\<lparr>tree := t\<rparr>)"
      "init_tree (slot t) (first_page kend) 32768"
    using init_loop [OF st, of "first_page kend" "first_page kend" kend] init_tree_start [OF b(3), of "tree s"] b by auto
  then show ?thesis using st unfolding buddy_init_def Let_def tr by auto
qed

lemma init_allocated:
  assumes "KERNBASE \<le> kend" and "kend \<le> PHYSTOP" and "init_tree (slot t) (first_page kend) 32768"
  shows "allocated t = {KERNBASE..<PGROUNDUP kend}"
proof -
  note b = PGROUNDUP_bounds [OF assms(1,2)]
  have "a < PGROUNDUP kend \<longleftrightarrow> (a - KERNBASE) div PGSIZE < first_page kend" if "KERNBASE \<le> a" for a
    using that unfolding b(1) by (subst div_less_iff_less_mult) auto
  moreover have "PGROUNDUP kend \<le> PHYSTOP" using b(1,3) by simp
  ultimately show ?thesis
    using init_tree_used [OF assms(3) page_of_level] by (auto simp: allocated_def page_of_def)
qed

end
