(* ===== verification/Buddy_Props.thy ===== *)
theory Buddy_Props
  imports Buddy_Init
begin

text \<open>
  The contract of a block allocator as the locale \<open>block_allocator\<close>, the facts any client
  has from it, its interpretation by \<open>buddy_kalloc\<close> and \<open>buddy_kfree\<close>, and the
  properties of the buddy allocator (\<^verbatim>\<open>kernel/buddy_kalloc.c\<close>).
\<close>

section \<open>The contract of a block allocator\<close>

text \<open>Allocations of the given orders, one after the other.\<close>

fun allocs :: "(nat \<Rightarrow> 's \<Rightarrow> (nat \<times> 's) result) \<Rightarrow> nat list \<Rightarrow> 's \<Rightarrow> (nat list \<times> 's) result" where
  "allocs alloc [] s = Ok ([], s)"
| "allocs alloc (order # orders) s =
     bindr (alloc order s) (\<lambda>(a, s). bindr (allocs alloc orders s) (\<lambda>(as, s). Ok (a # as, s)))"

text \<open>The blocks that a list of results (0 where an allocation failed) stands for.\<close>

definition blocks :: "nat list \<Rightarrow> nat list \<Rightarrow> nat set list" where
  "blocks as orders = map (\<lambda>(a, order). if a = 0 then {} else block a order) (zip as orders)"

locale block_allocator =
  fixes inv :: "'s \<Rightarrow> bool" and taken :: "'s \<Rightarrow> nat set"
    and held :: "'s \<Rightarrow> nat \<Rightarrow> nat \<Rightarrow> bool" and safe :: "'s \<Rightarrow> nat \<Rightarrow> nat \<Rightarrow> bool"
    and alloc :: "nat \<Rightarrow> 's \<Rightarrow> (nat \<times> 's) result"
    and free :: "nat \<Rightarrow> nat \<Rightarrow> 's \<Rightarrow> (nat \<times> 's) result"
  assumes alloc_law: "inv s \<Longrightarrow> order \<le> 15 \<Longrightarrow>
      \<exists>a s'. alloc order s = Ok (a, s') \<and> inv s'
        \<and> (a = 0 \<and> taken s' = taken s \<and> held s' = held s
           \<or> a \<noteq> 0 \<and> held s' a order \<and> safe s' a order
             \<and> block a order \<inter> taken s = {} \<and> taken s' = taken s \<union> block a order
             \<and> (\<forall>b o'. held s b o' \<longrightarrow> held s' b o'))"
    and free_law: "inv s \<Longrightarrow> held s a order \<Longrightarrow> safe s a order \<Longrightarrow>
      \<exists>s'. free a order s = Ok (1, s') \<and> inv s' \<and> taken s' = taken s - block a order
        \<and> (\<forall>b o'. held s b o' \<longrightarrow> (b, o') \<noteq> (a, order) \<longrightarrow> held s' b o')"
begin

lemma alloc_free:
  assumes "inv s" and "order \<le> 15" and "alloc order s = Ok (a, s1)" and "a \<noteq> 0"
  shows "\<exists>s2. free a order s1 = Ok (1, s2) \<and> inv s2 \<and> taken s2 = taken s
    \<and> (\<forall>b o'. held s b o' \<longrightarrow> (b, o') \<noteq> (a, order) \<longrightarrow> held s2 b o')"
proof -
  have s1: "inv s1" "held s1 a order" "safe s1 a order" "block a order \<inter> taken s = {}"
    "taken s1 = taken s \<union> block a order" "\<And>b o'. held s b o' \<Longrightarrow> held s1 b o'"
    using alloc_law [OF assms(1,2)] assms(3,4) by auto
  obtain s2 where "free a order s1 = Ok (1, s2)" "inv s2" "taken s2 = taken s1 - block a order"
    "\<And>b o'. held s1 b o' \<Longrightarrow> (b, o') \<noteq> (a, order) \<Longrightarrow> held s2 b o'"
    using free_law [OF s1(1-3)] by blast
  then show ?thesis using s1(4-6) by (intro exI [of _ s2]) auto
qed

lemma allocs_disjoint:
  assumes "inv s" and "\<forall>order\<in>set orders. order \<le> 15"
  shows "\<exists>as s'. allocs alloc orders s = Ok (as, s') \<and> inv s' \<and> length as = length orders
    \<and> sorted_wrt disjnt (blocks as orders) \<and> (\<forall>B\<in>set (blocks as orders). disjnt B (taken s))
    \<and> taken s' = taken s \<union> \<Union> (set (blocks as orders))"
  using assms
proof (induction orders arbitrary: s)
  case Nil
  then show ?case by (simp add: blocks_def)
next
  case (Cons order orders)
  obtain a s1 where s1: "alloc order s = Ok (a, s1)" "inv s1"
    "disjnt (if a = 0 then {} else block a order) (taken s)"
    "taken s1 = taken s \<union> (if a = 0 then {} else block a order)"
    using alloc_law [OF Cons.prems(1), of order] Cons.prems(2) by (auto simp: disjnt_def)
  obtain as s' where s': "allocs alloc orders s1 = Ok (as, s')" "inv s'" "length as = length orders"
    "sorted_wrt disjnt (blocks as orders)" "\<forall>B\<in>set (blocks as orders). disjnt B (taken s1)"
    "taken s' = taken s1 \<union> \<Union> (set (blocks as orders))"
    using Cons.IH [OF s1(2)] Cons.prems(2) by auto
  have "blocks (a # as) (order # orders) = (if a = 0 then {} else block a order) # blocks as orders"
    by (simp add: blocks_def)
  then show ?case
    using s1 s' by (intro exI [of _ "a # as"] exI [of _ s']) (auto simp: disjnt_Un2 intro: disjnt_sym)
qed

end

interpretation bd: block_allocator "buddy_ok c kend" "\<lambda>s. allocated (tree s)" "\<lambda>s. live kend (tree s)"
  "\<lambda>s. safe_to_free (tree s)" "buddy_kalloc c" "buddy_kfree c kend"
  for c kend
proof
  fix s :: "'a buddy_scheme" and order :: nat
  assume "buddy_ok c kend s" and "order \<le> 15"
  from kalloc_law [OF this] obtain adr t where
    r: "buddy_kalloc c order s = Ok (adr, (note_intena c s)\<lparr>tree := t\<rparr>)" "buddy_ok c kend ((note_intena c s)\<lparr>tree := t\<rparr>)"
    and d: "adr = 0 \<and> t = tree s \<or> live kend t adr order \<and> safe_to_free t adr order
         \<and> block adr order \<inter> allocated (tree s) = {} \<and> allocated t = allocated (tree s) \<union> block adr order
         \<and> (\<forall>b o'. live kend (tree s) b o' \<longrightarrow> live kend t b o')"
    by blast
  moreover have "live kend t adr order \<Longrightarrow> adr \<noteq> 0" by (auto simp: live_def)
  ultimately show "\<exists>a s'. buddy_kalloc c order s = Ok (a, s') \<and> buddy_ok c kend s'
        \<and> (a = 0 \<and> allocated (tree s') = allocated (tree s) \<and> live kend (tree s') = live kend (tree s)
           \<or> a \<noteq> 0 \<and> live kend (tree s') a order \<and> safe_to_free (tree s') a order
             \<and> block a order \<inter> allocated (tree s) = {} \<and> allocated (tree s') = allocated (tree s) \<union> block a order
             \<and> (\<forall>b o'. live kend (tree s) b o' \<longrightarrow> live kend (tree s') b o'))"
    by (intro exI [of _ adr] exI [of _ "(note_intena c s)\<lparr>tree := t\<rparr>"]) auto
next
  fix s :: "'a buddy_scheme" and a order :: nat
  assume "buddy_ok c kend s" and "live kend (tree s) a order" and "safe_to_free (tree s) a order"
  from kfree_law [OF this] show "\<exists>s'. buddy_kfree c kend a order s = Ok (1, s') \<and> buddy_ok c kend s'
        \<and> allocated (tree s') = allocated (tree s) - block a order
        \<and> (\<forall>b o'. live kend (tree s) b o' \<longrightarrow> (b, o') \<noteq> (a, order) \<longrightarrow> live kend (tree s') b o')"
    by auto
qed

section \<open>A machine with four free pages\<close>

text \<open>
  The states of the nodes above and inside the last four pages of memory, all other memory
  being in use: \<open>G\<close> covers the four pages, \<open>L\<close> and \<open>R\<close> two each.
\<close>

definition four :: "slots \<Rightarrow> 8 word list \<Rightarrow> bool" where
  "four g xs =
     (list_all (\<lambda>v. g v = SLOT_SPLIT) [1, 3, 7, 15, 31, 63, 127, 255, 511, 1023, 2047, 4095, 8191]
      \<and> list_all (\<lambda>v. g v = SLOT_FULL) [2, 6, 14, 30, 62, 126, 254, 510, 1022, 2046, 4094, 8190, 16382]
      \<and> map g [16383, 32766, 32767, 65532, 65533, 65534, 65535] = xs)"

lemma search_num:
  "search g (numeral k) v =
     (if g v = SLOT_EMPTY then search g (pred_numeral k) (2 * v)
      else if g v \<noteq> SLOT_SPLIT then None
      else if g (2 * v) = SLOT_SPLIT \<and> g (2 * v + 1) = SLOT_SPLIT
      then (case search g (pred_numeral k) (2 * v) of None \<Rightarrow> search g (pred_numeral k) (2 * v + 1) | Some w \<Rightarrow> Some w)
      else if g (2 * v) = SLOT_EMPTY then search g (pred_numeral k) (2 * v)
      else if g (2 * v + 1) = SLOT_EMPTY then search g (pred_numeral k) (2 * v + 1)
      else if g (2 * v) = SLOT_FULL \<and> g (2 * v + 1) = SLOT_SPLIT then search g (pred_numeral k) (2 * v + 1)
      else if g (2 * v + 1) = SLOT_FULL \<and> g (2 * v) = SLOT_SPLIT then search g (pred_numeral k) (2 * v)
      else None)"
  by (simp only: numeral_eq_Suc search.simps)

lemmas four_simps = four_def search_num up_alloc_step up_free_step sib_def

lemma four_start:
  assumes "init_tree g 32764 32768"
  shows "four g [0, 0, 0, 0, 0, 0, 0]"
proof -
  note f = init_tree_final [OF assms]
  show ?thesis
    unfolding four_def
    using f [of 0 1] f [of 1 2] f [of 1 3] f [of 2 6] f [of 2 7] f [of 3 14] f [of 3 15] f [of 4 30] f [of 4 31]
      f [of 5 62] f [of 5 63] f [of 6 126] f [of 6 127] f [of 7 254] f [of 7 255] f [of 8 510] f [of 8 511]
      f [of 9 1022] f [of 9 1023] f [of 10 2046] f [of 10 2047] f [of 11 4094] f [of 11 4095]
      f [of 12 8190] f [of 12 8191] f [of 13 16382] f [of 13 16383] f [of 14 32766] f [of 14 32767]
      f [of 15 65532] f [of 15 65533] f [of 15 65534] f [of 15 65535]
    by (simp add: at_level_def node_lo_def)
qed

lemma four_alloc1: "four g [0, 0, 0, 0, 0, 0, 0] \<Longrightarrow>
    search g 15 1 = Some 65532 \<and> four (up_alloc (g(65532 := SLOT_FULL)) 65532) [1, 1, 0, 3, 0, 0, 0]"
  by (simp add: four_simps)

lemma four_alloc2: "four g [1, 1, 0, 3, 0, 0, 0] \<Longrightarrow>
    search g 15 1 = Some 65534 \<and> four (up_alloc (g(65534 := SLOT_FULL)) 65534) [1, 1, 1, 3, 0, 3, 0]"
  by (simp add: four_simps)

lemma four_alloc3: "four g [1, 1, 1, 3, 0, 3, 0] \<Longrightarrow>
    search g 15 1 = Some 65533 \<and> four (up_alloc (g(65533 := SLOT_FULL)) 65533) [1, 3, 1, 3, 3, 3, 0]"
  by (simp add: four_simps)

lemma four_free1: "four g [1, 3, 1, 3, 3, 3, 0] \<Longrightarrow>
    g 65534 = SLOT_FULL \<and> four (up_free (g(65534 := SLOT_EMPTY)) 65534) [1, 3, 0, 3, 3, 0, 0]"
  by (simp add: four_simps)

lemma four_safe: "four g [1, 3, 1, 3, 3, 3, 0] \<Longrightarrow> free_safe g 65534"
  by (simp add: four_def free_safe_def)

lemma four_free2: "four g [1, 3, 0, 3, 3, 0, 0] \<Longrightarrow>
    g 65532 = SLOT_FULL \<and> four (up_free (g(65532 := SLOT_EMPTY)) 65532) [0, 1, 0, 0, 3, 0, 0]"
  by (simp add: four_simps)

lemma four_alloc4: "four g [0, 1, 0, 0, 3, 0, 0] \<Longrightarrow> search g 13 1 = Some 16383"
  by (simp add: four_simps)

text \<open>\<open>in_state c s g\<close>: the allocator is idle and its tree holds the states \<open>g\<close>.\<close>

definition in_state :: "nat \<Rightarrow> 'z buddy_scheme \<Rightarrow> slots \<Rightarrow> bool" where
  "in_state c s g = (lock_free BuddyLock s \<and> intr_ok c s \<and> slot (tree s) = g)"

lemma in_state_alloc:
  assumes "in_state c s g" and "order < 15" and "search g (15 - order) 1 = Some w" and "wf_slots g"
  shows "\<exists>s'. buddy_kalloc c order s = Ok (node_adr (15 - order) w, s')
    \<and> in_state c s' (up_alloc (g(w := SLOT_FULL)) w) \<and> wf_slots (up_alloc (g(w := SLOT_FULL)) w)"
proof -
  have "wf_slots (up_alloc (g(w := SLOT_FULL)) w)"
    using alloc_node(1) [OF assms(4) search_root(1) [OF assms(3)]] search_root [OF assms(3)] by simp
  then show ?thesis using kalloc_found [of s c order w] assms(1-3) by (fastforce simp: in_state_def)
qed

lemma in_state_free:
  assumes "in_state c s g" and "at_level 15 w" and "g w = SLOT_FULL" and "kend \<le> node_adr 15 w"
  shows "\<exists>s'. buddy_kfree c kend (node_adr 15 w) 0 s = Ok (1, s') \<and> in_state c s' (up_free (g(w := SLOT_EMPTY)) w)
    \<and> (wf_slots g \<and> free_safe g w \<longrightarrow> wf_slots (up_free (g(w := SLOT_EMPTY)) w))"
proof -
  have "wf_slots (up_free (g(w := SLOT_EMPTY)) w)" if "wf_slots g" "free_safe g w"
    using free_node(1) [OF that(1) assms(2)] that assms(3) by (simp add: unit_block_def)
  then show ?thesis
    using kfree_cases [of s c 0 kend "node_adr 15 w" w] assms node_adr_bounds [OF assms(2)]
      get_vindex_node_adr [OF assms(2)] at_level_bound [OF assms(2)]
    by (fastforce simp: in_state_def)
qed

abbreviation four_kend :: nat where "four_kend \<equiv> 0x87FFC000"

definition boot_mem :: buddy where
  "boot_mem = klocks.extend boot_locks \<lparr>tree = (\<lambda>_. 0)\<rparr>"

lemma boot_mem_ok: "intr_ok c boot_mem" "lock_free lk boot_mem" "slot (tree boot_mem) = (\<lambda>_. SLOT_EMPTY)"
  using boot_locks_ok
  by (auto simp: boot_mem_def intr_ok_def lock_free_def klocks.defs slot_def)

lemma four_run:
  "\<exists>s0 s1 s2 s3 s4 s5 s6.
     buddy_init 0 four_kend boot_mem = Ok (1, s0) \<and> buddy_kalloc 0 0 s0 = Ok (0x87FFC000, s1)
     \<and> buddy_kalloc 0 0 s1 = Ok (0x87FFE000, s2) \<and> buddy_kalloc 0 0 s2 = Ok (0x87FFD000, s3)
     \<and> buddy_kfree 0 four_kend 0x87FFE000 0 s3 = Ok (1, s4) \<and> buddy_kfree 0 four_kend 0x87FFC000 0 s4 = Ok (1, s5)
     \<and> buddy_kalloc 0 2 s5 = Ok (0x87FFC000, s6)
     \<and> (\<exists>g. in_state 0 s4 g \<and> four g [1, 3, 0, 3, 3, 0, 0] \<and> wf_slots g)"
proof -
  have fp: "first_page four_kend = 32764" by (simp add: first_page_def PGROUNDUP_def)
  have adr: "node_adr 15 65532 = 0x87FFC000" "node_adr 15 65534 = 0x87FFE000" "node_adr 15 65533 = 0x87FFD000"
    "node_adr 13 16383 = 0x87FFC000" by (simp_all add: node_adr_def)
  have lev: "at_level 15 65532" "at_level 15 65534" by (simp_all add: at_level_15)
  obtain s0 g0 where s0: "buddy_init 0 four_kend boot_mem = Ok (1, s0)" "in_state 0 s0 g0" "init_tree g0 32764 32768"
    using buddy_init_runs [of four_kend 0 boot_mem] boot_mem_ok(1) fp by (auto simp: in_state_def)
  note f0 = four_alloc1 [OF four_start [OF s0(3)]]
  obtain s1 g1 where s1: "buddy_kalloc 0 0 s0 = Ok (0x87FFC000, s1)" "in_state 0 s1 g1" "four g1 [1, 1, 0, 3, 0, 0, 0]"
      "wf_slots g1"
    using in_state_alloc [OF s0(2), of 0 65532] f0 adr init_tree_wf [OF s0(3)] by auto
  obtain s2 g2 where s2: "buddy_kalloc 0 0 s1 = Ok (0x87FFE000, s2)" "in_state 0 s2 g2" "four g2 [1, 1, 1, 3, 0, 3, 0]"
      "wf_slots g2"
    using in_state_alloc [OF s1(2), of 0 65534] four_alloc2 [OF s1(3)] adr s1(4) by auto
  obtain s3 g3 where s3: "buddy_kalloc 0 0 s2 = Ok (0x87FFD000, s3)" "in_state 0 s3 g3" "four g3 [1, 3, 1, 3, 3, 3, 0]"
      "wf_slots g3"
    using in_state_alloc [OF s2(2), of 0 65533] four_alloc3 [OF s2(3)] adr s2(4) by auto
  obtain s4 g4 where s4: "buddy_kfree 0 four_kend 0x87FFE000 0 s3 = Ok (1, s4)" "in_state 0 s4 g4" "four g4 [1, 3, 0, 3, 3, 0, 0]"
      "wf_slots g4"
    using in_state_free [OF s3(2) lev(2), of four_kend] four_free1 [OF s3(3)] adr s3(4) four_safe [OF s3(3)] by auto
  obtain s5 g5 where s5: "buddy_kfree 0 four_kend 0x87FFC000 0 s4 = Ok (1, s5)" "in_state 0 s5 g5" "four g5 [0, 1, 0, 0, 3, 0, 0]"
    using in_state_free [OF s4(2) lev(1), of four_kend] four_free2 [OF s4(3)] adr by auto
  obtain s6 where s6: "buddy_kalloc 0 2 s5 = Ok (0x87FFC000, s6)"
    using kalloc_found [of s5 0 2 16383] s5(2) four_alloc4 [OF s5(3)] adr by (auto simp: in_state_def)
  show ?thesis using s0(1) s1(1) s2(1) s3(1) s4 s5(1) s6 by blast
qed

section \<open>Properties\<close>

text \<open>C1. Safety of \<open>buddy_kalloc\<close>: from any well-formed state and for every order up to 15 it
  returns, and keeps the allocator well-formed. It returns either 0, with the tree
  unchanged, or the address of an aligned block inside the managed memory, disjoint from all
  memory in use; the memory in use grows by exactly this block, the blocks allocated before
  stay allocated as a whole, and the new block can be freed safely.\<close>

theorem buddy_kalloc_correct:
  assumes "buddy_ok c kend s" and "order \<le> 15"
  shows "\<exists>adr t. buddy_kalloc c order s = Ok (adr, (note_intena c s)\<lparr>tree := t\<rparr>)
    \<and> buddy_ok c kend ((note_intena c s)\<lparr>tree := t\<rparr>)
    \<and> (adr = 0 \<and> t = tree s
       \<or> live kend t adr order \<and> safe_to_free t adr order
         \<and> block adr order \<inter> allocated (tree s) = {} \<and> allocated t = allocated (tree s) \<union> block adr order
         \<and> (\<forall>b o'. live kend (tree s) b o' \<longrightarrow> live kend t b o'))"
  using assms by (rule kalloc_law)

lemma boot_mem_buddy: "buddy_ok 0 KERNBASE boot_mem"
  by (simp add: buddy_ok_def boot_mem_ok wf_slots_def wf_but_def node_ok_def)

theorem buddy_kalloc_correct_witness:
  "\<exists>adr t. buddy_kalloc 0 3 boot_mem = Ok (adr, (note_intena 0 boot_mem)\<lparr>tree := t\<rparr>)
    \<and> buddy_ok 0 KERNBASE ((note_intena 0 boot_mem)\<lparr>tree := t\<rparr>)
    \<and> (adr = 0 \<and> t = tree boot_mem
       \<or> live KERNBASE t adr 3 \<and> safe_to_free t adr 3
         \<and> block adr 3 \<inter> allocated (tree boot_mem) = {} \<and> allocated t = allocated (tree boot_mem) \<union> block adr 3
         \<and> (\<forall>b o'. live KERNBASE (tree boot_mem) b o' \<longrightarrow> live KERNBASE t b o'))"
  by (rule buddy_kalloc_correct [OF boot_mem_buddy]) simp

text \<open>C5. Completeness of \<open>buddy_kalloc\<close>: below order 15 it returns 0 only when every aligned
  block of the order meets memory in use; the greedy descent with its backtracking stack
  misses nothing.\<close>

theorem buddy_kalloc_complete:
  assumes "buddy_ok c kend s" and "order < 15" and "buddy_kalloc c order s = Ok (0, s')"
    and "KERNBASE \<le> b" and "b + 2 ^ (order + 12) \<le> PHYSTOP" and "2 ^ (order + 12) dvd b - KERNBASE"
  shows "block b order \<inter> allocated (tree s) \<noteq> {}"
  using assms by (rule kalloc_zero)

definition full_mem :: buddy where
  "full_mem = boot_mem\<lparr>tree := \<lambda>i. if i < TREE_SIZE then NOT 0 else 0\<rparr>"

lemma full_mem_buddy: "buddy_ok 0 KERNBASE full_mem"
  and full_mem_kalloc: "buddy_kalloc 0 0 full_mem = Ok (0, note_intena 0 full_mem)"
proof -
  have full: "slot (tree full_mem) v = SLOT_FULL" if "v < 65536" for v
    using init_all_full [OF that, of "\<lambda>_. 0"] by (simp add: full_mem_def)
  then have "wf_slots (slot (tree full_mem))" by (simp add: wf_slots_def wf_but_def node_ok_def)
  then show ok: "buddy_ok 0 KERNBASE full_mem"
    using boot_mem_ok by (simp add: buddy_ok_def full_mem_def)
  have "search (slot (tree full_mem)) 15 1 = None" using full by (simp add: search_num)
  then show "buddy_kalloc 0 0 full_mem = Ok (0, note_intena 0 full_mem)"
    using ok kalloc_none [of full_mem 0 0] by (simp add: buddy_ok_def)
qed

theorem buddy_kalloc_complete_witness: "block KERNBASE 0 \<inter> allocated (tree full_mem) \<noteq> {}"
  by (rule buddy_kalloc_complete [OF full_mem_buddy _ full_mem_kalloc]) simp_all

text \<open>C8. Any sequence of allocations returns, and hands out blocks that are pairwise
  disjoint and disjoint from the memory in use before; the memory in use afterwards is what
  was in use before and these blocks.\<close>

theorem buddy_allocs_disjoint:
  assumes "buddy_ok c kend s" and "\<forall>order\<in>set orders. order \<le> 15"
  shows "\<exists>as s'. allocs (buddy_kalloc c) orders s = Ok (as, s') \<and> buddy_ok c kend s' \<and> length as = length orders
    \<and> sorted_wrt disjnt (blocks as orders) \<and> (\<forall>B\<in>set (blocks as orders). disjnt B (allocated (tree s)))
    \<and> allocated (tree s') = allocated (tree s) \<union> \<Union> (set (blocks as orders))"
  using assms by (rule bd.allocs_disjoint)

theorem buddy_allocs_disjoint_witness:
  "\<exists>as s'. allocs (buddy_kalloc 0) [0, 3, 14] boot_mem = Ok (as, s') \<and> buddy_ok 0 KERNBASE s' \<and> length as = length [0, 3, 14::nat]
    \<and> sorted_wrt disjnt (blocks as [0, 3, 14]) \<and> (\<forall>B\<in>set (blocks as [0, 3, 14]). disjnt B (allocated (tree boot_mem)))
    \<and> allocated (tree s') = allocated (tree boot_mem) \<union> \<Union> (set (blocks as [0, 3, 14]))"
  by (rule buddy_allocs_disjoint [OF boot_mem_buddy]) simp

text \<open>C7. Round trip: freeing a block right after allocating it succeeds and restores the
  memory in use; all other blocks stay allocated.\<close>

theorem buddy_kalloc_kfree:
  assumes "buddy_ok c kend s" and "order \<le> 15" and "buddy_kalloc c order s = Ok (a, s1)" and "a \<noteq> 0"
  shows "\<exists>s2. buddy_kfree c kend a order s1 = Ok (1, s2) \<and> buddy_ok c kend s2
    \<and> allocated (tree s2) = allocated (tree s)
    \<and> (\<forall>b o'. live kend (tree s) b o' \<longrightarrow> (b, o') \<noteq> (a, order) \<longrightarrow> live kend (tree s2) b o')"
  using assms by (rule bd.alloc_free)

lemma boot_mem_kalloc: "\<exists>s1. buddy_kalloc 0 0 boot_mem = Ok (KERNBASE, s1)"
proof -
  have "search (slot (tree boot_mem)) 15 1 = Some 32768" by (simp add: boot_mem_ok search_num)
  then show ?thesis using kalloc_found [of boot_mem 0 0 32768] by (auto simp: boot_mem_ok node_adr_def)
qed

theorem buddy_kalloc_kfree_witness:
  "\<exists>s1 s2. buddy_kalloc 0 0 boot_mem = Ok (KERNBASE, s1) \<and> buddy_kfree 0 KERNBASE KERNBASE 0 s1 = Ok (1, s2)
    \<and> allocated (tree s2) = allocated (tree boot_mem)"
proof -
  obtain s1 where s1: "buddy_kalloc 0 0 boot_mem = Ok (KERNBASE, s1)" using boot_mem_kalloc by blast
  show ?thesis using buddy_kalloc_kfree [OF boot_mem_buddy _ s1] s1 by auto
qed

text \<open>C2. \<open>buddy_kfree\<close> of a block allocated as a whole returns 1, keeps the allocator
  well-formed, takes exactly this block out of the memory in use and leaves every other
  allocated block allocated, provided \<open>safe_to_free\<close> holds: the topmost full node above
  the block, if there is one, has no empty brother.\<close>

theorem buddy_kfree_correct:
  assumes "buddy_ok c kend s" and "live kend (tree s) adr order" and "safe_to_free (tree s) adr order"
  shows "\<exists>t. buddy_kfree c kend adr order s = Ok (1, (note_intena c s)\<lparr>tree := t\<rparr>)
    \<and> buddy_ok c kend ((note_intena c s)\<lparr>tree := t\<rparr>)
    \<and> allocated t = allocated (tree s) - block adr order
    \<and> (\<forall>b o'. live kend (tree s) b o' \<longrightarrow> (b, o') \<noteq> (adr, order) \<longrightarrow> live kend t b o')"
  using assms by (rule kfree_law)

lemma boot_mem_live:
  "\<exists>s :: buddy. buddy_ok 0 KERNBASE s \<and> live KERNBASE (tree s) KERNBASE 0 \<and> safe_to_free (tree s) KERNBASE 0"
  using bd.alloc_law [OF boot_mem_buddy, of 0] boot_mem_kalloc by auto

theorem buddy_kfree_correct_witness:
  "\<exists>(s :: buddy) t. buddy_kfree 0 KERNBASE KERNBASE 0 s = Ok (1, (note_intena 0 s)\<lparr>tree := t\<rparr>)
    \<and> allocated t = allocated (tree s) - block KERNBASE 0"
proof -
  obtain s :: buddy where "buddy_ok 0 KERNBASE s" "live KERNBASE (tree s) KERNBASE 0" "safe_to_free (tree s) KERNBASE 0"
    using boot_mem_live by blast
  from buddy_kfree_correct [OF this] show ?thesis by (elim exE conjE) (intro exI conjI)
qed

lemma free_unsafe_block:
  assumes wf: "wf_slots (slot t0)" and v: "at_level l v" "l \<le> 15" "slot t0 v = SLOT_FULL"
    and unsafe: "\<not> free_safe (slot t0) v" and t: "slot t = up_free ((slot t0)(v := SLOT_EMPTY)) v"
  shows "\<exists>m q. at_level m q \<and> m < l \<and> slot t q = SLOT_EMPTY
    \<and> \<not> block (node_adr m q) (15 - m) \<inter> allocated t \<subseteq> block (node_adr l v) (15 - l)"
proof -
  obtain k where k: "2 \<le> k" "k \<le> l" "slot t (v div 2 ^ k) = SLOT_EMPTY"
    "slot t (sib v) = SLOT_FULL" "sib v div 2 ^ k = v div 2 ^ k"
    using free_node_unsafe [OF wf v unsafe] t by auto
  obtain l' where l': "l = Suc l'" using k(1,2) by (cases l) auto
  let ?q = "v div 2 ^ k" and ?p = "sib v * 2 ^ (15 - l)"
  have q: "at_level (l - k) ?q" using at_level_anc [of "l - k" k v] v(1) k(2) by simp
  have v2: "2 \<le> v" "at_level l' (v div 2)" using at_level_up [of l' v] v(1) l' by auto
  have sl: "at_level l (sib v)"
    using at_level_down [OF v2(2)] sons_pair [OF v2(1)] l' by auto
  have p: "?p \<in> leaves l (sib v)" by (rule leaf_below [OF sl v(2)])
  have p15: "32768 \<le> ?p" "?p < 65536" using p by (auto simp: leaves_def at_level_15)
  let ?a = "KERNBASE + (?p - 32768) * PGSIZE"
  have a: "page_of ?a = ?p" "KERNBASE \<le> ?a" "?a < PHYSTOP" using p15 by (auto simp: page_of_def)
  have "used (slot t) ?p"
    using k(4) unfolding used_def used_upto_def by (intro exI [of _ "15 - l"]) auto
  then have "?a \<in> allocated t" using a by (simp add: allocated_def)
  moreover have "?a \<in> block (node_adr (l - k) ?q) (15 - (l - k))"
  proof -
    have e: "15 - (l - k) = (15 - l) + k" using k(2) v(2) by simp
    have "?p div 2 ^ (15 - (l - k)) = ?q" using k(5) unfolding e power_add div_mult2_eq by simp
    then show ?thesis using block_leaves [OF q] a p v(2) by (simp add: leaves_def)
  qed
  moreover have "?a \<notin> block (node_adr l v) (15 - l)"
    using block_leaves [OF v(1,2), of ?a] a(1) p sib_sib [OF v2(1)] by (auto simp: leaves_def)
  ultimately show ?thesis using q k by (intro exI [of _ "l - k"] exI [of _ ?q]) auto
qed

text \<open>C3. The flaw of \<open>update_upstairs_free\<close>: when \<open>safe_to_free\<close> does not hold, freeing a block
  allocated as a whole leaves a larger block marked empty that contains memory still in
  use, outside the block that was freed.\<close>

theorem buddy_kfree_unsafe:
  assumes ok: "buddy_ok c kend s" and lv: "live kend (tree s) adr order"
    and unsafe: "\<not> safe_to_free (tree s) adr order"
  shows "\<exists>t l q. buddy_kfree c kend adr order s = Ok (1, (note_intena c s)\<lparr>tree := t\<rparr>)
    \<and> at_level l q \<and> l < 15 - order \<and> slot t q = SLOT_EMPTY
    \<and> \<not> block (node_adr l q) (15 - l) \<inter> allocated t \<subseteq> block adr order"
proof -
  note v = live_node [OF lv]
  obtain t where t: "buddy_kfree c kend adr order s = Ok (1, (note_intena c s)\<lparr>tree := t\<rparr>)"
    "slot t = up_free ((slot (tree s))(get_vindex adr (15 - order) := SLOT_EMPTY)) (get_vindex adr (15 - order))"
    using kfree_live [OF ok lv] by blast
  have ord: "15 - (15 - order) = order" using live_bounds(1) [OF lv] by simp
  obtain m q where "at_level m q" "m < 15 - order" "slot t q = SLOT_EMPTY"
    "\<not> block (node_adr m q) (15 - m) \<inter> allocated t \<subseteq> block adr order"
    using free_unsafe_block [OF _ v(1) _ _ unsafe [unfolded safe_to_free_def] t(2)] ok v(2,3)
    unfolding ord by (auto simp: buddy_ok_def unit_block_def)
  then show ?thesis using t(1) by (intro exI [of _ t] exI [of _ m] exI [of _ q]) simp
qed

text \<open>The state of the machine with four free pages in which the first page is freed.\<close>

lemma four_unsafe:
  assumes "in_state 0 s g" and "four g [1, 3, 0, 3, 3, 0, 0]"
  shows "live KERNBASE (tree s) 0x87FFC000 0 \<and> \<not> safe_to_free (tree s) 0x87FFC000 0"
proof -
  have v: "get_vindex 0x87FFC000 15 = 65532" using get_vindex_node_adr [of 15 65532] by (simp add: node_adr_def at_level_15)
  have g: "slot (tree s) = g" using assms(1) by (simp add: in_state_def)
  have "free_safe g 65532 = False"
    using assms(2) by (simp add: four_def free_safe_def run_safe.simps sib_def)
  moreover have "unit_block g 15 65532" using assms(2) by (simp add: four_def unit_block_def)
  ultimately show ?thesis by (simp add: live_def safe_to_free_def v g)
qed

theorem buddy_kfree_unsafe_witness:
  "\<exists>(s :: buddy) t l q. buddy_kfree 0 KERNBASE 0x87FFC000 0 s = Ok (1, (note_intena 0 s)\<lparr>tree := t\<rparr>)
    \<and> slot t q = SLOT_EMPTY \<and> \<not> block (node_adr l q) (15 - l) \<inter> allocated t \<subseteq> block 0x87FFC000 0"
proof -
  obtain s4 :: buddy and g where s4: "in_state 0 s4 g" "four g [1, 3, 0, 3, 3, 0, 0]" "wf_slots g"
    using four_run by blast
  then have ok: "buddy_ok 0 KERNBASE s4" by (simp add: in_state_def buddy_ok_def)
  note u = four_unsafe [OF s4(1,2)]
  from buddy_kfree_unsafe [OF ok u [THEN conjunct1] u [THEN conjunct2]]
  show ?thesis by (elim exE conjE) (intro exI conjI)
qed

text \<open>C9. The flaw is reachable: on a machine with four free pages (\<open>kend\<close> four pages below
  \<open>PHYSTOP\<close>), after \<open>buddy_init\<close>, three allocations of a page and two frees, an allocation of
  four pages returns a block that contains the page \<open>0x87FFD000\<close>, which was allocated and
  never freed.\<close>

theorem buddy_overlap:
  "bindr (buddy_init 0 0x87FFC000 boot_mem) (\<lambda>(_, s).
   bindr (allocs (buddy_kalloc 0) [0, 0, 0] s) (\<lambda>(as, s).
   bindr (buddy_kfree 0 0x87FFC000 0x87FFE000 0 s) (\<lambda>(_, s).
   bindr (buddy_kfree 0 0x87FFC000 0x87FFC000 0 s) (\<lambda>(_, s).
   bindr (buddy_kalloc 0 2 s) (\<lambda>(b, s). Ok (as, b, 0x87FFD000 \<in> block b 2))))))
   = Ok ([0x87FFC000, 0x87FFE000, 0x87FFD000], 0x87FFC000, True)"
proof -
  obtain s0 s1 s2 s3 s4 s5 s6 where
    "buddy_init 0 0x87FFC000 boot_mem = Ok (1, s0)" "buddy_kalloc 0 0 s0 = Ok (0x87FFC000, s1)"
    "buddy_kalloc 0 0 s1 = Ok (0x87FFE000, s2)" "buddy_kalloc 0 0 s2 = Ok (0x87FFD000, s3)"
    "buddy_kfree 0 0x87FFC000 0x87FFE000 0 s3 = Ok (1, s4)" "buddy_kfree 0 0x87FFC000 0x87FFC000 0 s4 = Ok (1, s5)"
    "buddy_kalloc 0 2 s5 = Ok (0x87FFC000, s6)" using four_run by blast
  then show ?thesis by (simp add: block_def)
qed

text \<open>C4. For a kernel that ends inside the managed memory, \<open>buddy_init\<close> returns 1 from any state in which the
  interrupt bookkeeping of the hart is consistent, whatever the tree held before, and leaves a
  well-formed allocator in which exactly the memory below the first page boundary above
  the kernel is in use.\<close>

theorem buddy_init_correct:
  assumes "KERNBASE \<le> kend" and "kend \<le> PHYSTOP" and "intr_ok c s"
  shows "\<exists>s'. buddy_init c kend s = Ok (1, s') \<and> buddy_ok c kend s'
    \<and> allocated (tree s') = {KERNBASE..<PGROUNDUP kend}"
proof -
  obtain s' where s': "buddy_init c kend s = Ok (1, s')" "lock_free BuddyLock s'" "intr_ok c s'"
    "init_tree (slot (tree s')) (first_page kend) 32768"
    using buddy_init_runs [OF assms] by blast
  have all: "allocated (tree s') = {KERNBASE..<PGROUNDUP kend}" by (rule init_allocated [OF assms(1,2) s'(4)])
  then have "buddy_ok c kend s'"
    using s'(2,3) init_tree_wf [OF s'(4)] PGROUNDUP_bounds(2) [OF assms(1,2)] by (auto simp: buddy_ok_def)
  then show ?thesis using s'(1) all by blast
qed

theorem buddy_init_correct_witness:
  "\<exists>s'. buddy_init 0 0x80021234 boot_mem = Ok (1, s') \<and> buddy_ok 0 0x80021234 s'
    \<and> allocated (tree s') = {KERNBASE..<PGROUNDUP 0x80021234}"
  by (rule buddy_init_correct) (simp_all add: boot_mem_ok)

text \<open>C13. Errors of \<open>buddy_kalloc\<close>: an order above 15 panics before the lock is taken, and order
  15, the whole memory, is never served, even when all memory is free: the level 0 of the
  root is also the code for "not found".\<close>

theorem buddy_kalloc_orders:
  "(15 < order \<longrightarrow> buddy_kalloc c order s = Err (Panic ''Order too big''))
   \<and> (lock_free BuddyLock s \<and> intr_ok c s \<longrightarrow> buddy_kalloc c 15 s = Ok (0, note_intena c s))"
  by (simp add: kalloc_none) (simp add: buddy_kalloc_def)

theorem buddy_kalloc_orders_witness:
  "buddy_kalloc 0 16 boot_mem = Err (Panic ''Order too big'')
   \<and> buddy_kalloc 0 15 boot_mem = Ok (0, note_intena 0 boot_mem)"
  using buddy_kalloc_orders [of 16 0 boot_mem] by (simp add: boot_mem_ok)

lemma vindex_PHYSTOP:
  assumes "1 \<le> order" and "order \<le> 15"
  shows "get_vindex PHYSTOP (15 - order) = get_vindex KERNBASE (15 - (order - 1))"
proof -
  have "(PHYSTOP - KERNBASE) div 2 ^ (27 - (15 - order)) = 2 ^ (15 - order)"
  proof (rule div_nat_eqI)
    have "2 ^ (27 - (15 - order)) * 2 ^ (15 - order) = (2 ^ 27 :: nat)" unfolding power_add [symmetric] by simp
    then show "2 ^ (27 - (15 - order)) * 2 ^ (15 - order) \<le> PHYSTOP - KERNBASE"
      "PHYSTOP - KERNBASE < 2 ^ (27 - (15 - order)) * Suc (2 ^ (15 - order))" by simp_all
  qed
  moreover have "15 - (order - 1) = Suc (15 - order)" using assms by simp
  ultimately show ?thesis by (simp add: get_vindex_eq)
qed

text \<open>C12. Errors of \<open>buddy_kfree\<close>: an order above 15, an address below the end of the kernel or
  above \<open>PHYSTOP\<close> panic; freeing a node that is not full returns 0 and changes nothing. The
  address \<open>PHYSTOP\<close> itself, one past the managed memory, passes the check: with order 0 the call
  reads outside \<open>mem_tree.tree\<close>, and with an order from 1 to 15 it is the call that frees the first
  block of memory with the order below, so it can free memory in use.\<close>

theorem buddy_kfree_errors:
  "(15 < order \<or> PHYSTOP < adr \<or> adr < kend \<longrightarrow> buddy_kfree c kend adr order s = Err (Panic ''Invalid address''))
   \<and> (lock_free BuddyLock s \<and> intr_ok c s \<and> order \<le> 15 \<and> kend \<le> adr \<and> KERNBASE \<le> adr \<and> adr < PHYSTOP
      \<and> slot (tree s) (get_vindex adr (15 - order)) \<noteq> SLOT_FULL
      \<longrightarrow> buddy_kfree c kend adr order s = Ok (0, note_intena c s))
   \<and> (lock_free BuddyLock s \<and> kend \<le> PHYSTOP
      \<longrightarrow> buddy_kfree c kend PHYSTOP 0 s = Err (OutOfBounds ''mem_tree.tree''))
   \<and> (1 \<le> order \<and> order \<le> 15 \<and> kend \<le> PHYSTOP
      \<longrightarrow> buddy_kfree c kend PHYSTOP order s = buddy_kfree c KERNBASE KERNBASE (order - 1) s)"
proof (intro conjI impI)
  show "buddy_kfree c kend PHYSTOP order s = buddy_kfree c KERNBASE KERNBASE (order - 1) s"
    if a: "1 \<le> order \<and> order \<le> 15 \<and> kend \<le> PHYSTOP"
  proof -
    have "\<not> 15 < order - 1" "15 - (order - 1) = 16 - order" using a by auto
    then show ?thesis using a vindex_PHYSTOP [of order] by (simp add: buddy_kfree_def)
  qed
next
  show "buddy_kfree c kend adr order s = Err (Panic ''Invalid address'')" if "15 < order \<or> PHYSTOP < adr \<or> adr < kend"
    using that by (simp add: buddy_kfree_def)
next
  assume a: "lock_free BuddyLock s \<and> intr_ok c s \<and> order \<le> 15 \<and> kend \<le> adr \<and> KERNBASE \<le> adr \<and> adr < PHYSTOP
      \<and> slot (tree s) (get_vindex adr (15 - order)) \<noteq> SLOT_FULL"
  have "get_vindex adr (15 - order) = page_of adr div 2 ^ (15 - (15 - order))"
    using a get_vindex_eq [of adr "15 - order"] page_of_div [of "15 - order" adr] by simp
  moreover have "at_level (15 - order) (page_of adr div 2 ^ (15 - (15 - order)))"
    using a page_of_level [of adr] at_level_anc [of "15 - order" order "page_of adr"] by simp
  ultimately show "buddy_kfree c kend adr order s = Ok (0, note_intena c s)"
    using a kfree_cases [of s c order kend adr _] at_level_bound [of "15 - order" _ 15] by simp
next
  assume a: "lock_free BuddyLock s \<and> kend \<le> PHYSTOP"
  have "get_vindex PHYSTOP 15 = 65536" by (subst get_vindex_eq) simp_all
  then show "buddy_kfree c kend PHYSTOP 0 s = Err (OutOfBounds ''mem_tree.tree'')"
    using a by (simp add: buddy_kfree_def Let_def lock_simps get_state_oob)
qed

theorem buddy_kfree_errors_witness:
  "buddy_kfree 0 KERNBASE 0 0 boot_mem = Err (Panic ''Invalid address'')
   \<and> buddy_kfree 0 KERNBASE KERNBASE 0 boot_mem = Ok (0, note_intena 0 boot_mem)
   \<and> buddy_kfree 0 KERNBASE PHYSTOP 0 boot_mem = Err (OutOfBounds ''mem_tree.tree'')
   \<and> buddy_kfree 0 KERNBASE PHYSTOP 1 boot_mem = buddy_kfree 0 KERNBASE KERNBASE 0 boot_mem"
  using buddy_kfree_errors [of 0 0 KERNBASE 0 boot_mem] buddy_kfree_errors [of 0 KERNBASE KERNBASE 0 boot_mem]
    buddy_kfree_errors [of 1 KERNBASE KERNBASE 0 boot_mem]
  by (simp add: boot_mem_ok)

text \<open>C6. \<open>locate_free_block\<close> terminates on every tree, well-formed or not, and computes the
  recursion \<open>search\<close>: where the recursion finds node \<open>w\<close>, the two nested loops with their
  bounded stack return its level and \<open>w\<close>; where it finds none, they return level 0 or a node
  that is not empty, both of which the caller takes for "no memory".\<close>

theorem locate_free_block_equiv:
  assumes "level \<le> 15"
  shows "case search (slot t) level 1 of
      None \<Rightarrow> \<exists>l w. locate_free_block t 1 level = Ok (l, w) \<and> (l = 0 \<or> w < 65536 \<and> slot t w \<noteq> SLOT_EMPTY)
    | Some w \<Rightarrow> locate_free_block t 1 level = Ok (level, w)"
  using assms by (rule locate_free_block_search)

theorem locate_free_block_equiv_witness: "locate_free_block (\<lambda>_. 0) 1 3 = Ok (3, 8)"
  using locate_free_block_equiv [of 3 "\<lambda>_. 0"] by (simp add: search_num slot_def)

text \<open>Round trip between nodes and addresses: \<open>get_adr\<close> of a node of level \<open>l\<close> returns the
  address of its block, which lies in the managed memory, and \<open>get_vindex\<close> maps this address
  back to the node; conversely every aligned block address is the address of its node.\<close>

theorem adr_vindex_roundtrip:
  assumes l: "l \<le> 15"
  shows "(2 ^ l \<le> v \<and> v < 2 ^ Suc l \<longrightarrow>
      (\<exists>a. get_adr v = Ok a \<and> KERNBASE \<le> a \<and> a + 2 ^ (27 - l) \<le> PHYSTOP \<and> get_vindex a l = v))
    \<and> (KERNBASE \<le> b \<and> b + 2 ^ (27 - l) \<le> PHYSTOP \<and> 2 ^ (27 - l) dvd b - KERNBASE \<longrightarrow>
      get_adr (get_vindex b l) = Ok b)"
proof (intro conjI impI)
  assume "2 ^ l \<le> v \<and> v < 2 ^ Suc l"
  then have v: "at_level l v" by (simp add: at_level_def)
  show "\<exists>a. get_adr v = Ok a \<and> KERNBASE \<le> a \<and> a + 2 ^ (27 - l) \<le> PHYSTOP \<and> get_vindex a l = v"
    using get_adr_at [OF v l] node_adr_bounds [OF v l] get_vindex_node_adr [OF v l] by blast
next
  assume a: "KERNBASE \<le> b \<and> b + 2 ^ (27 - l) \<le> PHYSTOP \<and> 2 ^ (27 - l) dvd b - KERNBASE"
  have e: "15 - (15 - l) = l" "15 - l + 12 = 27 - l" using l by auto
  show "get_adr (get_vindex b l) = Ok b"
    using aligned_node [of b "15 - l"] a get_adr_at [of l "get_vindex b l"] l unfolding e by simp
qed

theorem adr_vindex_roundtrip_witness:
  "(\<exists>a. get_adr 5 = Ok a \<and> KERNBASE \<le> a \<and> a + 2 ^ 25 \<le> PHYSTOP \<and> get_vindex a 2 = 5)
   \<and> get_adr (get_vindex 0x80003000 15) = Ok 0x80003000"
proof -
  have "2 ^ (27 - 15) dvd (0x80003000 :: nat) - KERNBASE" by (simp add: dvd_def)
  then show ?thesis
    using adr_vindex_roundtrip [of 2 5 0] adr_vindex_roundtrip [of 15 0 "0x80003000"] by simp
qed

text \<open>The packed states: after \<open>set_state\<close> of a node below 65536 with one of the three
  states, \<open>get_state\<close> of it returns that state, \<open>get_state\<close> of every other node what it
  returned before; an index of 65536 or more is out of bounds for both.\<close>

theorem state_roundtrip:
  "(v < 65536 \<and> w < 65536 \<and> st \<in> {SLOT_EMPTY, SLOT_SPLIT, SLOT_FULL} \<longrightarrow>
      (\<exists>t'. set_state t v st = Ok t' \<and> get_state t' w = (if w = v then Ok st else get_state t w)))
   \<and> (65536 \<le> v \<longrightarrow> get_state t v = Err (OutOfBounds ''mem_tree.tree'')
        \<and> set_state t v st = Err (OutOfBounds ''mem_tree.tree''))"
  by (auto simp: slot_simps get_state_oob set_state_oob)

theorem state_roundtrip_witness:
  "\<exists>t'. set_state (\<lambda>_. 0) 6 SLOT_SPLIT = Ok t' \<and> get_state t' 6 = Ok SLOT_SPLIT"
  using state_roundtrip [of 6 6 SLOT_SPLIT "\<lambda>_. 0"] by simp

text \<open>C14. \<open>my_clz\<close> counts leading zeros: 64 for 0, and otherwise the number \<open>n\<close> with
  \<open>2^(63-n) \<le> x < 2^(64-n)\<close>; hence \<open>get_level\<close> is the level of a node.\<close>

theorem my_clz_correct:
  "my_clz 0 = 64
   \<and> (x \<noteq> 0 \<longrightarrow> my_clz x \<le> 63 \<and> 2 ^ (63 - my_clz x) \<le> unat x \<and> unat x < 2 ^ (64 - my_clz x))
   \<and> (l < 63 \<and> 2 ^ l \<le> v \<and> v < 2 ^ Suc l \<longrightarrow> get_level v = int l)"
  using my_clz_bounds [of x] get_level_at [of l v] by (simp add: at_level_def)

theorem my_clz_correct_witness: "my_clz 0x10 \<le> 63 \<and> 2 ^ (63 - my_clz 0x10) \<le> (16::nat) \<and> get_level 5 = 2"
  using my_clz_correct [of "0x10" 2 5] by simp

end
