(* ===== verification/Kalloc.thy ===== *)
theory Kalloc
  imports Buddy_Props
begin

text \<open>
  The page allocator (\<^verbatim>\<open>kernel/kalloc.c\<close>): \<open>kinit\<close>, \<open>kalloc\<close> and \<open>kfree\<close> on top of the
  buddy allocator, as clients of \<open>block_allocator\<close>.
\<close>

definition kinit :: "nat \<Rightarrow> nat \<Rightarrow> 'z buddy_scheme \<Rightarrow> 'z buddy_scheme result" where
  "kinit c kend s = bindr (buddy_init c kend s) (\<lambda>(_, s). Ok s)"

definition kfree :: "nat \<Rightarrow> nat \<Rightarrow> nat \<Rightarrow> 'z buddy_scheme \<Rightarrow> 'z buddy_scheme result" where
  "kfree c kend pa s = bindr (buddy_kfree c kend pa 0 s) (\<lambda>(_, s). Ok s)"

definition kalloc :: "nat \<Rightarrow> 'z buddy_scheme \<Rightarrow> (nat \<times> 'z buddy_scheme) result" where
  "kalloc c s = buddy_kalloc c 0 s"

text \<open>The pages of a list of results of \<open>kalloc\<close>.\<close>

fun kallocs :: "nat \<Rightarrow> nat \<Rightarrow> 'z buddy_scheme \<Rightarrow> (nat list \<times> 'z buddy_scheme) result" where
  "kallocs c 0 s = Ok ([], s)"
| "kallocs c (Suc n) s =
     bindr (kalloc c s) (\<lambda>(a, s). bindr (kallocs c n s) (\<lambda>(as, s). Ok (a # as, s)))"

lemma kallocs_allocs: "kallocs c n s = allocs (buddy_kalloc c) (replicate n 0) s"
  by (induction n arbitrary: s) (simp_all add: kalloc_def)

lemma kalloc_page:
  assumes "buddy_ok c kend s"
  shows "\<exists>a s'. kalloc c s = Ok (a, s') \<and> buddy_ok c kend s'
    \<and> (a = 0 \<and> allocated (tree s) = {KERNBASE..<PHYSTOP}
       \<or> a \<noteq> 0 \<and> a mod PGSIZE = 0 \<and> kend \<le> a \<and> a + PGSIZE \<le> PHYSTOP \<and> live kend (tree s') a 0
         \<and> {a..<a + PGSIZE} \<inter> allocated (tree s) = {}
         \<and> allocated (tree s') = allocated (tree s) \<union> {a..<a + PGSIZE})"
proof -
  obtain a s' where r: "buddy_kalloc c 0 s = Ok (a, s')" "buddy_ok c kend s'"
    and d: "a = 0 \<or> a \<noteq> 0 \<and> live kend (tree s') a 0 \<and> block a 0 \<inter> allocated (tree s) = {}
         \<and> allocated (tree s') = allocated (tree s) \<union> block a 0"
    using bd.alloc_law [OF assms, of 0] by auto
  have b: "block a 0 = {a..<a + PGSIZE}" by (simp add: block_def)
  show ?thesis
  proof (cases "a = 0")
    case True
    have "x \<in> allocated (tree s)" if x: "KERNBASE \<le> x" "x < PHYSTOP" for x
    proof -
      let ?b = "KERNBASE + (x - KERNBASE) div PGSIZE * PGSIZE"
      have "(x - KERNBASE) div PGSIZE < 32768" using x by (intro less_mult_imp_div_less) simp
      then have pb: "?b + PGSIZE \<le> PHYSTOP" by simp
      have "block ?b 0 \<inter> allocated (tree s) \<noteq> {}"
        using kalloc_zero [OF assms, of 0 s' ?b] r(1) True pb by simp
      then obtain y where y: "y \<in> block ?b 0" "used (slot (tree s)) (page_of y)" by (auto simp: allocated_def)
      have "(y - KERNBASE) div PGSIZE = (x - KERNBASE) div PGSIZE"
        using y(1) by (intro div_nat_eqI) (auto simp: block_def)
      then show ?thesis using y(2) x by (simp add: allocated_def page_of_def)
    qed
    then show ?thesis using r True by (auto simp: kalloc_def allocated_def)
  next
    case False
    then have lv: "live kend (tree s') a 0" using d by blast
    have "PGSIZE dvd a - KERNBASE" "KERNBASE \<le> a" using lv by (auto simp: live_def)
    then have "a mod PGSIZE = 0" using dvd_diffD [of PGSIZE a KERNBASE] by auto
    moreover have "kend \<le> a" "a + PGSIZE \<le> PHYSTOP" using lv by (auto simp: live_def)
    ultimately show ?thesis using d r lv False b by (auto simp: kalloc_def)
  qed
qed

text \<open>C10. \<open>kalloc\<close> returns a page-aligned page above the kernel that was not in use, and marks
  exactly it as in use; it returns 0 only when the whole memory is in use.\<close>

theorem kalloc_correct:
  assumes "buddy_ok c kend s"
  shows "\<exists>a s'. kalloc c s = Ok (a, s') \<and> buddy_ok c kend s'
    \<and> (a = 0 \<and> allocated (tree s) = {KERNBASE..<PHYSTOP}
       \<or> a \<noteq> 0 \<and> a mod PGSIZE = 0 \<and> kend \<le> a \<and> a + PGSIZE \<le> PHYSTOP \<and> live kend (tree s') a 0
         \<and> {a..<a + PGSIZE} \<inter> allocated (tree s) = {}
         \<and> allocated (tree s') = allocated (tree s) \<union> {a..<a + PGSIZE})"
  using assms by (rule kalloc_page)

theorem kalloc_correct_witness:
  "\<exists>a s'. kalloc 0 boot_mem = Ok (a, s') \<and> buddy_ok 0 KERNBASE s'
    \<and> (a = 0 \<and> allocated (tree boot_mem) = {KERNBASE..<PHYSTOP}
       \<or> a \<noteq> 0 \<and> a mod PGSIZE = 0 \<and> KERNBASE \<le> a \<and> a + PGSIZE \<le> PHYSTOP \<and> live KERNBASE (tree s') a 0
         \<and> {a..<a + PGSIZE} \<inter> allocated (tree boot_mem) = {}
         \<and> allocated (tree s') = allocated (tree boot_mem) \<union> {a..<a + PGSIZE})"
  by (rule kalloc_correct [OF boot_mem_buddy])

text \<open>C11. From boot: after \<open>kinit\<close>, any number of calls of \<open>kalloc\<close> return pages that are
  pairwise disjoint and lie above the kernel.\<close>

theorem kinit_kallocs:
  assumes "KERNBASE \<le> kend" and "kend \<le> PHYSTOP" and "intr_ok c s"
  shows "\<exists>s0 as s'. kinit c kend s = Ok s0 \<and> kallocs c n s0 = Ok (as, s') \<and> length as = n \<and> buddy_ok c kend s'
    \<and> sorted_wrt disjnt (blocks as (replicate n 0))
    \<and> allocated (tree s') = {KERNBASE..<PGROUNDUP kend} \<union> \<Union> (set (blocks as (replicate n 0)))
    \<and> (\<forall>B\<in>set (blocks as (replicate n 0)). disjnt B {KERNBASE..<PGROUNDUP kend})"
proof -
  obtain s0 where s0: "buddy_init c kend s = Ok (1, s0)" "lock_free BuddyLock s0" "intr_ok c s0"
    "init_tree (slot (tree s0)) (first_page kend) 32768"
    using buddy_init_runs [OF assms] by blast
  note all = init_allocated [OF assms(1,2) s0(4)]
  have "buddy_ok c kend s0"
    using s0(2,3) init_tree_wf [OF s0(4)] all PGROUNDUP_bounds(2) [OF assms(1,2)] by (auto simp: buddy_ok_def)
  from bd.allocs_disjoint [OF this, of "replicate n 0"] show ?thesis
    using s0(1) all unfolding kallocs_allocs by (auto simp: kinit_def)
qed

theorem kinit_kallocs_witness:
  "\<exists>s0 as s'. kinit 0 0x80021234 boot_mem = Ok s0 \<and> kallocs 0 3 s0 = Ok (as, s') \<and> length as = 3 \<and> buddy_ok 0 0x80021234 s'
    \<and> sorted_wrt disjnt (blocks as (replicate 3 0))
    \<and> allocated (tree s') = {KERNBASE..<PGROUNDUP 0x80021234} \<union> \<Union> (set (blocks as (replicate 3 0)))
    \<and> (\<forall>B\<in>set (blocks as (replicate 3 0)). disjnt B {KERNBASE..<PGROUNDUP 0x80021234})"
  by (rule kinit_kallocs) (simp_all add: boot_mem_ok)

end
