(* ===== verification/Kstring.thy ===== *)
theory Kstring
  imports Memory
begin

text \<open>
  The memory and string routines of the kernel (\<^verbatim>\<open>kernel/string.c\<close>) and of the user
  library (\<^verbatim>\<open>user/ulib.c\<close>, names with the prefix \<open>ulib_\<close>) on byte memory. A routine that
  returns its first argument returns it together with the new memory. \<open>char\<close> is unsigned on
  RISC-V, so that \<open>char\<close> and \<open>uchar\<close> agree. A loop that runs until it meets a NUL byte may
  never end; it is \<open>None\<close> where there is no NUL byte.
\<close>

section \<open>kernel/string.c\<close>

definition memset :: "nat \<Rightarrow> int \<Rightarrow> nat \<Rightarrow> mem \<Rightarrow> nat \<times> mem" where
  "memset dst c n m = (dst, fold (\<lambda>i m. m(dst + i := of_int c)) [0..<n] m)"

fun memcmp :: "nat \<Rightarrow> nat \<Rightarrow> nat \<Rightarrow> mem \<Rightarrow> int" where
  "memcmp s1 s2 0 m = 0"
| "memcmp s1 s2 (Suc n) m =
     (if m s1 \<noteq> m s2 then int (unat (m s1)) - int (unat (m s2)) else memcmp (s1 + 1) (s2 + 1) n m)"

text \<open>The two loops of \<open>memmove\<close>: \<open>while(n-- > 0) *d++ = *s++\<close> and \<open>while(n-- > 0) *--d = *--s\<close>.\<close>

fun copy_up :: "nat \<Rightarrow> nat \<Rightarrow> nat \<Rightarrow> mem \<Rightarrow> mem" where
  "copy_up 0 d s m = m"
| "copy_up (Suc n) d s m = copy_up n (d + 1) (s + 1) (m(d := m s))"

fun copy_down :: "nat \<Rightarrow> nat \<Rightarrow> nat \<Rightarrow> mem \<Rightarrow> mem" where
  "copy_down 0 d s m = m"
| "copy_down (Suc n) d s m = copy_down n (d - 1) (s - 1) (m(d - 1 := m (s - 1)))"

definition memmove :: "nat \<Rightarrow> nat \<Rightarrow> nat \<Rightarrow> mem \<Rightarrow> nat \<times> mem" where
  "memmove dst src n m =
     (if n = 0 then (dst, m)
      else if src < dst \<and> src + n > dst then (dst, copy_down n (dst + n) (src + n) m)
      else (dst, copy_up n dst src m))"

definition memcpy :: "nat \<Rightarrow> nat \<Rightarrow> nat \<Rightarrow> mem \<Rightarrow> nat \<times> mem" where
  "memcpy dst src n m = memmove dst src n m"

fun strncmp :: "nat \<Rightarrow> nat \<Rightarrow> nat \<Rightarrow> mem \<Rightarrow> int" where
  "strncmp p q 0 m = 0"
| "strncmp p q (Suc n) m =
     (if m p \<noteq> 0 \<and> m p = m q then strncmp (p + 1) (q + 1) n m
      else int (unat (m p)) - int (unat (m q)))"

text \<open>The loops of \<open>strncpy\<close>; \<open>n\<close> is decremented by every evaluation of its condition.\<close>

function strncpy_copy :: "int \<Rightarrow> nat \<Rightarrow> nat \<Rightarrow> mem \<Rightarrow> int \<times> nat \<times> mem" where
  "strncpy_copy n s t m =
     (if n > 0
      then let c = m t; m = m(s := c)
           in if c \<noteq> 0 then strncpy_copy (n - 1) (s + 1) (t + 1) m else (n - 1, s + 1, m)
      else (n - 1, s, m))"
  by pat_completeness auto
termination
  by (relation "measure (\<lambda>(n, s, t, m). nat n)") auto

function strncpy_pad :: "int \<Rightarrow> nat \<Rightarrow> mem \<Rightarrow> mem" where
  "strncpy_pad n s m = (if n > 0 then strncpy_pad (n - 1) (s + 1) (m(s := 0)) else m)"
  by pat_completeness auto
termination
  by (relation "measure (\<lambda>(n, s, m). nat n)") auto

definition strncpy :: "nat \<Rightarrow> nat \<Rightarrow> int \<Rightarrow> mem \<Rightarrow> nat \<times> mem" where
  "strncpy s t n m = (let (n, s', m) = strncpy_copy n s t m in (s, strncpy_pad n s' m))"

text \<open>\<open>while(--n > 0 && (*s++ = *t++) != 0)\<close> of \<open>safestrcpy\<close>: the final \<open>s\<close> and memory.\<close>

function safestrcpy_copy :: "int \<Rightarrow> nat \<Rightarrow> nat \<Rightarrow> mem \<Rightarrow> nat \<times> mem" where
  "safestrcpy_copy n s t m =
     (if n - 1 > 0
      then let c = m t; m = m(s := c)
           in if c \<noteq> 0 then safestrcpy_copy (n - 1) (s + 1) (t + 1) m else (s + 1, m)
      else (s, m))"
  by pat_completeness auto
termination
  by (relation "measure (\<lambda>(n, s, t, m). nat n)") auto

definition safestrcpy :: "nat \<Rightarrow> nat \<Rightarrow> int \<Rightarrow> mem \<Rightarrow> nat \<times> mem" where
  "safestrcpy s t n m =
     (if n \<le> 0 then (s, m) else let (s', m) = safestrcpy_copy n s t m in (s, m(s' := 0)))"

declare strncpy_copy.simps [simp del] strncpy_pad.simps [simp del] safestrcpy_copy.simps [simp del]

partial_function (option) strlen_from :: "nat \<Rightarrow> nat \<Rightarrow> mem \<Rightarrow> nat result" where
  "strlen_from s n m = (if m (s + n) \<noteq> 0 then strlen_from s (n + 1) m else Ok n)"

definition strlen :: "nat \<Rightarrow> mem \<Rightarrow> nat result" where
  "strlen s m = strlen_from s 0 m"

section \<open>user/ulib.c\<close>

partial_function (option) ulib_strcpy_loop :: "nat \<Rightarrow> nat \<Rightarrow> mem \<Rightarrow> mem result" where
  "ulib_strcpy_loop s t m =
     (let c = m t; m = m(s := c) in if c \<noteq> 0 then ulib_strcpy_loop (s + 1) (t + 1) m else Ok m)"

definition ulib_strcpy :: "nat \<Rightarrow> nat \<Rightarrow> mem \<Rightarrow> (nat \<times> mem) result" where
  "ulib_strcpy s t m = bindr (ulib_strcpy_loop s t m) (\<lambda>m. Ok (s, m))"

partial_function (option) ulib_strcmp :: "nat \<Rightarrow> nat \<Rightarrow> mem \<Rightarrow> int result" where
  "ulib_strcmp p q m =
     (if m p \<noteq> 0 \<and> m p = m q then ulib_strcmp (p + 1) (q + 1) m
      else Ok (int (unat (m p)) - int (unat (m q))))"

partial_function (option) ulib_strlen_from :: "nat \<Rightarrow> nat \<Rightarrow> mem \<Rightarrow> nat result" where
  "ulib_strlen_from s n m = (if m (s + n) \<noteq> 0 then ulib_strlen_from s (n + 1) m else Ok n)"

definition ulib_strlen :: "nat \<Rightarrow> mem \<Rightarrow> nat result" where
  "ulib_strlen s m = ulib_strlen_from s 0 m"

definition ulib_memset :: "nat \<Rightarrow> int \<Rightarrow> nat \<Rightarrow> mem \<Rightarrow> nat \<times> mem" where
  "ulib_memset dst c n m = (dst, fold (\<lambda>i m. m(dst + i := of_int c)) [0..<n] m)"

partial_function (option) ulib_strchr :: "nat \<Rightarrow> 8 word \<Rightarrow> mem \<Rightarrow> nat result" where
  "ulib_strchr s c m =
     (if m s \<noteq> 0 then if m s = c then Ok s else ulib_strchr (s + 1) c m else Ok 0)"

text \<open>The accumulator is an \<open>int\<close>; a result that does not fit in 32 bits is an overflow,
  which the C standard leaves undefined.\<close>

partial_function (option) ulib_atoi_loop :: "int \<Rightarrow> nat \<Rightarrow> mem \<Rightarrow> int result" where
  "ulib_atoi_loop n s m =
     (if 48 \<le> m s \<and> m s \<le> 57
      then let n = n * 10 + int (unat (m s)) - 48
           in if n < 2 ^ 31 then ulib_atoi_loop n (s + 1) m else Err Overflow
      else Ok n)"

definition ulib_atoi :: "nat \<Rightarrow> mem \<Rightarrow> int result" where
  "ulib_atoi s m = ulib_atoi_loop 0 s m"

definition ulib_memmove :: "nat \<Rightarrow> nat \<Rightarrow> int \<Rightarrow> mem \<Rightarrow> nat \<times> mem" where
  "ulib_memmove vdst vsrc n m =
     (if vsrc > vdst then (vdst, copy_up (nat n) vdst vsrc m)
      else (vdst, copy_down (nat n) (nat (int vdst + n)) (nat (int vsrc + n)) m))"

fun ulib_memcmp :: "nat \<Rightarrow> nat \<Rightarrow> nat \<Rightarrow> mem \<Rightarrow> int" where
  "ulib_memcmp p1 p2 0 m = 0"
| "ulib_memcmp p1 p2 (Suc n) m =
     (if m p1 \<noteq> m p2 then int (unat (m p1)) - int (unat (m p2)) else ulib_memcmp (p1 + 1) (p2 + 1) n m)"

text \<open>The \<open>uint\<close> argument is converted to the \<open>int\<close> of \<open>memmove\<close>.\<close>

definition ulib_memcpy :: "nat \<Rightarrow> nat \<Rightarrow> nat \<Rightarrow> mem \<Rightarrow> nat \<times> mem" where
  "ulib_memcpy dst src n m =
     ulib_memmove dst src (if n < 2 ^ 31 then int n else int n - 2 ^ 32) m"

section \<open>Copying\<close>

text \<open>The memory in which the \<open>n\<close> bytes from \<open>dst\<close> on are those from \<open>src\<close> on in \<open>m\<close>.\<close>

definition copied :: "nat \<Rightarrow> nat \<Rightarrow> nat \<Rightarrow> mem \<Rightarrow> mem" where
  "copied dst src n m = (\<lambda>a. if dst \<le> a \<and> a < dst + n then m (src + (a - dst)) else m a)"

lemma copy_up_copied: "d \<le> s \<or> s + n \<le> d \<Longrightarrow> copy_up n d s m = copied d s n m"
proof (induction n arbitrary: d s m)
  case 0
  then show ?case by (auto simp: copied_def fun_eq_iff)
next
  case (Suc n)
  then have "copy_up n (d + 1) (s + 1) (m(d := m s)) = copied (d + 1) (s + 1) n (m(d := m s))"
    by (intro Suc.IH) auto
  also have "\<dots> = copied d s (Suc n) m"
  proof
    fix a
    show "copied (d + 1) (s + 1) n (m(d := m s)) a = copied d s (Suc n) m a"
    proof (cases "d + 1 \<le> a \<and> a < d + 1 + n")
      case True
      then have "s + 1 + (a - (d + 1)) = s + (a - d)" "s + (a - d) \<noteq> d" using Suc.prems by auto
      then show ?thesis using True by (simp add: copied_def)
    next
      case False
      then show ?thesis by (cases "a = d") (auto simp: copied_def)
    qed
  qed
  finally show ?case by simp
qed

lemma copy_down_copied: "s \<le> d \<Longrightarrow> copy_down n (d + n) (s + n) m = copied d s n m"
proof (induction n arbitrary: m)
  case 0
  then show ?case by (auto simp: copied_def fun_eq_iff)
next
  case (Suc n)
  then have "copy_down n (d + n) (s + n) (m(d + n := m (s + n))) = copied d s n (m(d + n := m (s + n)))"
    by blast
  also have "\<dots> = copied d s (Suc n) m"
    using Suc.prems by (auto simp: copied_def fun_eq_iff)
  finally show ?case by simp
qed

text \<open>C20. Both versions of \<open>memmove\<close>, and \<open>memcpy\<close>, copy as if the source were read
  completely before the destination is written, whatever the overlap of the two ranges, and
  change nothing else; the user version does so for every length that is not negative.\<close>

theorem memmove_copies:
  "memmove dst src n m = (dst, copied dst src n m) \<and> memcpy dst src n m = (dst, copied dst src n m)
   \<and> ulib_memmove dst src (int n) m = (dst, copied dst src n m)"
  using copy_up_copied [of dst src n m] copy_down_copied [of src dst n m]
  by (auto simp: memmove_def memcpy_def ulib_memmove_def copied_def fun_eq_iff nat_add_distrib nat_int_add)

section \<open>C strings\<close>

text \<open>At \<open>a\<close> stands the NUL-terminated string with the bytes \<open>xs\<close>.\<close>

definition cstr :: "mem \<Rightarrow> nat \<Rightarrow> 8 word list \<Rightarrow> bool" where
  "cstr m a xs = ((\<forall>i<length xs. m (a + i) = xs ! i \<and> xs ! i \<noteq> 0) \<and> m (a + length xs) = 0)"

lemma cstr_Nil [simp]: "cstr m a [] = (m a = 0)"
  by (simp add: cstr_def)

lemma cstr_Cons [simp]: "cstr m a (x # xs) = (m a = x \<and> x \<noteq> 0 \<and> cstr m (a + 1) xs)"
proof -
  have "(\<forall>i<Suc n. P i) = (P 0 \<and> (\<forall>i<n. P (Suc i)))" for P n by (auto simp: less_Suc_eq_0_disj)
  then show ?thesis by (auto simp: cstr_def)
qed

lemma cstr_upd: "cstr m a xs \<Longrightarrow> b < a \<or> a + length xs < b \<Longrightarrow> cstr (m(b := x)) a xs"
  by (auto simp: cstr_def)

lemma cstr_agree: "cstr m a xs \<Longrightarrow> agree m m' a (length xs + 1) \<Longrightarrow> cstr m' a xs"
  by (auto simp: cstr_def agree_def)

subsection \<open>Lengths\<close>

lemma strlen_from_cstr: "cstr m (s + n) xs \<Longrightarrow> strlen_from s n m = Ok (n + length xs)"
proof (induction xs arbitrary: n)
  case Nil
  then show ?case by (subst strlen_from.simps) simp
next
  case (Cons x xs)
  then show ?case using Cons.IH [of "n + 1"] by (subst strlen_from.simps) simp
qed

lemma ulib_strlen_from_cstr: "cstr m (s + n) xs \<Longrightarrow> ulib_strlen_from s n m = Ok (n + length xs)"
proof (induction xs arbitrary: n)
  case Nil
  then show ?case by (subst ulib_strlen_from.simps) simp
next
  case (Cons x xs)
  then show ?case using Cons.IH [of "n + 1"] by (subst ulib_strlen_from.simps) simp
qed

subsection \<open>Comparison\<close>

text \<open>The order of the first difference, the shorter string first.\<close>

fun byte_cmp :: "8 word list \<Rightarrow> 8 word list \<Rightarrow> int" where
  "byte_cmp [] [] = 0"
| "byte_cmp [] (y # ys) = - int (unat y)"
| "byte_cmp (x # xs) [] = int (unat x)"
| "byte_cmp (x # xs) (y # ys) = (if x = y then byte_cmp xs ys else int (unat x) - int (unat y))"

lemma byte_cmp_zero: "0 \<notin> set xs \<Longrightarrow> 0 \<notin> set ys \<Longrightarrow> byte_cmp xs ys = 0 \<longleftrightarrow> xs = ys"
  by (induction xs ys rule: byte_cmp.induct) (auto simp: word_uint_eq_iff)

lemma byte_cmp_sym: "byte_cmp ys xs = - byte_cmp xs ys"
  by (induction xs ys rule: byte_cmp.induct) auto

lemma strncmp_cstr: "cstr m p xs \<Longrightarrow> cstr m q ys \<Longrightarrow> strncmp p q n m = byte_cmp (take n xs) (take n ys)"
proof (induction n arbitrary: p q xs ys)
  case 0
  then show ?case by simp
next
  case (Suc n)
  then show ?case by (cases xs; cases ys) auto
qed

lemma ulib_strcmp_cstr: "cstr m p xs \<Longrightarrow> cstr m q ys \<Longrightarrow> ulib_strcmp p q m = Ok (byte_cmp xs ys)"
proof (induction xs arbitrary: p q ys)
  case Nil
  then show ?case by (cases ys) (subst ulib_strcmp.simps, simp)+
next
  case (Cons x xs)
  show ?case
  proof (cases ys)
    case Nil
    then show ?thesis using Cons.prems by (subst ulib_strcmp.simps) simp
  next
    case (Cons y zs)
    then show ?thesis using Cons.prems Cons.IH [of "p + 1" "q + 1" zs] by (subst ulib_strcmp.simps) auto
  qed
qed

lemma cstr_nonzero: "cstr m a xs \<Longrightarrow> 0 \<notin> set xs"
  by (auto simp: cstr_def in_set_conv_nth)

text \<open>C21. On NUL-terminated strings the comparisons terminate and return the difference at the
  first position where the strings differ; the result is 0 exactly for equal strings
  (\<open>strncmp\<close>: equal in their first \<open>n\<close> bytes), and the length functions return the length.\<close>

theorem strcmp_compares:
  assumes "cstr m p xs" and "cstr m q ys"
  shows "ulib_strcmp p q m = Ok (byte_cmp xs ys) \<and> (byte_cmp xs ys = 0 \<longleftrightarrow> xs = ys)
    \<and> strncmp p q n m = byte_cmp (take n xs) (take n ys) \<and> (strncmp p q n m = 0 \<longleftrightarrow> take n xs = take n ys)
    \<and> strlen p m = Ok (length xs) \<and> ulib_strlen p m = Ok (length xs)"
proof -
  have z: "0 \<notin> set xs" "0 \<notin> set ys" using assms cstr_nonzero by auto
  have zt: "0 \<notin> set (take n xs)" "0 \<notin> set (take n ys)" using z in_set_takeD by metis+
  show ?thesis
    using ulib_strcmp_cstr [OF assms] strncmp_cstr [OF assms, of n] byte_cmp_zero [OF z] byte_cmp_zero [OF zt]
      strlen_from_cstr [of m p 0 xs] ulib_strlen_from_cstr [of m p 0 xs] assms(1)
    by (simp add: strlen_def ulib_strlen_def)
qed

definition two_strings :: mem where
  "two_strings = (\<lambda>_. 0)(0 := 97, 1 := 98, 8 := 97)"

theorem strcmp_compares_witness:
  "ulib_strcmp 0 8 two_strings = Ok (byte_cmp [97, 98] [97]) \<and> byte_cmp [97, 98] [97] = 98
   \<and> strncmp 0 8 1 two_strings = 0"
  using strcmp_compares [of two_strings 0 "[97, 98]" 8 "[97]" 1] by (simp add: two_strings_def)

subsection \<open>Bounded copies\<close>

text \<open>The destination \<open>s \<dots> s + n - 1\<close> and the source string do not overlap.\<close>

definition apart :: "nat \<Rightarrow> nat \<Rightarrow> nat \<Rightarrow> 8 word list \<Rightarrow> bool" where
  "apart s n t xs = (s + n \<le> t \<or> t + length xs < s)"

lemma safestrcpy_copy_cstr:
  assumes "cstr m t xs" and "apart s (nat n) t xs" and "0 < n" and "safestrcpy_copy n s t m = (s', m')"
  shows "s \<le> s' \<and> s' < s + nat n \<and> cstr (m'(s' := 0)) s (take (nat n - 1) xs)
    \<and> (\<forall>a. a < s \<or> s + nat n \<le> a \<longrightarrow> m' a = m a)"
  using assms
proof (induction xs arbitrary: n s t m)
  case Nil
  then show ?case
    by (auto simp: safestrcpy_copy.simps [of n s t m] apart_def Let_def split: if_splits)
next
  case (Cons x xs)
  have t: "m t = x" "x \<noteq> 0" "cstr m (t + 1) xs" using Cons.prems(1) by auto
  show ?case
  proof (cases "n - 1 > 0")
    case False
    then show ?thesis using Cons.prems by (auto simp: safestrcpy_copy.simps [of n s t m])
  next
    case True
    then have nn: "nat n = Suc (nat (n - 1))" "nat (n - 1) - 1 = nat n - 2" by auto
    let ?m = "m(s := x)"
    have rest: "safestrcpy_copy (n - 1) (s + 1) (t + 1) ?m = (s', m')"
      using Cons.prems(4) True t by (simp add: safestrcpy_copy.simps [of n s t m] Let_def)
    have src: "cstr ?m (t + 1) xs"
      using t(3) Cons.prems(2) nn by (intro cstr_upd) (auto simp: apart_def)
    have ap: "apart (s + 1) (nat (n - 1)) (t + 1) xs" using Cons.prems(2) nn by (auto simp: apart_def)
    have IH: "s + 1 \<le> s'" "s' < s + 1 + nat (n - 1)" "cstr (m'(s' := 0)) (s + 1) (take (nat (n - 1) - 1) xs)"
      "\<And>a. a < s + 1 \<or> s + 1 + nat (n - 1) \<le> a \<Longrightarrow> m' a = ?m a"
      using Cons.IH [OF src ap True rest] by blast+
    define m2 where "m2 = m'(s' := 0)"
    have "m2 s = x" using IH(1) IH(4) [of s] by (simp add: m2_def)
    moreover have "take (nat n - 1) (x # xs) = x # take (nat (n - 1) - 1) xs"
      using True nn by (cases "nat n - 1") auto
    ultimately have "cstr m2 s (take (nat n - 1) (x # xs))"
      using IH(3) t(2) unfolding m2_def [symmetric] by simp
    moreover have "s \<le> s'" "s' < s + nat n" using IH(1,2) nn by auto
    moreover have "m' a = m a" if "a < s \<or> s + nat n \<le> a" for a using IH(4) [of a] nn that by auto
    ultimately show ?thesis unfolding m2_def by blast
  qed
qed

lemma strncpy_pad_zero:
  "strncpy_pad n s m = (\<lambda>a. if s \<le> a \<and> a < s + nat n then 0 else m a)"
proof (induction n s m rule: strncpy_pad.induct)
  case (1 n s m)
  show ?case
  proof (cases "n > 0")
    case True
    then have nn: "nat n = Suc (nat (n - 1))" by simp
    have "strncpy_pad n s m = strncpy_pad (n - 1) (s + 1) (m(s := 0))"
      using True by (subst strncpy_pad.simps) (simp only: if_True)
    also have "\<dots> = (\<lambda>a. if s + 1 \<le> a \<and> a < s + 1 + nat (n - 1) then 0 else (m(s := 0)) a)"
      using 1 [OF True] .
    finally show ?thesis unfolding nn by (auto simp: fun_eq_iff)
  next
    case False
    then show ?thesis by (subst strncpy_pad.simps) (auto simp: fun_eq_iff)
  qed
qed

lemma strncpy_copy_cstr:
  assumes "cstr m t xs" and "apart s (nat n) t xs" and "strncpy_copy n s t m = (n', s', m')"
  shows "strncpy_pad n' s' m' =
    (\<lambda>a. if s \<le> a \<and> a < s + nat n then if a - s < length xs then xs ! (a - s) else 0 else m a)"
  using assms
proof (induction xs arbitrary: n s t m)
  case Nil
  show ?case
  proof (cases "n > 0")
    case True
    then have nn: "nat n = Suc (nat (n - 1))" by simp
    have r: "n' = n - 1" "s' = s + 1" "m' = m(s := 0)"
      using Nil.prems True by (simp_all add: strncpy_copy.simps [of n s t m] Let_def)
    show ?thesis unfolding r strncpy_pad_zero nn by (auto simp: fun_eq_iff)
  next
    case False
    then show ?thesis using Nil.prems by (auto simp: strncpy_copy.simps [of n s t m] strncpy_pad_zero fun_eq_iff)
  qed
next
  case (Cons x xs)
  have t: "m t = x" "x \<noteq> 0" "cstr m (t + 1) xs" using Cons.prems(1) by auto
  show ?case
  proof (cases "n > 0")
    case False
    then show ?thesis using Cons.prems by (auto simp: strncpy_copy.simps [of n s t m] strncpy_pad_zero fun_eq_iff)
  next
    case True
    then have nn: "nat n = Suc (nat (n - 1))" by auto
    let ?m = "m(s := x)"
    have rest: "strncpy_copy (n - 1) (s + 1) (t + 1) ?m = (n', s', m')"
      using Cons.prems(3) True t by (simp add: strncpy_copy.simps [of n s t m] Let_def)
    have src: "cstr ?m (t + 1) xs"
      using t(3) Cons.prems(2) nn by (intro cstr_upd) (auto simp: apart_def)
    have ap: "apart (s + 1) (nat (n - 1)) (t + 1) xs" using Cons.prems(2) nn by (auto simp: apart_def)
    have IH: "strncpy_pad n' s' m' a = (if s + 1 \<le> a \<and> a < s + 1 + nat (n - 1)
        then if a - (s + 1) < length xs then xs ! (a - (s + 1)) else 0 else ?m a)" for a
      using Cons.IH [OF src ap rest] by (simp only:)
    show ?thesis
    proof
      fix a
      consider "a = s" | "s < a" | "a < s" by linarith
      then show "strncpy_pad n' s' m' a =
          (if s \<le> a \<and> a < s + nat n then if a - s < length (x # xs) then (x # xs) ! (a - s) else 0 else m a)"
      proof cases
        case 2
        then have "a - s = Suc (a - (s + 1))" by simp
        then show ?thesis unfolding IH using 2 nn by auto
      qed (unfold IH, use nn in auto)
    qed
  qed
qed

text \<open>C22. \<open>safestrcpy\<close> with a positive size always leaves a NUL-terminated string, the first
  \<open>n - 1\<close> bytes of the source, and writes only to the \<open>n\<close> bytes of the destination; \<open>strncpy\<close>
  writes exactly the \<open>n\<close> bytes of the destination, the source padded with NUL bytes, and
  terminates the string only when the source is shorter than \<open>n\<close>.\<close>

theorem bounded_copies:
  assumes "cstr m t xs" and "apart s (nat n) t xs"
  shows "(0 < n \<longrightarrow> (\<exists>m'. safestrcpy s t n m = (s, m') \<and> cstr m' s (take (nat n - 1) xs)
        \<and> (\<forall>a. a < s \<or> s + nat n \<le> a \<longrightarrow> m' a = m a)))
    \<and> (n \<le> 0 \<longrightarrow> safestrcpy s t n m = (s, m))
    \<and> strncpy s t n m =
      (s, \<lambda>a. if s \<le> a \<and> a < s + nat n then if a - s < length xs then xs ! (a - s) else 0 else m a)"
proof (intro conjI impI)
  assume n: "0 < n"
  obtain s' m' where r: "safestrcpy_copy n s t m = (s', m')" by fastforce
  from safestrcpy_copy_cstr [OF assms n r]
  show "\<exists>m'. safestrcpy s t n m = (s, m') \<and> cstr m' s (take (nat n - 1) xs)
      \<and> (\<forall>a. a < s \<or> s + nat n \<le> a \<longrightarrow> m' a = m a)"
    using n r by (auto simp: safestrcpy_def)
next
  obtain n' s' m' where r: "strncpy_copy n s t m = (n', s', m')" by (metis prod_cases3)
  show "strncpy s t n m =
      (s, \<lambda>a. if s \<le> a \<and> a < s + nat n then if a - s < length xs then xs ! (a - s) else 0 else m a)"
    using strncpy_copy_cstr [OF assms r] by (simp add: strncpy_def r)
qed (simp add: safestrcpy_def)

theorem bounded_copies_witness:
  "\<exists>m'. safestrcpy 20 0 2 two_strings = (20, m') \<and> cstr m' 20 [97]"
  using bounded_copies [of two_strings 0 "[97, 98]" 20 2] by (auto simp: two_strings_def apart_def)

end
