(* ===== verification/Riscv.thy ===== *)
theory Riscv
  imports Spinlock
begin

unbundle bit_operations_syntax

text \<open>
  The machine registers of a hart (\<^verbatim>\<open>kernel/riscv.h\<close>), the code that runs in machine mode
  at boot (\<^verbatim>\<open>kernel/start.c\<close>), and the page-table macros of \<^verbatim>\<open>kernel/riscv.h\<close>.

  An accessor is the one \<open>csrr\<close>, \<open>csrw\<close> or \<open>mv\<close> instruction of its body, on a file of 64-bit
  registers. The hardware's rules on which bits of a register can be written, and which
  registers are views of others, are not part of the sources and are not modelled.
\<close>

section \<open>Registers\<close>

datatype csr =
    Mhartid | Mstatus | Mepc | Sstatus | Sip | Sie | Mie | Sepc | Medeleg | Mideleg | Stvec
  | Stimecmp | Menvcfg | Pmpcfg0 | Pmpaddr0 | Satp | Scause | Stval | Mcounteren | Time
  | Sp | Tp | Ra

datatype mode = Machine | Supervisor | User

record hart =
  reg  :: "csr \<Rightarrow> 64 word"
  pc   :: "64 word"
  priv :: mode
  tlb_flushes :: nat   \<comment> \<open>the number of \<open>sfence.vma zero, zero\<close> executed\<close>

definition csrw :: "csr \<Rightarrow> 64 word \<Rightarrow> 'z hart_scheme \<Rightarrow> 'z hart_scheme" where
  "csrw r x h = h\<lparr>reg := (reg h)(r := x)\<rparr>"

definition MSTATUS_MPP_MASK :: "64 word" where "MSTATUS_MPP_MASK = push_bit 11 3"
definition MSTATUS_MPP_M :: "64 word" where "MSTATUS_MPP_M = push_bit 11 3"
definition MSTATUS_MPP_S :: "64 word" where "MSTATUS_MPP_S = push_bit 11 1"
definition SSTATUS_SPP :: "64 word" where "SSTATUS_SPP = push_bit 8 1"
definition SSTATUS_SPIE :: "64 word" where "SSTATUS_SPIE = push_bit 5 1"
definition SSTATUS_SIE :: "64 word" where "SSTATUS_SIE = push_bit 1 1"
definition SIE_SEIE :: "64 word" where "SIE_SEIE = push_bit 9 1"
definition SIE_STIE :: "64 word" where "SIE_STIE = push_bit 5 1"
definition MIE_STIE :: "64 word" where "MIE_STIE = push_bit 5 1"
definition SATP_SV39 :: "64 word" where "SATP_SV39 = push_bit 60 8"

definition r_mhartid :: "'z hart_scheme \<Rightarrow> 64 word" where "r_mhartid h = reg h Mhartid"
definition r_mstatus :: "'z hart_scheme \<Rightarrow> 64 word" where "r_mstatus h = reg h Mstatus"
definition r_sstatus :: "'z hart_scheme \<Rightarrow> 64 word" where "r_sstatus h = reg h Sstatus"
definition r_sip :: "'z hart_scheme \<Rightarrow> 64 word" where "r_sip h = reg h Sip"
definition r_sie :: "'z hart_scheme \<Rightarrow> 64 word" where "r_sie h = reg h Sie"
definition r_mie :: "'z hart_scheme \<Rightarrow> 64 word" where "r_mie h = reg h Mie"
definition r_sepc :: "'z hart_scheme \<Rightarrow> 64 word" where "r_sepc h = reg h Sepc"
definition r_medeleg :: "'z hart_scheme \<Rightarrow> 64 word" where "r_medeleg h = reg h Medeleg"
definition r_mideleg :: "'z hart_scheme \<Rightarrow> 64 word" where "r_mideleg h = reg h Mideleg"
definition r_stvec :: "'z hart_scheme \<Rightarrow> 64 word" where "r_stvec h = reg h Stvec"
definition r_stimecmp :: "'z hart_scheme \<Rightarrow> 64 word" where "r_stimecmp h = reg h Stimecmp"
definition r_menvcfg :: "'z hart_scheme \<Rightarrow> 64 word" where "r_menvcfg h = reg h Menvcfg"
definition r_satp :: "'z hart_scheme \<Rightarrow> 64 word" where "r_satp h = reg h Satp"
definition r_scause :: "'z hart_scheme \<Rightarrow> 64 word" where "r_scause h = reg h Scause"
definition r_stval :: "'z hart_scheme \<Rightarrow> 64 word" where "r_stval h = reg h Stval"
definition r_mcounteren :: "'z hart_scheme \<Rightarrow> 64 word" where "r_mcounteren h = reg h Mcounteren"
definition r_time :: "'z hart_scheme \<Rightarrow> 64 word" where "r_time h = reg h Time"
definition r_sp :: "'z hart_scheme \<Rightarrow> 64 word" where "r_sp h = reg h Sp"
definition r_tp :: "'z hart_scheme \<Rightarrow> 64 word" where "r_tp h = reg h Tp"
definition r_ra :: "'z hart_scheme \<Rightarrow> 64 word" where "r_ra h = reg h Ra"

definition w_mstatus :: "64 word \<Rightarrow> 'z hart_scheme \<Rightarrow> 'z hart_scheme" where "w_mstatus x h = csrw Mstatus x h"
definition w_mepc :: "64 word \<Rightarrow> 'z hart_scheme \<Rightarrow> 'z hart_scheme" where "w_mepc x h = csrw Mepc x h"
definition w_sstatus :: "64 word \<Rightarrow> 'z hart_scheme \<Rightarrow> 'z hart_scheme" where "w_sstatus x h = csrw Sstatus x h"
definition w_sip :: "64 word \<Rightarrow> 'z hart_scheme \<Rightarrow> 'z hart_scheme" where "w_sip x h = csrw Sip x h"
definition w_sie :: "64 word \<Rightarrow> 'z hart_scheme \<Rightarrow> 'z hart_scheme" where "w_sie x h = csrw Sie x h"
definition w_mie :: "64 word \<Rightarrow> 'z hart_scheme \<Rightarrow> 'z hart_scheme" where "w_mie x h = csrw Mie x h"
definition w_sepc :: "64 word \<Rightarrow> 'z hart_scheme \<Rightarrow> 'z hart_scheme" where "w_sepc x h = csrw Sepc x h"
definition w_medeleg :: "64 word \<Rightarrow> 'z hart_scheme \<Rightarrow> 'z hart_scheme" where "w_medeleg x h = csrw Medeleg x h"
definition w_mideleg :: "64 word \<Rightarrow> 'z hart_scheme \<Rightarrow> 'z hart_scheme" where "w_mideleg x h = csrw Mideleg x h"
definition w_stvec :: "64 word \<Rightarrow> 'z hart_scheme \<Rightarrow> 'z hart_scheme" where "w_stvec x h = csrw Stvec x h"
definition w_stimecmp :: "64 word \<Rightarrow> 'z hart_scheme \<Rightarrow> 'z hart_scheme" where "w_stimecmp x h = csrw Stimecmp x h"
definition w_menvcfg :: "64 word \<Rightarrow> 'z hart_scheme \<Rightarrow> 'z hart_scheme" where "w_menvcfg x h = csrw Menvcfg x h"
definition w_pmpcfg0 :: "64 word \<Rightarrow> 'z hart_scheme \<Rightarrow> 'z hart_scheme" where "w_pmpcfg0 x h = csrw Pmpcfg0 x h"
definition w_pmpaddr0 :: "64 word \<Rightarrow> 'z hart_scheme \<Rightarrow> 'z hart_scheme" where "w_pmpaddr0 x h = csrw Pmpaddr0 x h"
definition w_satp :: "64 word \<Rightarrow> 'z hart_scheme \<Rightarrow> 'z hart_scheme" where "w_satp x h = csrw Satp x h"
definition w_mcounteren :: "64 word \<Rightarrow> 'z hart_scheme \<Rightarrow> 'z hart_scheme" where "w_mcounteren x h = csrw Mcounteren x h"
definition w_tp :: "64 word \<Rightarrow> 'z hart_scheme \<Rightarrow> 'z hart_scheme" where "w_tp x h = csrw Tp x h"

lemmas csr_defs = csrw_def r_mhartid_def r_mstatus_def r_sstatus_def r_sip_def r_sie_def r_mie_def r_sepc_def r_medeleg_def r_mideleg_def r_stvec_def r_stimecmp_def r_menvcfg_def r_satp_def r_scause_def r_stval_def r_mcounteren_def r_time_def r_sp_def r_tp_def r_ra_def w_mstatus_def w_mepc_def w_sstatus_def w_sip_def w_sie_def w_mie_def w_sepc_def w_medeleg_def w_mideleg_def w_stvec_def w_stimecmp_def w_menvcfg_def w_pmpcfg0_def w_pmpaddr0_def w_satp_def w_mcounteren_def w_tp_def

definition sfence_vma :: "'z hart_scheme \<Rightarrow> 'z hart_scheme" where
  "sfence_vma h = h\<lparr>tlb_flushes := Suc (tlb_flushes h)\<rparr>"

definition MAKE_SATP :: "nat \<Rightarrow> 64 word" where
  "MAKE_SATP pagetable = SATP_SV39 OR drop_bit 12 (of_nat pagetable)"

text \<open>The interrupt accessors on the \<open>sstatus\<close> register.\<close>

definition csr_intr_on :: "'z hart_scheme \<Rightarrow> 'z hart_scheme" where
  "csr_intr_on h = w_sstatus (r_sstatus h OR SSTATUS_SIE) h"

definition csr_intr_off :: "'z hart_scheme \<Rightarrow> 'z hart_scheme" where
  "csr_intr_off h = w_sstatus (r_sstatus h AND NOT SSTATUS_SIE) h"

definition csr_intr_get :: "'z hart_scheme \<Rightarrow> bool" where
  "csr_intr_get h = (let x = r_sstatus h in x AND SSTATUS_SIE \<noteq> 0)"

section \<open>Boot in machine mode\<close>

definition timerinit :: "'z hart_scheme \<Rightarrow> 'z hart_scheme" where
  "timerinit h =
     (let h = w_mie (r_mie h OR MIE_STIE) h;
          h = w_menvcfg (r_menvcfg h OR push_bit 63 1) h;
          h = w_mcounteren (r_mcounteren h OR 2) h
      in w_stimecmp (r_time h + 1000000) h)"

text \<open>The \<open>mret\<close> instruction: to the address in \<open>mepc\<close>, in the mode of \<open>mstatus.MPP\<close>.\<close>

definition mret :: "'z hart_scheme \<Rightarrow> 'z hart_scheme" where
  "mret h =
     (let mpp = drop_bit 11 (reg h Mstatus) AND 3
      in h\<lparr>pc := reg h Mepc, priv := (if mpp = 3 then Machine else if mpp = 1 then Supervisor else User)\<rparr>)"

text \<open>\<open>r_mhartid\<close> is read into an \<open>int\<close> and sign-extended into \<open>tp\<close>.\<close>

definition start :: "64 word \<Rightarrow> 'z hart_scheme \<Rightarrow> 'z hart_scheme" where
  "start main h =
     (let x = r_mstatus h;
          x = x AND NOT MSTATUS_MPP_MASK;
          x = x OR MSTATUS_MPP_S;
          h = w_mstatus x h;
          h = w_mepc main h;
          h = w_satp 0 h;
          h = w_medeleg 0xffff h;
          h = w_mideleg 0xffff h;
          h = w_sie (r_sie h OR SIE_SEIE OR SIE_STIE) h;
          h = w_pmpaddr0 0x3fffffffffffff h;
          h = w_pmpcfg0 0xf h;
          h = timerinit h;
          id = signed_take_bit 31 (r_mhartid h);
          h = w_tp id h
      in mret h)"

section \<open>Page-table macros\<close>

abbreviation (input) PGSHIFT :: nat where "PGSHIFT \<equiv> 12"
abbreviation (input) PTE_V :: nat where "PTE_V \<equiv> 1"
abbreviation (input) PTE_R :: nat where "PTE_R \<equiv> 2"
abbreviation (input) PTE_W :: nat where "PTE_W \<equiv> 4"
abbreviation (input) PTE_X :: nat where "PTE_X \<equiv> 8"
abbreviation (input) PTE_U :: nat where "PTE_U \<equiv> 16"
abbreviation (input) MAXVA :: nat where "MAXVA \<equiv> 0x4000000000"

definition PGROUNDDOWN :: "nat \<Rightarrow> nat" where
  "PGROUNDDOWN a = a div 4096 * 4096"

definition PA2PTE :: "nat \<Rightarrow> nat" where
  "PA2PTE pa = push_bit 10 (drop_bit 12 pa)"

definition PTE2PA :: "nat \<Rightarrow> nat" where
  "PTE2PA pte = push_bit 12 (drop_bit 10 pte) mod 2 ^ 64"

definition PTE_FLAGS :: "nat \<Rightarrow> nat" where
  "PTE_FLAGS pte = pte AND 0x3FF"

abbreviation (input) PXMASK :: nat where "PXMASK \<equiv> 0x1FF"

definition PXSHIFT :: "nat \<Rightarrow> nat" where
  "PXSHIFT level = PGSHIFT + 9 * level"

definition PX :: "nat \<Rightarrow> nat \<Rightarrow> nat" where
  "PX level va = drop_bit (PXSHIFT level) va AND PXMASK"

section \<open>Properties\<close>

lemma bit_mask_words:
  "bit SSTATUS_SIE n = (n = 1)" "bit MSTATUS_MPP_S n = (n = 11)" "bit MSTATUS_MPP_MASK n = (n = 11 \<or> n = 12)"
  "bit (3 :: 64 word) n = (n = 0 \<or> n = 1)" "bit SIE_SEIE n = (n = 9)" "bit SIE_STIE n = (n = 5)" "bit MIE_STIE n = (n = 5)"
proof -
  have p: "bit (2 ^ m :: 64 word) n = (n < 64 \<and> n = m)" for m by (auto simp: bit_exp_iff)
  have e: "SSTATUS_SIE = 2 ^ 1" "MSTATUS_MPP_S = 2 ^ 11" "MSTATUS_MPP_MASK = 2 ^ 11 OR 2 ^ 12" "(3 :: 64 word) = 2 ^ 0 OR 2 ^ 1"
    "SIE_SEIE = 2 ^ 9" "SIE_STIE = 2 ^ 5" "MIE_STIE = 2 ^ 5"
    by (simp_all add: SSTATUS_SIE_def MSTATUS_MPP_S_def MSTATUS_MPP_MASK_def SIE_SEIE_def SIE_STIE_def MIE_STIE_def)
  show "bit SSTATUS_SIE n = (n = 1)" "bit MSTATUS_MPP_S n = (n = 11)" "bit MSTATUS_MPP_MASK n = (n = 11 \<or> n = 12)"
    "bit (3 :: 64 word) n = (n = 0 \<or> n = 1)" "bit SIE_SEIE n = (n = 9)" "bit SIE_STIE n = (n = 5)" "bit MIE_STIE n = (n = 5)"
    unfolding e by (auto simp only: bit_or_iff p)
qed

lemmas word_bit_simps = bit_and_iff bit_or_iff bit_not_iff bit_drop_bit_eq bit_mask_words

lemma csr_intr_get_bit: "csr_intr_get h = bit (reg h Sstatus) 1"
proof -
  have "reg h Sstatus AND SSTATUS_SIE = (if bit (reg h Sstatus) 1 then SSTATUS_SIE else 0)"
    by (rule bit_eqI) (auto simp: word_bit_simps)
  then show ?thesis by (simp add: csr_intr_get_def r_sstatus_def SSTATUS_SIE_def)
qed

text \<open>The lock state whose interrupt bits are those of the harts' \<open>sstatus\<close> registers.\<close>

definition with_harts :: "(nat \<Rightarrow> hart) \<Rightarrow> 'z klocks_scheme \<Rightarrow> 'z klocks_scheme" where
  "with_harts h s = s\<lparr>sie := \<lambda>c. csr_intr_get (h c)\<rparr>"

text \<open>The accessors on the \<open>sstatus\<close> register implement the interrupt bit of the spin lock
  model: reading, setting and clearing \<open>SSTATUS_SIE\<close> of a hart is reading, setting and clearing
  its bit there, and changes no other bit of \<open>sstatus\<close> and no other register.\<close>

theorem intr_refines:
  "intr_get c (with_harts h s) = csr_intr_get (h c)
    \<and> intr_on c (with_harts h s) = with_harts (h(c := csr_intr_on (h c))) s
    \<and> intr_off c (with_harts h s) = with_harts (h(c := csr_intr_off (h c))) s
    \<and> (n = 1 \<or> bit (reg (csr_intr_on (h c)) Sstatus) n = bit (reg (h c) Sstatus) n)
    \<and> (r = Sstatus \<or> reg (csr_intr_on (h c)) r = reg (h c) r \<and> reg (csr_intr_off (h c)) r = reg (h c) r)"
proof -
  show ?thesis
    unfolding with_harts_def intr_get_def intr_on_def intr_off_def csr_intr_get_bit
      csr_intr_on_def csr_intr_off_def csr_defs
    by (auto simp: fun_eq_iff word_bit_simps)
qed

text \<open>C23. \<open>start\<close> leaves machine mode for \<open>main\<close> in supervisor mode, with paging off, all
  traps delegated, the supervisor's external and timer interrupts enabled, the first timer
  interrupt a million ticks ahead, and the hart's id in \<open>tp\<close>.\<close>

theorem start_enters_main:
  "pc (start main h) = main \<and> priv (start main h) = Supervisor \<and> r_satp (start main h) = 0
    \<and> r_medeleg (start main h) = 0xffff \<and> r_mideleg (start main h) = 0xffff
    \<and> bit (r_sie (start main h)) 9 \<and> bit (r_sie (start main h)) 5
    \<and> bit (r_mie (start main h)) 5 \<and> bit (r_menvcfg (start main h)) 63 \<and> bit (r_mcounteren (start main h)) 1
    \<and> r_stimecmp (start main h) = r_time h + 1000000 \<and> r_tp (start main h) = signed_take_bit 31 (r_mhartid h)
    \<and> csr_intr_get (start main h) = csr_intr_get h"
proof -
  have m: "drop_bit 11 (x AND NOT MSTATUS_MPP_MASK OR MSTATUS_MPP_S) AND 3 = (1 :: 64 word)" for x :: "64 word"
  proof (rule bit_eqI)
    fix n assume "possible_bit TYPE(64 word) n"
    then show "bit (drop_bit 11 (x AND NOT MSTATUS_MPP_MASK OR MSTATUS_MPP_S) AND 3) n = bit (1 :: 64 word) n"
      by (simp only: word_bit_simps bit_1_iff comp_def) auto
  qed
  then have m: "(drop_bit 11 x AND drop_bit 11 (NOT MSTATUS_MPP_MASK) OR drop_bit 11 MSTATUS_MPP_S) AND 3 = 1" for x :: "64 word"
    by (simp only: drop_bit_and drop_bit_or)
  show ?thesis
    by (simp add: start_def timerinit_def mret_def Let_def csr_defs csr_intr_get_bit word_bit_simps) (rule m)
qed

lemma and_low_bits: "(n::nat) AND 0x1FF = n mod 2 ^ 9" "n AND 0x3FF = n mod 2 ^ 10"
proof -
  have "(mask 9 :: nat) = 0x1FF" "(mask 10 :: nat) = 0x3FF" by (simp_all add: mask_eq_exp_minus_1)
  then show "n AND 0x1FF = n mod 2 ^ 9" "n AND 0x3FF = n mod 2 ^ 10"
    by (metis take_bit_eq_mask take_bit_eq_mod)+
qed

lemma PX_div: "PX level va = va div 2 ^ (12 + 9 * level) mod 512"
  by (simp add: PX_def PXSHIFT_def and_low_bits drop_bit_eq_div)

lemma or_disjoint:
  assumes "flags < (1024::nat)"
  shows "push_bit 10 n OR flags = n * 1024 + flags"
proof -
  have "push_bit 10 n AND flags = 0"
  proof (rule bit_eqI)
    fix i
    have "take_bit 10 flags = flags" using assms by (simp add: take_bit_nat_eq_self)
    then have "\<not> bit flags i" if "10 \<le> i" using that by (metis bit_take_bit_iff not_le)
    then show "bit (push_bit 10 n AND flags) i = bit (0::nat) i" by (auto simp: bit_and_iff bit_push_bit_iff)
  qed
  then show ?thesis using disjunctive_add_eq_or [of "push_bit 10 n" flags] by (simp add: push_bit_eq_mult)
qed

text \<open>Page-table entries and virtual addresses are split without loss: the entry made for
  a page-aligned physical address and ten bits of flags gives back both, and a virtual address
  is its three 9-bit indices and its offset.\<close>

theorem pte_roundtrip:
  assumes "pa < 2 ^ 56" and "pa mod 4096 = 0" and "flags < 1024" and "va < MAXVA"
  shows "PTE2PA (PA2PTE pa OR flags) = pa \<and> PTE_FLAGS (PA2PTE pa OR flags) = flags
    \<and> PGROUNDDOWN va = PX 2 va * 1073741824 + PX 1 va * 2097152 + PX 0 va * 4096
    \<and> PX 2 va < 256 \<and> PX 1 va < 512 \<and> PX 0 va < 512"
proof -
  have e: "PA2PTE pa OR flags = pa div 4096 * 1024 + flags"
    using or_disjoint [OF assms(3)] by (simp add: PA2PTE_def drop_bit_eq_div)
  have "PTE2PA (PA2PTE pa OR flags) = pa"
    using assms(1-3) unfolding e by (auto simp: PTE2PA_def push_bit_eq_mult drop_bit_eq_div)
  moreover have "PTE_FLAGS (PA2PTE pa OR flags) = flags"
    using assms(3) unfolding e by (simp add: PTE_FLAGS_def and_low_bits)
  moreover have va: "PGROUNDDOWN va = PX 2 va * 1073741824 + PX 1 va * 2097152 + PX 0 va * 4096" "PX 2 va < 256"
  proof -
    define x where "x = va div 4096"
  have "x < 2 ^ 26" using assms(4) by (simp add: x_def less_mult_imp_div_less)
  then have y: "x div 512 div 512 < 256" by (simp add: less_mult_imp_div_less)
  have px: "PX 2 va = x div 512 div 512" "PX 1 va = x div 512 mod 512" "PX 0 va = x mod 512"
    using y by (simp_all add: PX_div x_def div_mult2_eq [symmetric])
  have x: "x = (x div 512 div 512) * 262144 + (x div 512 mod 512) * 512 + x mod 512"
    using div_mult_mod_eq [of x 512] div_mult_mod_eq [of "x div 512" 512] by linarith
    show "PGROUNDDOWN va = PX 2 va * 1073741824 + PX 1 va * 2097152 + PX 0 va * 4096" "PX 2 va < 256"
      unfolding px PGROUNDDOWN_def x_def [symmetric] using y x by linarith+
  qed
  moreover have "PX 1 va < 512" "PX 0 va < 512" by (simp_all add: PX_div)
  ultimately show ?thesis by blast
qed

theorem pte_roundtrip_witness:
  "PTE2PA (PA2PTE 0x80021000 OR 0x17) = 0x80021000 \<and> PTE_FLAGS (PA2PTE 0x80021000 OR 0x17) = 0x17"
  using pte_roundtrip [of "0x80021000" "0x17" 0] by simp

end
