(* ===== verification/Kstate.thy ===== *)
theory Kstate
  imports Kalloc Slab Kstring Riscv
begin

text \<open>
  The state of the kernel proper: the process table (\<^verbatim>\<open>kernel/proc.h\<close>) and the globals of
  \<^verbatim>\<open>kernel/proc.c\<close> and \<^verbatim>\<open>kernel/vm.c\<close>, on top of the physical memory and the slab caches. Processes are their index in
  \<^verbatim>\<open>proc[]\<close>, files their index in the file table, in-memory inodes theirs in the inode table.
\<close>

datatype procstate = UNUSED | USED | SLEEPING | RUNNABLE | RUNNING | ZOMBIE

text \<open>Sleep channels, by the object whose address is used.\<close>

datatype chan =
    ChanProc nat            \<comment> \<open>a \<open>struct proc\<close>\<close>
  | ChanTicks               \<comment> \<open>\<open>&ticks\<close>\<close>
  | ChanSleepLock sleeplockptr
  | ChanLog                 \<comment> \<open>\<open>&log\<close>\<close>
  | ChanPipeRead nat        \<comment> \<open>\<open>&pi->nread\<close>\<close>
  | ChanPipeWrite nat       \<comment> \<open>\<open>&pi->nwrite\<close>\<close>
  | ChanCons                \<comment> \<open>\<open>&cons.r\<close>\<close>
  | ChanTx                  \<comment> \<open>\<open>&tx_chan\<close>\<close>
  | ChanBuf nat             \<comment> \<open>a \<open>struct buf\<close>\<close>
  | ChanDiskFree            \<comment> \<open>\<open>&disk.free[0]\<close>\<close>

record kcontext =
  ctx_ra :: nat
  ctx_sp :: nat
  ctx_s  :: "nat list"      \<comment> \<open>\<open>s0\<close> to \<open>s11\<close>\<close>

record proc =
  p_state     :: procstate
  p_chan      :: "chan option"
  p_killed    :: int
  p_xstate    :: int
  p_pid       :: int
  p_parent    :: "nat option"
  p_kstack    :: nat
  p_sz        :: nat
  p_pagetable :: nat
  p_trapframe :: nat
  p_context   :: kcontext
  p_ofile     :: "nat \<Rightarrow> nat option"
  p_cwd       :: "nat option"
  p_name      :: "8 word list"

record kernel = kslab +
  hartid   :: nat                  \<comment> \<open>the hart that runs the current thread, its register \<open>tp\<close>\<close>
  kernel_pagetable :: nat
  procs    :: "nat \<Rightarrow> proc"
  cpu_proc :: "nat \<Rightarrow> nat option"   \<comment> \<open>\<open>cpus[c].proc\<close>\<close>
  initproc :: "nat option"
  nextpid  :: int
  ticks    :: nat

text \<open>
  What the sources do not fix: the addresses the linker and the compiler choose (of functions,
  of global arrays, of local variables whose address is taken), what happens between the call
  of \<open>swtch\<close> by a thread and its return, that is while other threads run, and the transfer of
  a block between a buffer and the disk and the reads of UART registers, which devices perform.
\<close>

record 's kparam =
  k_end        :: nat
  k_etext      :: nat
  k_trampoline :: nat
  k_forkret    :: nat
  k_auto       :: "string \<Rightarrow> nat"           \<comment> \<open>the address of a local variable\<close>
  k_xstate     :: "nat \<Rightarrow> nat"              \<comment> \<open>\<open>&proc[i].xstate\<close>\<close>
  k_bdata      :: "nat \<Rightarrow> nat"              \<comment> \<open>\<open>bcache.buf[i].data\<close>\<close>
  k_uart_read  :: "nat \<Rightarrow> 's \<Rightarrow> 8 word \<times> 's"   \<comment> \<open>a read of a UART register\<close>
  k_swtch      :: "nat \<Rightarrow> 's \<Rightarrow> 's result"   \<comment> \<open>for the process that gives up its hart\<close>
  k_disk_rw    :: "nat \<Rightarrow> bool \<Rightarrow> 's \<Rightarrow> 's result"   \<comment> \<open>\<open>virtio_disk_rw(b, write)\<close>\<close>

abbreviation (input) NPROC :: nat where "NPROC \<equiv> 64"
abbreviation (input) NOFILE :: nat where "NOFILE \<equiv> 16"
abbreviation (input) TRAMPOLINE :: nat where "TRAMPOLINE \<equiv> 0x3FFFFFF000"
abbreviation (input) TRAPFRAME :: nat where "TRAPFRAME \<equiv> 0x3FFFFFE000"

definition KSTACK :: "nat \<Rightarrow> nat" where
  "KSTACK p = TRAMPOLINE - (p + 1) * 2 * PGSIZE"

definition cpuid :: "'z kernel_scheme \<Rightarrow> nat" where
  "cpuid s = hartid s"

definition mycpu :: "'z kernel_scheme \<Rightarrow> cpu" where
  "mycpu s = cpus s (cpuid s)"

definition upd_proc :: "nat \<Rightarrow> (proc \<Rightarrow> proc) \<Rightarrow> 'z kernel_scheme \<Rightarrow> 'z kernel_scheme" where
  "upd_proc p f s = s\<lparr>procs := (procs s)(p := f (procs s p))\<rparr>"

definition myproc :: "'z kernel_scheme \<Rightarrow> (nat option \<times> 'z kernel_scheme) result" where
  "myproc s =
     (let s = push_off (hartid s) s;
          p = cpu_proc s (cpuid s)
      in bindr (pop_off (hartid s) s) (\<lambda>s. Ok (p, s)))"

text \<open>\<open>myproc()\<close> where the result is dereferenced.\<close>

definition myproc_deref :: "'z kernel_scheme \<Rightarrow> (nat \<times> 'z kernel_scheme) result" where
  "myproc_deref s =
     bindr (myproc s) (\<lambda>(p, s). case p of None \<Rightarrow> Err (BadAddress 0) | Some p \<Rightarrow> Ok (p, s))"

abbreviation acquire_k :: "lockptr \<Rightarrow> 'z kernel_scheme \<Rightarrow> 'z kernel_scheme result" where
  "acquire_k lk s \<equiv> acquire (hartid s) lk s"

abbreviation release_k :: "lockptr \<Rightarrow> 'z kernel_scheme \<Rightarrow> 'z kernel_scheme result" where
  "release_k lk s \<equiv> release (hartid s) lk s"

section \<open>Kernel pointers\<close>

text \<open>The kernel reads and writes the RAM at its physical addresses, and the stacks of the
  processes at the addresses \<open>KSTACK\<close> at which they are mapped.\<close>

definition kptr :: "nat \<Rightarrow> nat \<Rightarrow> bool" where
  "kptr a n = (ram a n \<or> KSTACK 63 \<le> a \<and> a < TRAMPOLINE \<and> (a - KSTACK 63) mod 8192 + n \<le> PGSIZE)"

definition kmemset :: "nat \<Rightarrow> int \<Rightarrow> nat \<Rightarrow> 'z kmem_scheme \<Rightarrow> 'z kmem_scheme result" where
  "kmemset dst ch n s =
     (if n = 0 \<or> kptr dst n then Ok (s\<lparr>bytes := snd (memset dst ch n (bytes s))\<rparr>) else Err (BadAddress dst))"

definition kmemmove :: "nat \<Rightarrow> nat \<Rightarrow> nat \<Rightarrow> 'z kmem_scheme \<Rightarrow> 'z kmem_scheme result" where
  "kmemmove dst src n s =
     (if n = 0 then Ok s
      else if \<not> kptr dst n then Err (BadAddress dst) else if \<not> kptr src n then Err (BadAddress src)
      else Ok (s\<lparr>bytes := snd (memmove dst src n (bytes s))\<rparr>))"

definition rd8 :: "nat \<Rightarrow> 'z kmem_scheme \<Rightarrow> (8 word) result" where
  "rd8 a s = (if kptr a 1 then Ok (bytes s a) else Err (BadAddress a))"

definition wr8 :: "nat \<Rightarrow> 8 word \<Rightarrow> 'z kmem_scheme \<Rightarrow> 'z kmem_scheme result" where
  "wr8 a v s = (if kptr a 1 then Ok (s\<lparr>bytes := (bytes s)(a := v)\<rparr>) else Err (BadAddress a))"

section \<open>Smaller integers\<close>

abbreviation ld16 :: "mem \<Rightarrow> nat \<Rightarrow> nat" where "ld16 \<equiv> ld_bytes 2"
abbreviation st16 :: "nat \<Rightarrow> nat \<Rightarrow> mem \<Rightarrow> mem" where "st16 \<equiv> st_bytes 2"

definition u32 :: "int \<Rightarrow> nat" where "u32 x = nat (x mod 2 ^ 32)"
definition u16 :: "int \<Rightarrow> nat" where "u16 x = nat (x mod 2 ^ 16)"
definition i16 :: "int \<Rightarrow> int" where "i16 x = (x + 2 ^ 15) mod 2 ^ 16 - 2 ^ 15"

end
