(* ===== verification/Vm.thy ===== *)
theory Vm
  imports Kstate
begin

text \<open>
  Virtual memory (\<^verbatim>\<open>kernel/vm.c\<close>): page tables in physical memory, user memory on top of the
  page allocator, and the copies between user and kernel space.
\<close>

section \<open>Page tables\<close>

text \<open>The loop of \<open>walk\<close>, from \<open>level\<close> down.\<close>

fun walk_loop :: "nat \<Rightarrow> nat \<Rightarrow> nat \<Rightarrow> nat \<Rightarrow> bool \<Rightarrow> 'z kmem_scheme \<Rightarrow> (nat \<times> 'z kmem_scheme) result" where
  "walk_loop c 0 pagetable va alloc s = Ok (pagetable + 8 * PX 0 va, s)"
| "walk_loop c (Suc l) pagetable va alloc s =
     (let pte = pagetable + 8 * PX (Suc l) va
      in bindr (rd64 pte s) (\<lambda>v.
         if v AND PTE_V \<noteq> 0 then walk_loop c l (PTE2PA v) va alloc s
         else if \<not> alloc then Ok (0, s)
         else bindr (kalloc c s) (\<lambda>(pagetable, s).
              if pagetable = 0 then Ok (0, s)
              else bindr (kmemset pagetable 0 PGSIZE s) (\<lambda>s.
                   bindr (wr64 pte (PA2PTE pagetable OR PTE_V) s) (\<lambda>s.
                   walk_loop c l pagetable va alloc s)))))"

definition walk :: "nat \<Rightarrow> nat \<Rightarrow> nat \<Rightarrow> bool \<Rightarrow> 'z kmem_scheme \<Rightarrow> (nat \<times> 'z kmem_scheme) result" where
  "walk c pagetable va alloc s =
     (if va \<ge> MAXVA then Err (Panic ''walk'') else walk_loop c 2 pagetable va alloc s)"

definition walkaddr :: "nat \<Rightarrow> nat \<Rightarrow> nat \<Rightarrow> 'z kmem_scheme \<Rightarrow> nat result" where
  "walkaddr c pagetable va s =
     (if va \<ge> MAXVA then Ok 0
      else bindr (walk c pagetable va False s) (\<lambda>(pte, s).
           if pte = 0 then Ok 0
           else bindr (rd64 pte s) (\<lambda>v.
                if v AND PTE_V = 0 then Ok 0
                else if v AND PTE_U = 0 then Ok 0
                else Ok (PTE2PA v))))"

partial_function (option) mappages_loop ::
  "nat \<Rightarrow> nat \<Rightarrow> nat \<Rightarrow> nat \<Rightarrow> nat \<Rightarrow> nat \<Rightarrow> 'z kmem_scheme \<Rightarrow> (int \<times> 'z kmem_scheme) result" where
  "mappages_loop c pagetable a last_va pa perm s =
     bindr (walk c pagetable a True s) (\<lambda>(pte, s).
     if pte = 0 then Ok (- 1, s)
     else bindr (rd64 pte s) (\<lambda>v.
          if v AND PTE_V \<noteq> 0 then Err (Panic ''mappages: remap'')
          else bindr (wr64 pte (PA2PTE pa OR perm OR PTE_V) s) (\<lambda>s.
               if a = last_va then Ok (0, s)
               else mappages_loop c pagetable (add64 a PGSIZE) last_va (add64 pa PGSIZE) perm s)))"

definition mappages ::
  "nat \<Rightarrow> nat \<Rightarrow> nat \<Rightarrow> nat \<Rightarrow> nat \<Rightarrow> nat \<Rightarrow> 'z kmem_scheme \<Rightarrow> (int \<times> 'z kmem_scheme) result" where
  "mappages c pagetable va sz pa perm s =
     (if va mod PGSIZE \<noteq> 0 then Err (Panic ''mappages: va not aligned'')
      else if sz mod PGSIZE \<noteq> 0 then Err (Panic ''mappages: size not aligned'')
      else if sz = 0 then Err (Panic ''mappages: size'')
      else let a = va; last_va = sub64 (add64 va sz) PGSIZE
           in mappages_loop c pagetable a last_va pa perm s)"

definition kvmmap :: "nat \<Rightarrow> nat \<Rightarrow> nat \<Rightarrow> nat \<Rightarrow> nat \<Rightarrow> nat \<Rightarrow> 'z kmem_scheme \<Rightarrow> 'z kmem_scheme result" where
  "kvmmap c kpgtbl va pa sz perm s =
     bindr (mappages c kpgtbl va sz pa perm s) (\<lambda>(r, s).
     if r \<noteq> 0 then Err (Panic ''kvmmap'') else Ok s)"

text \<open>\<open>proc_mapstacks\<close> of \<^verbatim>\<open>kernel/proc.c\<close>, which \<open>kvmmake\<close> calls; \<open>ps\<close> are the processes left.\<close>

fun proc_mapstacks_loop :: "nat \<Rightarrow> nat \<Rightarrow> nat list \<Rightarrow> 'z kmem_scheme \<Rightarrow> 'z kmem_scheme result" where
  "proc_mapstacks_loop c kpgtbl [] s = Ok s"
| "proc_mapstacks_loop c kpgtbl (p # ps) s =
     bindr (kalloc c s) (\<lambda>(pa, s).
     if pa = 0 then Err (Panic ''kalloc'')
     else let va = KSTACK p
          in bindr (kvmmap c kpgtbl va pa PGSIZE (PTE_R OR PTE_W) s) (\<lambda>s. proc_mapstacks_loop c kpgtbl ps s))"

definition proc_mapstacks :: "nat \<Rightarrow> nat \<Rightarrow> 'z kmem_scheme \<Rightarrow> 'z kmem_scheme result" where
  "proc_mapstacks c kpgtbl s = proc_mapstacks_loop c kpgtbl [0..<NPROC] s"

abbreviation (input) UART0 :: nat where "UART0 \<equiv> 0x10000000"
abbreviation (input) VIRTIO0 :: nat where "VIRTIO0 \<equiv> 0x10001000"
abbreviation (input) PLIC :: nat where "PLIC \<equiv> 0x0c000000"

text \<open>\<open>etext\<close> and \<open>trampoline\<close> are addresses the linker chooses.\<close>

definition kvmmake :: "nat \<Rightarrow> nat \<Rightarrow> nat \<Rightarrow> 'z kmem_scheme \<Rightarrow> (nat \<times> 'z kmem_scheme) result" where
  "kvmmake c etext trampoline s =
     bindr (kalloc c s) (\<lambda>(kpgtbl, s).
     bindr (kmemset kpgtbl 0 PGSIZE s) (\<lambda>s.
     bindr (kvmmap c kpgtbl UART0 UART0 PGSIZE (PTE_R OR PTE_W) s) (\<lambda>s.
     bindr (kvmmap c kpgtbl VIRTIO0 VIRTIO0 PGSIZE (PTE_R OR PTE_W) s) (\<lambda>s.
     bindr (kvmmap c kpgtbl PLIC PLIC 0x4000000 (PTE_R OR PTE_W) s) (\<lambda>s.
     bindr (kvmmap c kpgtbl KERNBASE KERNBASE (sub64 etext KERNBASE) (PTE_R OR PTE_X) s) (\<lambda>s.
     bindr (kvmmap c kpgtbl etext etext (sub64 PHYSTOP etext) (PTE_R OR PTE_W) s) (\<lambda>s.
     bindr (kvmmap c kpgtbl TRAMPOLINE trampoline PGSIZE (PTE_R OR PTE_X) s) (\<lambda>s.
     bindr (proc_mapstacks c kpgtbl s) (\<lambda>s. Ok (kpgtbl, s))))))))))"

definition kvminit :: "nat \<Rightarrow> nat \<Rightarrow> nat \<Rightarrow> 'z kernel_scheme \<Rightarrow> 'z kernel_scheme result" where
  "kvminit c etext trampoline s =
     bindr (kvmmake c etext trampoline s) (\<lambda>(kpgtbl, s). Ok (s\<lparr>kernel_pagetable := kpgtbl\<rparr>))"

definition kvminithart :: "'z kernel_scheme \<Rightarrow> hart \<Rightarrow> hart" where
  "kvminithart s h =
     (let h = sfence_vma h;
          h = w_satp (MAKE_SATP (kernel_pagetable s)) h
      in sfence_vma h)"

section \<open>User memory\<close>

definition uvmcreate :: "nat \<Rightarrow> 'z kmem_scheme \<Rightarrow> (nat \<times> 'z kmem_scheme) result" where
  "uvmcreate c s =
     bindr (kalloc c s) (\<lambda>(pagetable, s).
     if pagetable = 0 then Ok (0, s)
     else bindr (kmemset pagetable 0 PGSIZE s) (\<lambda>s. Ok (pagetable, s)))"

text \<open>\<open>end\<close> is \<open>va + npages*PGSIZE\<close>; \<open>kend\<close> is the end of the kernel, for \<open>kfree\<close>.\<close>

partial_function (option) uvmunmap_loop ::
  "nat \<Rightarrow> nat \<Rightarrow> nat \<Rightarrow> nat \<Rightarrow> nat \<Rightarrow> bool \<Rightarrow> 'z kmem_scheme \<Rightarrow> 'z kmem_scheme result" where
  "uvmunmap_loop c kend pagetable a last_va do_free s =
     (if a < last_va
      then bindr (walk c pagetable a False s) (\<lambda>(pte, s).
           if pte = 0 then uvmunmap_loop c kend pagetable (add64 a PGSIZE) last_va do_free s
           else bindr (rd64 pte s) (\<lambda>v.
                if v AND PTE_V = 0 then uvmunmap_loop c kend pagetable (add64 a PGSIZE) last_va do_free s
                else bindr (if do_free then kfree c kend (PTE2PA v) s else Ok s) (\<lambda>s.
                     bindr (wr64 pte 0 s) (\<lambda>s.
                     uvmunmap_loop c kend pagetable (add64 a PGSIZE) last_va do_free s))))
      else Ok s)"

definition uvmunmap :: "nat \<Rightarrow> nat \<Rightarrow> nat \<Rightarrow> nat \<Rightarrow> nat \<Rightarrow> bool \<Rightarrow> 'z kmem_scheme \<Rightarrow> 'z kmem_scheme result" where
  "uvmunmap c kend pagetable va npages do_free s =
     (if va mod PGSIZE \<noteq> 0 then Err (Panic ''uvmunmap: not aligned'')
      else uvmunmap_loop c kend pagetable va (add64 va (mul64 npages PGSIZE)) do_free s)"

text \<open>\<open>npages\<close> is an \<open>int\<close> there.\<close>

definition uvmdealloc :: "nat \<Rightarrow> nat \<Rightarrow> nat \<Rightarrow> nat \<Rightarrow> nat \<Rightarrow> 'z kmem_scheme \<Rightarrow> (nat \<times> 'z kmem_scheme) result" where
  "uvmdealloc c kend pagetable oldsz newsz s =
     (if newsz \<ge> oldsz then Ok (oldsz, s)
      else bindr
        (if PGROUNDUP newsz < PGROUNDUP oldsz
         then let npages = i32 (int ((PGROUNDUP oldsz - PGROUNDUP newsz) div PGSIZE))
              in uvmunmap c kend pagetable (PGROUNDUP newsz) (nat (npages mod 2 ^ 64)) True s
         else Ok s) (\<lambda>s. Ok (newsz, s)))"

partial_function (option) uvmalloc_loop ::
  "nat \<Rightarrow> nat \<Rightarrow> nat \<Rightarrow> nat \<Rightarrow> nat \<Rightarrow> nat \<Rightarrow> nat \<Rightarrow> 'z kmem_scheme \<Rightarrow> (nat \<times> 'z kmem_scheme) result" where
  "uvmalloc_loop c kend pagetable a oldsz newsz xperm s =
     (if a < newsz
      then bindr (kalloc c s) (\<lambda>(mem, s).
           if mem = 0
           then bindr (uvmdealloc c kend pagetable a oldsz s) (\<lambda>(_, s). Ok (0, s))
           else bindr (kmemset mem 0 PGSIZE s) (\<lambda>s.
                bindr (mappages c pagetable a PGSIZE mem (PTE_R OR PTE_U OR xperm) s) (\<lambda>(r, s).
                if r \<noteq> 0
                then bindr (kfree c kend mem s) (\<lambda>s.
                     bindr (uvmdealloc c kend pagetable a oldsz s) (\<lambda>(_, s). Ok (0, s)))
                else uvmalloc_loop c kend pagetable (add64 a PGSIZE) oldsz newsz xperm s)))
      else Ok (newsz, s))"

definition uvmalloc ::
  "nat \<Rightarrow> nat \<Rightarrow> nat \<Rightarrow> nat \<Rightarrow> nat \<Rightarrow> nat \<Rightarrow> 'z kmem_scheme \<Rightarrow> (nat \<times> 'z kmem_scheme) result" where
  "uvmalloc c kend pagetable oldsz newsz xperm s =
     (if newsz < oldsz then Ok (oldsz, s)
      else let oldsz = PGROUNDUP oldsz
           in uvmalloc_loop c kend pagetable oldsz oldsz newsz xperm s)"

text \<open>\<open>freewalk\<close>, from entry \<open>i\<close> of \<open>pagetable\<close> on.\<close>

partial_function (option) freewalk_loop ::
  "nat \<Rightarrow> nat \<Rightarrow> nat \<Rightarrow> nat \<Rightarrow> 'z kmem_scheme \<Rightarrow> 'z kmem_scheme result" where
  "freewalk_loop c kend i pagetable s =
     (if i < 512
      then bindr (rd64 (pagetable + 8 * i) s) (\<lambda>pte.
           if pte AND PTE_V \<noteq> 0 \<and> pte AND (PTE_R OR PTE_W OR PTE_X) = 0
           then let child = PTE2PA pte
                in bindr (freewalk_loop c kend 0 child s) (\<lambda>s.
                   bindr (wr64 (pagetable + 8 * i) 0 s) (\<lambda>s.
                   freewalk_loop c kend (i + 1) pagetable s))
           else if pte AND PTE_V \<noteq> 0 then Err (Panic ''freewalk: leaf'')
           else freewalk_loop c kend (i + 1) pagetable s)
      else kfree c kend pagetable s)"

definition freewalk :: "nat \<Rightarrow> nat \<Rightarrow> nat \<Rightarrow> 'z kmem_scheme \<Rightarrow> 'z kmem_scheme result" where
  "freewalk c kend pagetable s = freewalk_loop c kend 0 pagetable s"

definition uvmfree :: "nat \<Rightarrow> nat \<Rightarrow> nat \<Rightarrow> nat \<Rightarrow> 'z kmem_scheme \<Rightarrow> 'z kmem_scheme result" where
  "uvmfree c kend pagetable sz s =
     bindr (if sz > 0 then uvmunmap c kend pagetable 0 (PGROUNDUP sz div PGSIZE) True s else Ok s) (\<lambda>s.
     freewalk c kend pagetable s)"

text \<open>The loop of \<open>uvmcopy\<close>; on an error, the value of \<open>i\<close> at the jump to \<open>err\<close>.\<close>

partial_function (option) uvmcopy_loop ::
  "nat \<Rightarrow> nat \<Rightarrow> nat \<Rightarrow> nat \<Rightarrow> nat \<Rightarrow> nat \<Rightarrow> 'z kmem_scheme \<Rightarrow> (nat option \<times> 'z kmem_scheme) result" where
  "uvmcopy_loop c kend old new i sz s =
     (if i < sz
      then bindr (walk c old i False s) (\<lambda>(pte, s).
           if pte = 0 then uvmcopy_loop c kend old new (add64 i PGSIZE) sz s
           else bindr (rd64 pte s) (\<lambda>v.
                if v AND PTE_V = 0 then uvmcopy_loop c kend old new (add64 i PGSIZE) sz s
                else let pa = PTE2PA v; flags = PTE_FLAGS v
                     in bindr (kalloc c s) (\<lambda>(mem, s).
                        if mem = 0 then Ok (Some i, s)
                        else bindr (kmemmove mem pa PGSIZE s) (\<lambda>s.
                             bindr (mappages c new i PGSIZE mem flags s) (\<lambda>(r, s).
                             if r \<noteq> 0 then bindr (kfree c kend mem s) (\<lambda>s. Ok (Some i, s))
                             else uvmcopy_loop c kend old new (add64 i PGSIZE) sz s)))))
      else Ok (None, s))"

definition uvmcopy :: "nat \<Rightarrow> nat \<Rightarrow> nat \<Rightarrow> nat \<Rightarrow> nat \<Rightarrow> 'z kmem_scheme \<Rightarrow> (int \<times> 'z kmem_scheme) result" where
  "uvmcopy c kend old new sz s =
     bindr (uvmcopy_loop c kend old new 0 sz s) (\<lambda>(r, s).
     case r of
       None \<Rightarrow> Ok (0, s)
     | Some i \<Rightarrow> bindr (uvmunmap c kend new 0 (i div PGSIZE) True s) (\<lambda>s. Ok (- 1, s)))"

definition uvmclear :: "nat \<Rightarrow> nat \<Rightarrow> nat \<Rightarrow> 'z kmem_scheme \<Rightarrow> 'z kmem_scheme result" where
  "uvmclear c pagetable va s =
     bindr (walk c pagetable va False s) (\<lambda>(pte, s).
     if pte = 0 then Err (Panic ''uvmclear'')
     else bindr (rd64 pte s) (\<lambda>v. wr64 pte (if v AND PTE_U \<noteq> 0 then v - PTE_U else v) s))"

definition ismapped :: "nat \<Rightarrow> nat \<Rightarrow> nat \<Rightarrow> 'z kmem_scheme \<Rightarrow> bool result" where
  "ismapped c pagetable va s =
     bindr (walk c pagetable va False s) (\<lambda>(pte, s).
     if pte = 0 then Ok False
     else bindr (rd64 pte s) (\<lambda>v. if v AND PTE_V \<noteq> 0 then Ok True else Ok False))"

definition vmfault :: "nat \<Rightarrow> nat \<Rightarrow> nat \<Rightarrow> nat \<Rightarrow> bool \<Rightarrow> 'z kernel_scheme \<Rightarrow> (nat \<times> 'z kernel_scheme) result" where
  "vmfault c kend pagetable va read s =
     bindr (myproc_deref s) (\<lambda>(p, s).
     if va \<ge> p_sz (procs s p) then Ok (0, s)
     else let va = PGROUNDDOWN va
          in bindr (ismapped c pagetable va s) (\<lambda>mapped.
             if mapped then Ok (0, s)
             else bindr (kalloc c s) (\<lambda>(mem, s).
                  if mem = 0 then Ok (0, s)
                  else bindr (kmemset mem 0 PGSIZE s) (\<lambda>s.
                       bindr (mappages c (p_pagetable (procs s p)) va PGSIZE mem (PTE_W OR PTE_U OR PTE_R) s) (\<lambda>(r, s).
                       if r \<noteq> 0 then bindr (kfree c kend mem s) (\<lambda>s. Ok (0, s))
                       else Ok (mem, s))))))"

section \<open>Copies between user and kernel space\<close>

text \<open>A user page for a copy: \<open>walkaddr\<close>, or \<open>vmfault\<close> where it finds none.\<close>

definition user_page :: "nat \<Rightarrow> nat \<Rightarrow> nat \<Rightarrow> nat \<Rightarrow> 'z kernel_scheme \<Rightarrow> (nat \<times> 'z kernel_scheme) result" where
  "user_page c kend pagetable va0 s =
     bindr (walkaddr c pagetable va0 s) (\<lambda>pa0.
     if pa0 = 0 then vmfault c kend pagetable va0 False s else Ok (pa0, s))"

partial_function (option) copyout ::
  "nat \<Rightarrow> nat \<Rightarrow> nat \<Rightarrow> nat \<Rightarrow> nat \<Rightarrow> nat \<Rightarrow> 'z kernel_scheme \<Rightarrow> (int \<times> 'z kernel_scheme) result" where
  "copyout c kend pagetable dstva src len s =
     (if len > 0
      then let va0 = PGROUNDDOWN dstva
           in if va0 \<ge> MAXVA then Ok (- 1, s)
              else bindr (user_page c kend pagetable va0 s) (\<lambda>(pa0, s).
                   if pa0 = 0 then Ok (- 1, s)
                   else bindr (walk c pagetable va0 False s) (\<lambda>(pte, s).
                        bindr (rd64 pte s) (\<lambda>v.
                        if v AND PTE_W = 0 then Ok (- 1, s)
                        else let n = PGSIZE - (dstva - va0);
                                 n = (if n > len then len else n)
                             in bindr (kmemmove (pa0 + (dstva - va0)) src n s) (\<lambda>s.
                                copyout c kend pagetable (add64 va0 PGSIZE) (src + n) (len - n) s))))
      else Ok (0, s))"

partial_function (option) copyin ::
  "nat \<Rightarrow> nat \<Rightarrow> nat \<Rightarrow> nat \<Rightarrow> nat \<Rightarrow> nat \<Rightarrow> 'z kernel_scheme \<Rightarrow> (int \<times> 'z kernel_scheme) result" where
  "copyin c kend pagetable dst srcva len s =
     (if len > 0
      then let va0 = PGROUNDDOWN srcva
           in bindr (user_page c kend pagetable va0 s) (\<lambda>(pa0, s).
              if pa0 = 0 then Ok (- 1, s)
              else let n = PGSIZE - (srcva - va0);
                       n = (if n > len then len else n)
                   in bindr (kmemmove dst (pa0 + (srcva - va0)) n s) (\<lambda>s.
                      copyin c kend pagetable (dst + n) (add64 va0 PGSIZE) (len - n) s))
      else Ok (0, s))"

text \<open>The inner loop of \<open>copyinstr\<close>: whether it found the NUL byte, and \<open>max_n\<close> and \<open>dst\<close> after it.\<close>

fun copyinstr_page :: "nat \<Rightarrow> nat \<Rightarrow> nat \<Rightarrow> nat \<Rightarrow> 'z kmem_scheme \<Rightarrow> (bool \<times> nat \<times> nat \<times> 'z kmem_scheme) result" where
  "copyinstr_page 0 max_n p dst s = Ok (False, max_n, dst, s)"
| "copyinstr_page (Suc n) max_n p dst s =
     bindr (rd8 p s) (\<lambda>ch.
     if ch = 0 then bindr (wr8 dst 0 s) (\<lambda>s. Ok (True, max_n, dst, s))
     else bindr (wr8 dst ch s) (\<lambda>s. copyinstr_page n (max_n - 1) (p + 1) (dst + 1) s))"

partial_function (option) copyinstr_loop ::
  "nat \<Rightarrow> nat \<Rightarrow> nat \<Rightarrow> nat \<Rightarrow> nat \<Rightarrow> bool \<Rightarrow> 'z kmem_scheme \<Rightarrow> (int \<times> 'z kmem_scheme) result" where
  "copyinstr_loop c pagetable dst srcva max_n got_null s =
     (if \<not> got_null \<and> max_n > 0
      then let va0 = PGROUNDDOWN srcva
           in bindr (walkaddr c pagetable va0 s) (\<lambda>pa0.
              if pa0 = 0 then Ok (- 1, s)
              else let n = PGSIZE - (srcva - va0);
                       n = (if n > max_n then max_n else n)
                   in bindr (copyinstr_page n max_n (pa0 + (srcva - va0)) dst s) (\<lambda>(got_null, max_n, dst, s).
                      copyinstr_loop c pagetable dst (add64 va0 PGSIZE) max_n got_null s))
      else if got_null then Ok (0, s) else Ok (- 1, s))"

definition copyinstr :: "nat \<Rightarrow> nat \<Rightarrow> nat \<Rightarrow> nat \<Rightarrow> nat \<Rightarrow> 'z kmem_scheme \<Rightarrow> (int \<times> 'z kmem_scheme) result" where
  "copyinstr c pagetable dst srcva max_n s = copyinstr_loop c pagetable dst srcva max_n False s"

end
