(* ===== verification/Vm_Map.thy ===== *)
theory Vm_Map
  imports Vm Buddy_Props
begin

text \<open>
  Page tables as maps. A page table of \<open>l + 1\<close> levels in byte memory is a tree of distinct pages of the
  RAM (\<open>wf_pt\<close>); \<open>lookup\<close> is the entry it holds for an address. Walking with allocation keeps the map
  (\<open>walk_alloc\<close>), writing an entry changes it at one page (\<open>write_slot\<close>), and so \<open>mappages\<close> extends it by a range,
  which \<open>walkaddr\<close> reads back.
\<close>

section \<open>Page tables in memory\<close>

definition ent :: "mem \<Rightarrow> nat \<Rightarrow> nat \<Rightarrow> nat" where "ent m p i = ld64 m (p + 8 * i)"

definition valid :: "nat \<Rightarrow> bool" where "valid v = (v AND PTE_V \<noteq> 0)"

abbreviation sub :: "mem \<Rightarrow> nat \<Rightarrow> nat \<Rightarrow> nat" where "sub m p i \<equiv> PTE2PA (ent m p i)"

definition page_ok :: "nat \<Rightarrow> bool" where
  "page_ok p = (p mod PGSIZE = 0 \<and> KERNBASE \<le> p \<and> p + PGSIZE \<le> PHYSTOP)"

text \<open>The pages of the tables, the children of the entries in use among them.\<close>

fun pages :: "nat \<Rightarrow> mem \<Rightarrow> nat \<Rightarrow> nat set" where
  "pages 0 m p = {p}"
| "pages (Suc l) m p = insert p (\<Union>i\<in>{i. i < 512 \<and> valid (ent m p i)}. pages l m (sub m p i))"

fun wf_pt :: "nat \<Rightarrow> mem \<Rightarrow> nat \<Rightarrow> bool" where
  "wf_pt 0 m p = page_ok p"
| "wf_pt (Suc l) m p = (page_ok p
     \<and> (\<forall>i<512. valid (ent m p i) \<longrightarrow> wf_pt l m (sub m p i) \<and> p \<notin> pages l m (sub m p i))
     \<and> (\<forall>i<512. \<forall>j<512. i \<noteq> j \<and> valid (ent m p i) \<and> valid (ent m p j) \<longrightarrow>
          pages l m (sub m p i) \<inter> pages l m (sub m p j) = {}))"

fun lookup :: "nat \<Rightarrow> mem \<Rightarrow> nat \<Rightarrow> nat \<Rightarrow> nat" where
  "lookup 0 m p va = ent m p (PX 0 va)"
| "lookup (Suc l) m p va =
     (let v = ent m p (PX (Suc l) va) in if valid v then lookup l m (PTE2PA v) va else 0)"

text \<open>The address of the entry, where all tables on the way are there.\<close>

fun slot_at :: "nat \<Rightarrow> mem \<Rightarrow> nat \<Rightarrow> nat \<Rightarrow> nat option" where
  "slot_at 0 m p va = Some (p + 8 * PX 0 va)"
| "slot_at (Suc l) m p va =
     (let v = ent m p (PX (Suc l) va) in if valid v then slot_at l m (PTE2PA v) va else None)"

definition span :: "nat set \<Rightarrow> nat set" where
  "span P = (\<Union>p\<in>P. {p..<p + PGSIZE})"

lemma span_simps [simp]: "span {} = {}" "span (insert p P) = {p..<p + PGSIZE} \<union> span P" "span (P \<union> Q) = span P \<union> span Q"
  by (auto simp: span_def)

lemma PX_512 [simp]: "PX l va < 512"
  by (simp add: PX_div)

lemma root_page: "p \<in> pages l m p"
  by (cases l) auto

lemma wf_page_ok: "wf_pt l m p \<Longrightarrow> q \<in> pages l m p \<Longrightarrow> page_ok q"
  by (induction l arbitrary: p) auto

lemma page_apart: "page_ok p \<Longrightarrow> page_ok q \<Longrightarrow> p \<noteq> q \<Longrightarrow> {p..<p + PGSIZE} \<inter> {q..<q + PGSIZE} = {}"
proof -
  assume a: "page_ok p" "page_ok q" "p \<noteq> q"
  then obtain i j where ij: "p = PGSIZE * i" "q = PGSIZE * j" unfolding page_ok_def by (metis mod_0_imp_dvd dvdE)
  then have "i < j \<or> j < i" using a(3) by (metis linorder_neqE_nat)
  then have "p + PGSIZE \<le> q \<or> q + PGSIZE \<le> p" unfolding ij by linarith
  then show ?thesis by (auto simp: disjoint_iff)
qed

lemma ent_agree: "agree m m' p PGSIZE \<Longrightarrow> i < 512 \<Longrightarrow> ent m' p i = ent m p i"
  unfolding ent_def by (rule ld_agree, rule agree_sub [of m m' p PGSIZE]) auto

lemma pt_frame:
  "\<forall>q\<in>pages l m p. agree m m' q PGSIZE \<Longrightarrow> pages l m' p = pages l m p \<and> wf_pt l m' p = wf_pt l m p
     \<and> lookup l m' p va = lookup l m p va \<and> slot_at l m' p va = slot_at l m p va"
proof (induction l arbitrary: p)
  case 0
  then show ?case by (simp add: ent_agree)
next
  case (Suc l)
  have e: "ent m' p i = ent m p i" if "i < 512" for i using Suc.prems that by (intro ent_agree) auto
  have "pages l m' (sub m p i) = pages l m (sub m p i) \<and> wf_pt l m' (sub m p i) = wf_pt l m (sub m p i)
      \<and> lookup l m' (sub m p i) va = lookup l m (sub m p i) va \<and> slot_at l m' (sub m p i) va = slot_at l m (sub m p i) va"
    if "i < 512" "valid (ent m p i)" for i
    using Suc.prems that by (intro Suc.IH) auto
  then show ?case by (auto simp: e Let_def)
qed

text \<open>Replacing what entry \<open>i\<close> of a table leads to, by the table \<open>q\<close> of the new memory.\<close>

lemma table_update:
  assumes "wf_pt (Suc l) m p" and "i < 512"
    and others: "\<forall>j<512. j \<noteq> i \<longrightarrow> ent m' p j = ent m p j"
    and here: "valid (ent m' p i)" "sub m' p i = q" "wf_pt l m' q" "p \<notin> pages l m' q"
    and rests: "\<forall>j r. j < 512 \<longrightarrow> j \<noteq> i \<longrightarrow> valid (ent m p j) \<longrightarrow> r \<in> pages l m (sub m p j) \<longrightarrow>
      agree m m' r PGSIZE \<and> r \<notin> pages l m' q"
  shows "wf_pt (Suc l) m' p"
    and "pages (Suc l) m' p = insert p (\<Union>j\<in>{j. j < 512 \<and> j \<noteq> i \<and> valid (ent m p j)}. pages l m (sub m p j)) \<union> pages l m' q"
    and "lookup (Suc l) m' p va = (if PX (Suc l) va = i then lookup l m' q va else lookup (Suc l) m p va)"
    and "PX (Suc l) va = i \<Longrightarrow> slot_at (Suc l) m' p va = slot_at l m' q va"
proof -
  have other: "ent m' p j = ent m p j" if "j < 512" "j \<noteq> i" for j using others that by blast
  have rest: "agree m m' r PGSIZE \<and> r \<notin> pages l m' q"
    if "j < 512" "j \<noteq> i" "valid (ent m p j)" "r \<in> pages l m (sub m p j)" for j r using rests that by blast
  have fr: "pages l m' (sub m p j) = pages l m (sub m p j)" "wf_pt l m' (sub m p j) = wf_pt l m (sub m p j)"
    "lookup l m' (sub m p j) va = lookup l m (sub m p j) va"
    if "j < 512" "j \<noteq> i" "valid (ent m p j)" for j
  proof -
    have "\<forall>r\<in>pages l m (sub m p j). agree m m' r PGSIZE" using rest [OF that] by blast
    from pt_frame [OF this, of va] show "pages l m' (sub m p j) = pages l m (sub m p j)"
      "wf_pt l m' (sub m p j) = wf_pt l m (sub m p j)" "lookup l m' (sub m p j) va = lookup l m (sub m p j) va"
      by blast+
  qed
  show "pages (Suc l) m' p = insert p (\<Union>j\<in>{j. j < 512 \<and> j \<noteq> i \<and> valid (ent m p j)}. pages l m (sub m p j)) \<union> pages l m' q"
  proof -
    let ?J = "{j. j < 512 \<and> j \<noteq> i \<and> valid (ent m p j)}"
    have "{j. j < 512 \<and> valid (ent m' p j)} = insert i ?J"
    proof (rule set_eqI)
      fix j
      show "j \<in> {j. j < 512 \<and> valid (ent m' p j)} \<longleftrightarrow> j \<in> insert i ?J"
        using assms(2) here(1) other [of j] by (cases "j = i") auto
    qed
    moreover have "(\<Union>j\<in>?J. pages l m' (sub m' p j)) = (\<Union>j\<in>?J. pages l m (sub m p j))"
      by (rule SUP_cong [OF refl]) (simp add: other fr(1))
    ultimately show ?thesis using here(2) by simp blast
  qed
  show "wf_pt (Suc l) m' p"
  proof -
    have wf: "page_ok p" "\<And>j. j < 512 \<Longrightarrow> valid (ent m p j) \<Longrightarrow> wf_pt l m (sub m p j) \<and> p \<notin> pages l m (sub m p j)"
      "\<And>j k. j < 512 \<Longrightarrow> k < 512 \<Longrightarrow> j \<noteq> k \<Longrightarrow> valid (ent m p j) \<Longrightarrow> valid (ent m p k) \<Longrightarrow>
        pages l m (sub m p j) \<inter> pages l m (sub m p k) = {}"
      using assms(1) by auto
    have old: "valid (ent m p j) \<and> pages l m' (sub m' p j) = pages l m (sub m p j) \<and> pages l m (sub m p j) \<inter> pages l m' q = {}"
      if "j < 512" "j \<noteq> i" "valid (ent m' p j)" for j
      using that other [of j] fr(1) [of j] rest [of j] by auto
    have "wf_pt l m' (sub m' p j) \<and> p \<notin> pages l m' (sub m' p j)" if "j < 512" "valid (ent m' p j)" for j
      using that here other [of j] fr [of j] wf(2) [of j] by (cases "j = i") auto
    moreover have "pages l m' (sub m' p j) \<inter> pages l m' (sub m' p k) = {}"
      if jk: "j < 512" "k < 512" "j \<noteq> k" "valid (ent m' p j)" "valid (ent m' p k)" for j k
    proof -
      consider "j = i" "k \<noteq> i" | "j \<noteq> i" "k = i" | "j \<noteq> i" "k \<noteq> i" using jk(3) by blast
      then show ?thesis
      proof cases
        case 1
        then show ?thesis using old [of k] jk here(2) by (simp add: Int_commute)
      next
        case 2
        then show ?thesis using old [of j] jk here(2) by simp
      next
        case 3
        then show ?thesis using old [of j] old [of k] jk wf(3) [of j k] by simp
      qed
    qed
    ultimately show ?thesis using wf(1) by simp
  qed
  show "lookup (Suc l) m' p va = (if PX (Suc l) va = i then lookup l m' q va else lookup (Suc l) m p va)"
    using here other [of "PX (Suc l) va"] fr [of "PX (Suc l) va"] by (auto simp: Let_def)
  show "slot_at (Suc l) m' p va = slot_at l m' q va" if "PX (Suc l) va = i"
    using here that by (simp add: Let_def)
qed

section \<open>Fresh tables\<close>

lemma ld_zero: "(\<And>x. a \<le> x \<Longrightarrow> x < a + k \<Longrightarrow> m x = 0) \<Longrightarrow> ld_bytes k m a = 0"
  by (induction k arbitrary: a) auto

lemma zero_table:
  assumes "\<forall>x. q \<le> x \<and> x < q + PGSIZE \<longrightarrow> m x = 0"
  shows "pages l m q = {q}" and "wf_pt l m q = page_ok q" and "lookup l m q va = 0"
proof -
  have z: "ent m q i = 0" if "i < 512" for i unfolding ent_def by (rule ld_zero) (use that assms in auto)
  have "\<not> valid 0" by (simp add: valid_def)
  then show "pages l m q = {q}" "wf_pt l m q = page_ok q" "lookup l m q va = 0"
    by (cases l; auto simp: z Let_def)+
qed

lemma memset_zero: "snd (memset q 0 n m) x = (if q \<le> x \<and> x < q + n then 0 else m x)"
proof -
  have "fold (\<lambda>i m. m(q + i := of_int 0)) [0..<n] m x = (if q \<le> x \<and> x < q + n then 0 else m x)"
    by (induction n) auto
  then show ?thesis by (simp add: memset_def)
qed

lemma acquire_bytes: "acquire c lk s = Ok s' \<Longrightarrow> bytes s' = bytes s"
proof -
  assume a: "acquire c lk s = Ok s'"
  then have "lk_locked (locks (push_off c s) lk) = 0"
    using spin_returns_free [of lk "push_off c s"] by (auto simp: acquire_def Let_def elim!: bindr_OkE split: if_splits)
  then have "s' = set_cpu lk (Some c) (snd (test_and_set lk (push_off c s)))"
    using a by (auto simp: acquire_def Let_def spin_free split: if_splits)
  then show ?thesis by (simp add: set_cpu_def test_and_set_def push_off_def intr_off_def Let_def)
qed

lemma release_bytes: "release c lk s = Ok s' \<Longrightarrow> bytes s' = bytes s"
  by (auto simp: release_def pop_off_def set_cpu_def lock_release_def intr_on_def Let_def split: if_splits)

lemma kalloc_bytes: "kalloc c s = Ok (a, s') \<Longrightarrow> bytes s' = bytes s"
  by (auto simp: kalloc_def buddy_kalloc_def Let_def elim!: bindr_OkE split: if_splits
      dest!: acquire_bytes release_bytes)

lemma kalloc_full: "buddy_ok c kend s \<Longrightarrow> kalloc c s = Ok (0, s') \<Longrightarrow> tree s' = tree s"
  using kalloc_law [of c kend s 0] by (auto simp: kalloc_def live_def)

lemma PTE_table:
  assumes "page_ok q"
  shows "PTE2PA (PA2PTE q OR PTE_V) = q" and "valid (PA2PTE q OR PTE_V)" and "PA2PTE q OR PTE_V < 2 ^ 64"
proof -
  have q: "q mod 4096 = 0" "q < 2 ^ 32" using assms by (auto simp: page_ok_def)
  have e: "PA2PTE q OR PTE_V = q div 4096 * 1024 + 1"
    using or_disjoint [of 1 "q div 4096"] by (simp add: PA2PTE_def drop_bit_eq_div)
  have q': "q = q div 4096 * 4096" using q(1) by auto
  have "q div 4096 < 2 ^ 20" using q(2) by (simp add: less_mult_imp_div_less)
  then show "PA2PTE q OR PTE_V < 2 ^ 64" unfolding e by simp
  define n where "n = q div 4096"
  have "(n * 1024 + 1) div 1024 = n" by (intro div_nat_eqI) auto
  then have "PTE2PA (n * 1024 + 1) = n * 4096 mod 2 ^ 64"
    by (simp only: PTE2PA_def push_bit_eq_mult drop_bit_eq_div) simp
  then show "PTE2PA (PA2PTE q OR PTE_V) = q" using q(2) q' unfolding e n_def by simp
  have "(n * 1024 + 1) mod 2 = 1" by presburger
  then show "valid (PA2PTE q OR PTE_V)" unfolding e valid_def n_def [symmetric] and_one_eq by simp
qed

section \<open>Walking with allocation\<close>

text \<open>What \<open>walk\<close> with \<open>alloc\<close> does to a table of \<open>l + 1\<close> levels: \<open>F\<close> are the pages it adds.\<close>

definition walked :: "nat \<Rightarrow> nat \<Rightarrow> nat \<Rightarrow> nat \<Rightarrow> nat \<Rightarrow> nat set \<Rightarrow> nat \<Rightarrow> 'z kmem_scheme \<Rightarrow> 'z kmem_scheme \<Rightarrow> bool" where
  "walked c kend l p va F pte s s' =
     (buddy_ok c kend s' \<and> (\<forall>q\<in>F. page_ok q) \<and> span F \<inter> allocated (tree s) = {}
      \<and> allocated (tree s') = allocated (tree s) \<union> span F
      \<and> (\<forall>x. x \<notin> span (pages l (bytes s) p \<union> F) \<longrightarrow> bytes s' x = bytes s x)
      \<and> wf_pt l (bytes s') p \<and> pages l (bytes s') p = pages l (bytes s) p \<union> F
      \<and> (\<forall>va'. lookup l (bytes s') p va' = lookup l (bytes s) p va')
      \<and> (if pte = 0 then allocated (tree s') = {KERNBASE..<PHYSTOP} else slot_at l (bytes s') p va = Some pte))"

lemma agree_span: "(\<forall>x. x \<notin> span P \<longrightarrow> m' x = m x) \<Longrightarrow> {r..<r + PGSIZE} \<inter> span P = {} \<Longrightarrow> agree m m' r PGSIZE"
  by (auto simp: agree_def disjoint_iff)

lemma span_mem: "r \<in> P \<Longrightarrow> {r..<r + PGSIZE} \<subseteq> span P"
  by (auto simp: span_def)

lemma in_span: "r \<in> P \<Longrightarrow> r \<in> span P"
  by (auto simp: span_def)

lemma span_apart:
  "page_ok r \<Longrightarrow> (\<forall>q\<in>P. page_ok q) \<Longrightarrow> r \<notin> P \<Longrightarrow> {r..<r + PGSIZE} \<inter> span P = {}"
  using page_apart by (fastforce simp: span_def)

lemma ent_ram: "page_ok p \<Longrightarrow> i < 512 \<Longrightarrow> ram (p + 8 * i) 8"
  by (auto simp: page_ok_def ram_def)

lemma walk_into:
  assumes wf: "wf_pt (Suc l) (bytes s) p" and al: "span (pages (Suc l) (bytes s) p) \<subseteq> allocated (tree s)"
    and i: "i = PX (Suc l) va" and v: "valid (ent (bytes s) p i)" and q: "q = sub (bytes s) p i"
    and w: "walked c kend l q va F pte s s'"
  shows "walked c kend (Suc l) p va F pte s s'"
proof -
  let ?m = "bytes s" and ?m' = "bytes s'"
  have ok: "i < 512" "page_ok p" using wf i by auto
  have sub: "pages l ?m q \<subseteq> pages (Suc l) ?m p" using v q ok(1) by auto
  have F: "\<forall>q\<in>F. page_ok q" "span F \<inter> allocated (tree s) = {}" using w by (simp_all add: walked_def)
  have outF: "r \<notin> F" if "r \<in> pages (Suc l) ?m p" for r
    using in_span [OF that] in_span [of r F] al F(2) by blast
  have pq: "p \<notin> pages l ?m q" using wf v q ok(1) by auto
  have pgs: "\<forall>r\<in>pages l ?m q \<union> F. page_ok r" using wf_page_ok [OF wf] sub F(1) by blast
  have ag: "agree ?m ?m' r PGSIZE" if "r \<in> pages (Suc l) ?m p" "r \<notin> pages l ?m q" for r
    using w that outF [OF that(1)] wf_page_ok [OF wf that(1)] span_apart [OF _ pgs, of r]
    by (intro agree_span [of "pages l ?m q \<union> F"]) (auto simp: walked_def simp del: pages.simps)
  have pag: "agree ?m ?m' p PGSIZE" using ag pq by simp
  have disj: "r \<notin> pages l ?m q" if "j < 512" "j \<noteq> i" "valid (ent ?m p j)" "r \<in> pages l ?m (sub ?m p j)" for j r
    using wf v q ok(1) that by auto
  have pgs': "pages l ?m' q = pages l ?m q \<union> F" "wf_pt l ?m' q" using w by (auto simp: walked_def)
  have in_p: "r \<in> pages (Suc l) ?m p" if "j < 512" "valid (ent ?m p j)" "r \<in> pages l ?m (sub ?m p j)" for j r
    using that by auto
  have e: "ent ?m' p j = ent ?m p j" if "j < 512" for j using ent_agree [OF pag that] .
  have pre: "valid (ent ?m' p i)" "sub ?m' p i = q" "p \<notin> pages l ?m' q"
    using e [OF ok(1)] v q pgs' pq outF [of p] by auto
  have rest: "\<forall>j r. j < 512 \<longrightarrow> j \<noteq> i \<longrightarrow> valid (ent ?m p j) \<longrightarrow> r \<in> pages l ?m (sub ?m p j) \<longrightarrow>
      agree ?m ?m' r PGSIZE \<and> r \<notin> pages l ?m' q"
    using ag in_p disj outF pgs'(1) by blast
  have others: "\<forall>j<512. j \<noteq> i \<longrightarrow> ent ?m' p j = ent ?m p j" using e by blast
  note up = table_update [OF wf ok(1) others pre(1,2) pgs'(2) pre(3) rest]
  have split: "pages (Suc l) ?m p = insert p (\<Union>j\<in>{j. j < 512 \<and> j \<noteq> i \<and> valid (ent ?m p j)}. pages l ?m (sub ?m p j)) \<union> pages l ?m q"
    using v q ok(1) by auto
  have "pages (Suc l) ?m' p = pages (Suc l) ?m p \<union> F" unfolding up(2) split pgs'(1) by (simp only: Un_assoc)
  moreover have "lookup (Suc l) ?m' p va' = lookup (Suc l) ?m p va'" for va'
  proof -
    have "lookup l ?m' q va' = lookup l ?m q va'" using w by (simp add: walked_def)
    moreover have "lookup (Suc l) ?m p va' = lookup l ?m q va'" if "PX (Suc l) va' = i" using that v q by (simp add: Let_def)
    ultimately show ?thesis unfolding up(3) [of va'] by (simp del: lookup.simps)
  qed
  moreover have "slot_at (Suc l) ?m' p va = slot_at l ?m' q va" using up(4) i by blast
  moreover have "?m' x = ?m x" if "x \<notin> span (pages (Suc l) ?m p \<union> F)" for x
  proof -
    have "x \<notin> span (pages l ?m q \<union> F)" using that sub by (auto simp: span_def simp del: pages.simps)
    then show ?thesis using w by (simp add: walked_def)
  qed
  ultimately show ?thesis using w up(1)
    unfolding walked_def
    by (cases "pte = 0"; simp del: pages.simps wf_pt.simps lookup.simps slot_at.simps span_simps)
qed

text \<open>Entering a fresh, cleared page \<open>q\<close> in an entry that is not in use.\<close>

lemma fresh_table:
  assumes wf: "wf_pt (Suc l) m p" and q: "page_ok q" "q \<notin> pages (Suc l) m p"
    and i: "i < 512" "\<not> valid (ent m p i)"
    and m2: "m2 = st64 (p + 8 * i) (PA2PTE q OR PTE_V) (snd (memset q 0 PGSIZE m))"
  shows "valid (ent m2 p i)" and "sub m2 p i = q" and "wf_pt (Suc l) m2 p"
    and "pages (Suc l) m2 p = insert q (pages (Suc l) m p)"
    and "\<forall>x. x \<notin> span (insert q (pages (Suc l) m p)) \<longrightarrow> m2 x = m x"
    and "\<forall>va. lookup (Suc l) m2 p va = lookup (Suc l) m p va"
proof -
  let ?m1 = "snd (memset q 0 PGSIZE m)"
  have p: "page_ok p" "p \<noteq> q" using wf q(2) by auto
  have e: "ent m2 p i = PA2PTE q OR PTE_V"
    unfolding ent_def m2 by (rule ld64_st64) (rule PTE_table(3) [OF q(1)])
  show v: "valid (ent m2 p i)" "sub m2 p i = q" unfolding e using PTE_table [OF q(1)] by simp_all
  have apart: "agree m ?m1 r PGSIZE" if "page_ok r" "r \<noteq> q" for r
    using page_apart [OF that(1) q(1) that(2)] by (auto simp: agree_def memset_zero disjoint_iff)
  have out: "m2 x = ?m1 x" if "x \<notin> {p..<p + PGSIZE}" for x
    unfolding m2 by (rule st_outside) (use that i in auto)
  have ag: "agree m m2 r PGSIZE" if "page_ok r" "r \<noteq> q" "r \<noteq> p" for r
  proof -
    have "agree ?m1 m2 r PGSIZE" using page_apart [OF that(1) p(1) that(3)] out by (auto simp: agree_def disjoint_iff)
    then show ?thesis using agree_trans apart [OF that(1,2)] by blast
  qed
  have z: "\<forall>x. q \<le> x \<and> x < q + PGSIZE \<longrightarrow> m2 x = 0"
    using page_apart [OF p(1) q(1) p(2)] out by (auto simp: memset_zero disjoint_iff)
  note zt = zero_table [OF z]
  have others: "\<forall>j<512. j \<noteq> i \<longrightarrow> ent m2 p j = ent m p j"
  proof (intro allI impI)
    fix j :: nat assume j: "j < 512" "j \<noteq> i"
    have "ent m2 p j = ent ?m1 p j" unfolding ent_def m2 by (rule ld_st_other) (use j(2) in auto)
    then show "ent m2 p j = ent m p j" using ent_agree [OF apart [OF p] j(1)] by simp
  qed
  have rest: "\<forall>j r. j < 512 \<longrightarrow> j \<noteq> i \<longrightarrow> valid (ent m p j) \<longrightarrow> r \<in> pages l m (sub m p j) \<longrightarrow>
      agree m m2 r PGSIZE \<and> r \<notin> pages l m2 q"
  proof (intro allI impI)
    fix j r assume j: "j < 512" "j \<noteq> i" "valid (ent m p j)" "r \<in> pages l m (sub m p j)"
    then have r: "r \<in> pages (Suc l) m p" "r \<noteq> p" using wf by auto
    then have "r \<noteq> q" "page_ok r" using q(2) wf_page_ok [OF wf] by blast+
    then show "agree m m2 r PGSIZE \<and> r \<notin> pages l m2 q" using ag [of r] r(2) zt(1) by simp
  qed
  have wq: "wf_pt l m2 q" "p \<notin> pages l m2 q" using zt q(1) p(2) by simp_all
  note up = table_update [OF wf i(1) others v wq rest]
  show "wf_pt (Suc l) m2 p" by (rule up(1))
  have split: "pages (Suc l) m p = insert p (\<Union>j\<in>{j. j < 512 \<and> j \<noteq> i \<and> valid (ent m p j)}. pages l m (sub m p j))"
    using i by auto
  show "pages (Suc l) m2 p = insert q (pages (Suc l) m p)" unfolding up(2) split zt(1) by (simp only: Un_insert_right Un_empty_right)
  show "\<forall>va. lookup (Suc l) m2 p va = lookup (Suc l) m p va"
  proof
    fix va show "lookup (Suc l) m2 p va = lookup (Suc l) m p va"
      unfolding up(3) [of va] zt(3) using i(2) by (auto simp: Let_def)
  qed
  show "\<forall>x. x \<notin> span (insert q (pages (Suc l) m p)) \<longrightarrow> m2 x = m x"
    using out root_page [of p "Suc l" m] by (auto simp: memset_zero span_def simp del: pages.simps)
qed

lemma walked_after:
  assumes q: "page_ok q" "{q..<q + PGSIZE} \<inter> allocated (tree s) = {}"
    and al: "allocated (tree s2) = allocated (tree s) \<union> {q..<q + PGSIZE}"
    and fr: "\<forall>x. x \<notin> span (insert q (pages l (bytes s) p)) \<longrightarrow> bytes s2 x = bytes s x"
    and pg: "pages l (bytes s2) p = insert q (pages l (bytes s) p)"
    and lk: "\<forall>va. lookup l (bytes s2) p va = lookup l (bytes s) p va"
    and w: "walked c kend l p va F pte s2 s'"
  shows "walked c kend l p va (insert q F) pte s s'"
  using w q al fr lk unfolding walked_def pg by (cases "pte = 0") auto

lemma walk_alloc:
  assumes "buddy_ok c kend s" and "wf_pt l (bytes s) p" and "span (pages l (bytes s) p) \<subseteq> allocated (tree s)"
    and "KERNBASE \<le> kend"
  shows "\<exists>pte s' F. walk_loop c l p va True s = Ok (pte, s') \<and> walked c kend l p va F pte s s' \<and> finite F \<and> card F \<le> l"
  using assms
proof (induction l arbitrary: p s)
  case 0
  then show ?case by (auto simp: walked_def page_ok_def intro!: exI [of _ "{}"])
next
  case (Suc l)
  define i where "i = PX (Suc l) va"
  have p: "page_ok p" "i < 512" using Suc.prems(2) by (auto simp: i_def)
  have rd: "rd64 (p + 8 * i) s = Ok (ent (bytes s) p i)" by (simp add: rd64_def ent_ram [OF p] ent_def)
  show ?case
  proof (cases "valid (ent (bytes s) p i)")
    case True
    let ?q = "sub (bytes s) p i"
    have q: "wf_pt l (bytes s) ?q" "pages l (bytes s) ?q \<subseteq> pages (Suc l) (bytes s) p" using Suc.prems(2) True p(2) by auto
    then have "span (pages l (bytes s) ?q) \<subseteq> allocated (tree s)" using Suc.prems(3) by (auto simp: span_def simp del: pages.simps)
    from Suc.IH [OF Suc.prems(1) q(1) this Suc.prems(4)] obtain pte s' F
      where w: "walk_loop c l ?q va True s = Ok (pte, s')" "walked c kend l ?q va F pte s s'" "finite F" "card F \<le> l" by blast
    have "walk_loop c (Suc l) p va True s = Ok (pte, s')" using rd True w(1) by (simp add: i_def Let_def valid_def)
    then show ?thesis using walk_into [OF Suc.prems(2,3) i_def True refl w(2)] w(3) le_SucI [OF w(4)] by blast
  next
    case False
    obtain q s1 where k: "kalloc c s = Ok (q, s1)" "buddy_ok c kend s1"
      and d: "q = 0 \<and> allocated (tree s) = {KERNBASE..<PHYSTOP}
       \<or> q \<noteq> 0 \<and> q mod PGSIZE = 0 \<and> kend \<le> q \<and> q + PGSIZE \<le> PHYSTOP \<and> live kend (tree s1) q 0
         \<and> {q..<q + PGSIZE} \<inter> allocated (tree s) = {}
         \<and> allocated (tree s1) = allocated (tree s) \<union> {q..<q + PGSIZE}"
      using kalloc_page [OF Suc.prems(1)] by (elim exE conjE) (rule that)
    have b: "bytes s1 = bytes s" by (rule kalloc_bytes [OF k(1)])
    show ?thesis
    proof (cases "q = 0")
      case True
      have t: "tree s1 = tree s" using k(1) True kalloc_full [OF Suc.prems(1)] by simp
      have "walk_loop c (Suc l) p va True s = Ok (0, s1)" using rd False k(1) True by (simp add: i_def Let_def valid_def)
      moreover have "walked c kend (Suc l) p va {} 0 s s1"
        using Suc.prems(2) k(2) t d True b by (simp add: walked_def del: pages.simps wf_pt.simps lookup.simps)
      ultimately show ?thesis by (intro exI [of _ 0] exI [of _ s1] exI [of _ "{}"]) simp
    next
      case q0: False
      define s2 where "s2 = s1\<lparr>bytes := st64 (p + 8 * i) (PA2PTE q OR PTE_V) (snd (memset q 0 PGSIZE (bytes s)))\<rparr>"
      have q: "page_ok q" "{q..<q + PGSIZE} \<inter> allocated (tree s) = {}"
        "allocated (tree s2) = allocated (tree s) \<union> {q..<q + PGSIZE}"
        using d q0 Suc.prems(4) by (simp_all add: page_ok_def s2_def)
      have new: "q \<notin> pages (Suc l) (bytes s) p"
        using q(2) Suc.prems(3) in_span [of q "pages (Suc l) (bytes s) p"] by (auto simp: disjoint_iff simp del: pages.simps)
      have "bytes s2 = st64 (p + 8 * i) (PA2PTE q OR PTE_V) (snd (memset q 0 PGSIZE (bytes s)))" by (simp add: s2_def)
      note ft = fresh_table [OF Suc.prems(2) q(1) new p(2) False this]
      have s2: "buddy_ok c kend s2" using k(2) by (simp add: s2_def buddy_ok_def lock_free_def intr_ok_def)
      have al: "span (pages (Suc l) (bytes s2) p) \<subseteq> allocated (tree s2)"
        unfolding ft(4) using Suc.prems(3) q(3) by (auto simp del: pages.simps)
      have sub: "pages l (bytes s2) q \<subseteq> pages (Suc l) (bytes s2) p" "wf_pt l (bytes s2) q"
        using ft(1,2,3) p(2) by auto
      then have "span (pages l (bytes s2) q) \<subseteq> allocated (tree s2)" using al by (auto simp: span_def simp del: pages.simps)
      from Suc.IH [OF s2 sub(2) this Suc.prems(4)] obtain pte s' F
        where w: "walk_loop c l q va True s2 = Ok (pte, s')" "walked c kend l q va F pte s2 s'" "finite F" "card F \<le> l" by blast
      have "kmemset q 0 PGSIZE s1 = Ok (s1\<lparr>bytes := snd (memset q 0 PGSIZE (bytes s))\<rparr>)"
        using q(1) b by (simp add: kmemset_def kptr_def page_ok_def ram_def)
      then have "walk_loop c (Suc l) p va True s = Ok (pte, s')"
        using rd False k(1) q0 w(1) ent_ram [OF p] by (simp add: i_def Let_def valid_def wr64_def s2_def)
      moreover have "walked c kend (Suc l) p va (insert q F) pte s s'"
        using walk_into [OF ft(3) al i_def ft(1) ft(2) [symmetric] w(2)] by (rule walked_after [OF q ft(5,4,6)])
      moreover have "finite (insert q F)" "card (insert q F) \<le> Suc l" using w(3,4) card_insert_le_m1 [of "Suc l" F q] by simp_all
      ultimately show ?thesis by blast
    qed
  qed
qed

section \<open>Writing an entry\<close>

lemma slot_entry:
  "slot_at l m p va = Some a \<Longrightarrow> lookup l m p va = ld64 m a \<and> (\<exists>r\<in>pages l m p. a = r + 8 * PX 0 va)"
proof (induction l arbitrary: p)
  case 0
  then show ?case by (simp add: ent_def)
next
  case (Suc l)
  let ?i = "PX (Suc l) va"
  have v: "valid (ent m p ?i)" "slot_at l m (sub m p ?i) va = Some a" using Suc.prems by (auto simp: Let_def split: if_splits)
  then have "pages l m (sub m p ?i) \<subseteq> pages (Suc l) m p" using PX_512 by auto
  then show ?case using Suc.IH [OF v(2)] v(1) by (auto simp: Let_def simp del: pages.simps)
qed

text \<open>The addresses of one entry have the same indices at all levels.\<close>

definition same_slot :: "nat \<Rightarrow> nat \<Rightarrow> nat \<Rightarrow> bool" where
  "same_slot l va va' = (\<forall>k\<le>l. PX k va' = PX k va)"

lemma same_slot_Suc: "same_slot (Suc l) va va' = (PX (Suc l) va' = PX (Suc l) va \<and> same_slot l va va')"
  by (auto simp: same_slot_def le_Suc_eq)

lemma write_slot:
  assumes "wf_pt l m p" and "slot_at l m p va = Some a" and "v < 2 ^ 64" and "m' = st64 a v m"
  shows "wf_pt l m' p \<and> pages l m' p = pages l m p \<and> slot_at l m' p va = Some a
    \<and> (\<forall>va'. lookup l m' p va' = (if same_slot l va va' then v else lookup l m p va'))"
  using assms(1,2)
proof (induction l arbitrary: p)
  case 0
  have "ent m' p j = (if j = PX 0 va then v else ent m p j)" for j
    using 0(2) ld64_st64 [OF assms(3)] unfolding assms(4) ent_def by (auto intro!: ld_st_other)
  then show ?case using 0 by (simp add: same_slot_def)
next
  case (Suc l)
  define i where "i = PX (Suc l) va"
  let ?q = "sub m p i"
  have i: "i < 512" "valid (ent m p i)" "slot_at l m ?q va = Some a"
    using Suc.prems(2) by (auto simp: i_def Let_def split: if_splits)
  have wf: "wf_pt l m ?q" "p \<notin> pages l m ?q" "page_ok p" using Suc.prems(1) i by auto
  note IH = Suc.IH [OF wf(1) i(3)]
  obtain r where r: "r \<in> pages l m ?q" "a = r + 8 * PX 0 va" using slot_entry [OF i(3)] by blast
  have rok: "page_ok r" by (rule wf_page_ok [OF wf(1) r(1)])
  have "8 * PX 0 va + 8 \<le> PGSIZE" using PX_512 [of 0 va] by linarith
  then have out: "m' x = m x" if "x \<notin> {r..<r + PGSIZE}" for x
    unfolding assms(4) r(2) using that by (intro st_outside) auto
  have ag: "agree m m' t PGSIZE" if "page_ok t" "t \<noteq> r" for t
    using page_apart [OF that(1) rok that(2)] out by (auto simp: agree_def disjoint_iff)
  have "p \<noteq> r" using wf(2) r(1) by blast
  then have e: "ent m' p j = ent m p j" if "j < 512" for j using ent_agree [OF ag [OF wf(3)] that] by blast
  then have others: "\<forall>j<512. j \<noteq> i \<longrightarrow> ent m' p j = ent m p j" by blast
  have here: "valid (ent m' p i)" "sub m' p i = ?q" "wf_pt l m' ?q" "p \<notin> pages l m' ?q"
    using e [OF i(1)] i(2) IH wf(2) by simp_all
  have rest: "\<forall>j t. j < 512 \<longrightarrow> j \<noteq> i \<longrightarrow> valid (ent m p j) \<longrightarrow> t \<in> pages l m (sub m p j) \<longrightarrow>
      agree m m' t PGSIZE \<and> t \<notin> pages l m' ?q"
  proof (intro allI impI)
    fix j t assume j: "j < 512" "j \<noteq> i" "valid (ent m p j)" "t \<in> pages l m (sub m p j)"
    have "pages l m (sub m p j) \<inter> pages l m ?q = {}" "wf_pt l m (sub m p j)" using Suc.prems(1) j i by auto
    then show "agree m m' t PGSIZE \<and> t \<notin> pages l m' ?q"
      using ag [of t] wf_page_ok j(4) r(1) IH by (metis disjoint_iff)
  qed
  note up = table_update [OF Suc.prems(1) i(1) others here rest]
  have "pages (Suc l) m' p = pages (Suc l) m p" unfolding up(2) using IH i by auto
  moreover have "lookup (Suc l) m' p va' = (if same_slot (Suc l) va va' then v else lookup (Suc l) m p va')" for va'
  proof -
    have "lookup (Suc l) m p va' = lookup l m ?q va'" if "PX (Suc l) va' = i" using that i(2) by (simp add: Let_def)
    then show ?thesis unfolding up(3) [of va'] same_slot_Suc i_def [symmetric] using IH by (simp del: lookup.simps)
  qed
  moreover have "slot_at (Suc l) m' p va = Some a" using up(4) [of va] IH by (simp add: i_def)
  ultimately show ?case using up(1) by blast
qed

lemma same_slot_page:
  assumes "va < MAXVA" and "va' < MAXVA"
  shows "same_slot 2 va va' = (va' div PGSIZE = va div PGSIZE)"
proof -
  have d: "same_slot 2 va va' = (\<forall>k\<in>{0, 1, 2}. PX k va' = PX k va)" unfolding same_slot_def by (auto simp: numeral_2_eq_2 le_Suc_eq)
  define x y where "x = va div 4096" and "y = va' div 4096"
  have b: "x < 2 ^ 26" "y < 2 ^ 26" using assms by (auto simp: x_def y_def less_mult_imp_div_less)
  have px: "PX 0 u = u div 4096 mod 512" "PX (Suc 0) u = u div 4096 div 512 mod 512" "PX 2 u = u div 4096 div 512 div 512 mod 512" for u
    by (simp_all add: PX_div flip: div_mult2_eq)
  have top: "z div 512 div 512 mod 512 = z div 512 div 512" if "z < 2 ^ 26" for z :: nat
  proof -
    have "z div 512 < 2 ^ 17" using that by (intro less_mult_imp_div_less) simp
    then have "z div 512 div 512 < 2 ^ 8" by (intro less_mult_imp_div_less) simp
    then show ?thesis by simp
  qed
  have "x = y" if "x mod 512 = y mod 512" "x div 512 mod 512 = y div 512 mod 512" "x div 512 div 512 = y div 512 div 512"
    using that by (metis mult_div_mod_eq)
  then show ?thesis unfolding d using top b by (auto simp: px simp flip: x_def y_def)
qed

section \<open>Mapping pages\<close>

definition pt_ok :: "nat \<Rightarrow> nat \<Rightarrow> nat \<Rightarrow> 'z kmem_scheme \<Rightarrow> bool" where
  "pt_ok c kend p s = (buddy_ok c kend s \<and> KERNBASE \<le> kend \<and> wf_pt 2 (bytes s) p
     \<and> span (pages 2 (bytes s) p) \<subseteq> allocated (tree s))"

text \<open>Between the states, only pages of the table and pages that were free are written.\<close>

definition keeps :: "nat \<Rightarrow> 'z kmem_scheme \<Rightarrow> 'z kmem_scheme \<Rightarrow> bool" where
  "keeps p s s' = (allocated (tree s) \<subseteq> allocated (tree s')
     \<and> (\<forall>x\<in>allocated (tree s) - span (pages 2 (bytes s) p). x \<notin> span (pages 2 (bytes s') p) \<and> bytes s' x = bytes s x))"

lemma keeps_trans: "keeps p s s1 \<Longrightarrow> keeps p s1 s2 \<Longrightarrow> keeps p s s2"
proof -
  assume a: "keeps p s s1" "keeps p s1 s2"
  then have sub: "allocated (tree s) \<subseteq> allocated (tree s1)" "allocated (tree s1) \<subseteq> allocated (tree s2)"
    by (simp_all add: keeps_def)
  have "x \<notin> span (pages 2 (bytes s2) p) \<and> bytes s2 x = bytes s x"
    if x: "x \<in> allocated (tree s) - span (pages 2 (bytes s) p)" for x
  proof -
    have "x \<notin> span (pages 2 (bytes s1) p)" "bytes s1 x = bytes s x" using a(1) x unfolding keeps_def by blast+
    moreover have "x \<in> allocated (tree s1)" using x sub(1) by blast
    ultimately show ?thesis using a(2) unfolding keeps_def by simp
  qed
  then show ?thesis using sub unfolding keeps_def by blast
qed

lemma walk_table:
  assumes ok: "pt_ok c kend p s" and va: "va < MAXVA"
  shows "\<exists>pte s'. walk c p va True s = Ok (pte, s') \<and> pt_ok c kend p s' \<and> keeps p s s'
    \<and> (\<forall>va'. lookup 2 (bytes s') p va' = lookup 2 (bytes s) p va')
    \<and> (if pte = 0 then allocated (tree s') = {KERNBASE..<PHYSTOP} else slot_at 2 (bytes s') p va = Some pte)"
proof -
  obtain pte s' F where w: "walk_loop c 2 p va True s = Ok (pte, s')" "walked c kend 2 p va F pte s s'"
    using walk_alloc [of c kend s 2 p va] ok unfolding pt_ok_def by blast
  have "pt_ok c kend p s'" "keeps p s s'" using w(2) ok unfolding pt_ok_def keeps_def walked_def by auto
  moreover have "walk c p va True s = Ok (pte, s')" using w(1) va by (simp add: walk_def)
  ultimately show ?thesis using w(2) unfolding walked_def by blast
qed

lemma slot_ram:
  assumes "pt_ok c kend p s" and "slot_at 2 (bytes s) p va = Some a"
  shows "ram a 8" and "lookup 2 (bytes s) p va = ld64 (bytes s) a" and "a \<noteq> 0"
proof -
  have wf: "wf_pt 2 (bytes s) p" using assms(1) by (simp add: pt_ok_def)
  obtain r where r: "r \<in> pages 2 (bytes s) p" "a = r + 8 * PX 0 va" using slot_entry [OF assms(2)] by blast
  show "ram a 8" unfolding r(2) by (rule ent_ram [OF wf_page_ok [OF wf r(1)] PX_512])
  then show "a \<noteq> 0" by (auto simp: ram_def)
  show "lookup 2 (bytes s) p va = ld64 (bytes s) a" using slot_entry [OF assms(2)] by blast
qed

lemma write_table:
  assumes ok: "pt_ok c kend p s" and sl: "slot_at 2 (bytes s) p va = Some a" and "va < MAXVA" and v: "v < 2 ^ 64"
  shows "\<exists>s'. wr64 a v s = Ok s' \<and> pt_ok c kend p s' \<and> keeps p s s' \<and> tree s' = tree s
    \<and> (\<forall>va'<MAXVA. lookup 2 (bytes s') p va' = (if va' div PGSIZE = va div PGSIZE then v else lookup 2 (bytes s) p va'))"
proof -
  let ?s = "s\<lparr>bytes := st64 a v (bytes s)\<rparr>"
  have wf: "wf_pt 2 (bytes s) p" using ok by (simp add: pt_ok_def)
  note w = write_slot [OF wf sl v, of "bytes ?s", simplified]
  have "pt_ok c kend p ?s" using ok w by (simp add: pt_ok_def buddy_ok_def lock_free_def intr_ok_def)
  moreover have "keeps p s ?s"
  proof -
    obtain r where r: "r \<in> pages 2 (bytes s) p" "a = r + 8 * PX 0 va" using slot_entry [OF sl] by blast
    have b: "8 * PX 0 va + 8 \<le> PGSIZE" using PX_512 [of 0 va] by linarith
    have "st64 a v (bytes s) x = bytes s x" if "x \<notin> span (pages 2 (bytes s) p)" for x
    proof -
      have "x \<notin> {r..<r + PGSIZE}" using that span_mem [OF r(1)] by blast
      then show ?thesis using b r(2) by (intro st_outside) auto
    qed
    then show ?thesis using w by (simp add: keeps_def)
  qed
  moreover have "wr64 a v s = Ok ?s" using slot_ram(1) [OF ok sl] by (simp add: wr64_def)
  moreover have "\<forall>va'<MAXVA. lookup 2 (bytes ?s) p va' = (if va' div PGSIZE = va div PGSIZE then v else lookup 2 (bytes s) p va')"
    using w same_slot_page [OF assms(3)] by simp
  ultimately show ?thesis by (intro exI [of _ ?s]) simp
qed

text \<open>The entries for \<open>k\<close> pages from page number \<open>N\<close> on replaced by those of \<open>mappages\<close>.\<close>

definition map_upd :: "nat \<Rightarrow> nat \<Rightarrow> nat \<Rightarrow> nat \<Rightarrow> (nat \<Rightarrow> nat) \<Rightarrow> nat \<Rightarrow> nat" where
  "map_upd N k pa perm f va =
     (if N \<le> va div PGSIZE \<and> va div PGSIZE < N + k
      then PA2PTE (pa + (va div PGSIZE - N) * PGSIZE) OR perm OR PTE_V else f va)"

lemma map_upd_0 [simp]: "map_upd N 0 pa perm f va = f va"
  by (simp add: map_upd_def)

lemma map_upd_Suc:
  "g va = (if va div PGSIZE = N then PA2PTE pa OR perm OR PTE_V else f va) \<Longrightarrow>
   map_upd (Suc N) k (pa + PGSIZE) perm g va = map_upd N (Suc k) pa perm f va"
proof -
  assume g: "g va = (if va div PGSIZE = N then PA2PTE pa OR perm OR PTE_V else f va)"
  define n where "n = va div PGSIZE"
  consider "n < N" | "n = N" | d where "n = Suc N + d" by (metis less_natE add_Suc linorder_neqE_nat)
  then show ?thesis
  proof cases
    case 3
    have "pa + PGSIZE + d * PGSIZE = pa + Suc d * PGSIZE" by simp
    then show ?thesis using 3 g unfolding map_upd_def n_def [symmetric] by (simp add: add.assoc)
  qed (use g in \<open>simp_all add: map_upd_def flip: n_def\<close>)
qed

lemma or_below: "x < 2 ^ n \<Longrightarrow> y < 2 ^ n \<Longrightarrow> (x OR y :: nat) < 2 ^ n"
  by (metis take_bit_nat_eq_self take_bit_nat_less_exp take_bit_or)

lemma leaf_bound: "pa < 2 ^ 64 \<Longrightarrow> perm < 1024 \<Longrightarrow> PA2PTE pa OR perm OR PTE_V < 2 ^ 64"
proof -
  assume a: "pa < 2 ^ 64" "perm < 1024"
  have "pa div 4096 < 2 ^ 52" using a(1) by (intro less_mult_imp_div_less) simp
  then have "PA2PTE pa < 2 ^ 64" by (simp add: PA2PTE_def push_bit_eq_mult drop_bit_eq_div)
  then show ?thesis using a(2) by (intro or_below) simp_all
qed

lemma map_step:
  assumes ok: "pt_ok c kend p s" and N: "N * PGSIZE < MAXVA" and pa: "pa < 2 ^ 64" "perm < 1024"
    and free: "\<not> valid (lookup 2 (bytes s) p (N * PGSIZE))"
  obtains (full) s' where "pt_ok c kend p s'" and "keeps p s s'" and "allocated (tree s') = {KERNBASE..<PHYSTOP}"
      and "\<And>e. mappages_loop c p (N * PGSIZE) e pa perm s = Ok (- 1, s')"
      and "\<And>va. lookup 2 (bytes s') p va = lookup 2 (bytes s) p va"
    | (more) s' where "pt_ok c kend p s'" and "keeps p s s'"
      and "\<And>e. mappages_loop c p (N * PGSIZE) e pa perm s =
        (if N * PGSIZE = e then Ok (0, s') else mappages_loop c p (add64 (N * PGSIZE) PGSIZE) e (add64 pa PGSIZE) perm s')"
      and "\<And>va. va < MAXVA \<Longrightarrow> lookup 2 (bytes s') p va =
        (if va div PGSIZE = N then PA2PTE pa OR perm OR PTE_V else lookup 2 (bytes s) p va)"
proof -
  obtain pte s1 where w: "walk c p (N * PGSIZE) True s = Ok (pte, s1)" and ok1: "pt_ok c kend p s1" and k1: "keeps p s s1"
    and l1: "\<forall>va. lookup 2 (bytes s1) p va = lookup 2 (bytes s) p va"
    and r: "if pte = 0 then allocated (tree s1) = {KERNBASE..<PHYSTOP} else slot_at 2 (bytes s1) p (N * PGSIZE) = Some pte"
    using walk_table [OF ok N] by (elim exE conjE) (rule that)
  show ?thesis
  proof (cases "pte = 0")
    case True
    have "mappages_loop c p (N * PGSIZE) e pa perm s = Ok (- 1, s1)" for e
      by (subst mappages_loop.simps) (simp add: w True)
    then show ?thesis using ok1 k1 l1 r True by (intro full [of s1]) simp_all
  next
    case False
    then have sl: "slot_at 2 (bytes s1) p (N * PGSIZE) = Some pte" using r by simp
    have rd: "rd64 pte s1 = Ok (lookup 2 (bytes s) p (N * PGSIZE))"
      using slot_ram [OF ok1 sl] l1 by (simp add: rd64_def)
    obtain s2 where s2: "wr64 pte (PA2PTE pa OR perm OR PTE_V) s1 = Ok s2" "pt_ok c kend p s2" "keeps p s1 s2"
      "\<forall>va<MAXVA. lookup 2 (bytes s2) p va =
         (if va div PGSIZE = N * PGSIZE div PGSIZE then PA2PTE pa OR perm OR PTE_V else lookup 2 (bytes s1) p va)"
      using write_table [OF ok1 sl N leaf_bound [OF pa]] by (elim exE conjE) (rule that)
    have "mappages_loop c p (N * PGSIZE) e pa perm s =
        (if N * PGSIZE = e then Ok (0, s2) else mappages_loop c p (add64 (N * PGSIZE) PGSIZE) e (add64 pa PGSIZE) perm s2)" for e
      using False rd free s2(1) w by (subst mappages_loop.simps) (simp add: valid_def)
    moreover have "keeps p s s2" by (rule keeps_trans [OF k1 s2(3)])
    ultimately show ?thesis using s2(2,4) l1 by (intro more [of s2]) simp_all
  qed
qed

lemma mappages_loop_maps:
  assumes "pt_ok c kend p s" and "(N + Suc n) * PGSIZE \<le> MAXVA" and "pa + Suc n * PGSIZE \<le> 2 ^ 64" and "perm < 1024"
    and "\<forall>va<MAXVA. N \<le> va div PGSIZE \<and> va div PGSIZE < N + Suc n \<longrightarrow> \<not> valid (lookup 2 (bytes s) p va)"
  shows "\<exists>r s' k. mappages_loop c p (N * PGSIZE) ((N + n) * PGSIZE) pa perm s = Ok (r, s')
    \<and> pt_ok c kend p s' \<and> keeps p s s'
    \<and> (r = 0 \<and> k = Suc n \<or> r = - 1 \<and> k < Suc n \<and> allocated (tree s') = {KERNBASE..<PHYSTOP})
    \<and> (\<forall>va<MAXVA. lookup 2 (bytes s') p va = map_upd N k pa perm (lookup 2 (bytes s) p) va)"
  using assms
proof (induction n arbitrary: N pa s)
  case (0 N pa s)
  have b: "N * PGSIZE < MAXVA" "pa < 2 ^ 64" using "0.prems"(2,3) by simp_all
  have "\<not> valid (lookup 2 (bytes s) p (N * PGSIZE))" using "0.prems"(5) b(1) by simp
  note step = map_step [OF "0.prems"(1) b "0.prems"(4) this]
  show ?case
  proof (cases rule: step [case_names full more])
    case (full s')
    then show ?thesis by (intro exI [of _ "- 1"] exI [of _ s'] exI [of _ 0]) simp
  next
    case (more s')
    then show ?thesis by (intro exI [of _ 0] exI [of _ s'] exI [of _ "Suc 0"]) (auto simp: map_upd_def)
  qed
next
  case (Suc n N pa s)
  have b: "N * PGSIZE < MAXVA" "pa < 2 ^ 64" using Suc.prems(2,3) by simp_all
  have "\<not> valid (lookup 2 (bytes s) p (N * PGSIZE))" using Suc.prems(5) b(1) by simp
  note step = map_step [OF Suc.prems(1) b Suc.prems(4) this]
  show ?case
  proof (cases rule: step [case_names full more])
    case (full s')
    then show ?thesis by (intro exI [of _ "- 1"] exI [of _ s'] exI [of _ 0]) simp
  next
    case (more s1)
    have nx: "add64 (N * PGSIZE) PGSIZE = Suc N * PGSIZE" "add64 pa PGSIZE = pa + PGSIZE" "(N + Suc n) * PGSIZE = (Suc N + n) * PGSIZE"
      using Suc.prems(2,3) by (simp_all add: add64_def)
    have fr: "\<forall>va<MAXVA. Suc N \<le> va div PGSIZE \<and> va div PGSIZE < Suc N + Suc n \<longrightarrow> \<not> valid (lookup 2 (bytes s1) p va)"
      using Suc.prems(5) more(4) by auto
    have bs: "(Suc N + Suc n) * PGSIZE \<le> MAXVA" "(pa + PGSIZE) + Suc n * PGSIZE \<le> 2 ^ 64" using Suc.prems(2,3) by simp_all
    obtain r s' k where IH: "mappages_loop c p (Suc N * PGSIZE) ((Suc N + n) * PGSIZE) (pa + PGSIZE) perm s1 = Ok (r, s')"
      "pt_ok c kend p s'" "keeps p s1 s'"
      "r = 0 \<and> k = Suc n \<or> r = - 1 \<and> k < Suc n \<and> allocated (tree s') = {KERNBASE..<PHYSTOP}"
      "\<forall>va<MAXVA. lookup 2 (bytes s') p va = map_upd (Suc N) k (pa + PGSIZE) perm (lookup 2 (bytes s1) p) va"
      using Suc.IH [OF more(1) bs Suc.prems(4) fr] by (elim exE conjE) (rule that)
    have "mappages_loop c p (N * PGSIZE) ((N + Suc n) * PGSIZE) pa perm s = Ok (r, s')"
      using more(3) [of "(N + Suc n) * PGSIZE"] IH(1) unfolding nx by simp
    moreover have "\<forall>va<MAXVA. lookup 2 (bytes s') p va = map_upd N (Suc k) pa perm (lookup 2 (bytes s) p) va"
      using IH(5) more(4) map_upd_Suc by simp
    moreover have "keeps p s s'" by (rule keeps_trans [OF more(2) IH(3)])
    ultimately show ?thesis using IH(2,4) by (intro exI [of _ r] exI [of _ s'] exI [of _ "Suc k"]) simp
  qed
qed

section \<open>Reading the table\<close>

lemma walk_find:
  "wf_pt l (bytes s) p \<Longrightarrow> walk_loop c l p va False s = Ok (case slot_at l (bytes s) p va of None \<Rightarrow> 0 | Some a \<Rightarrow> a, s)"
proof (induction l arbitrary: p)
  case 0
  then show ?case by simp
next
  case (Suc l)
  let ?i = "PX (Suc l) va"
  have rd: "rd64 (p + 8 * ?i) s = Ok (ent (bytes s) p ?i)"
    using Suc.prems ent_ram [of p ?i] by (simp add: rd64_def ent_def)
  have "wf_pt l (bytes s) (sub (bytes s) p ?i)" if "valid (ent (bytes s) p ?i)" using Suc.prems that by simp
  from Suc.IH [OF this] show ?case using rd by (cases "valid (ent (bytes s) p ?i)") (simp_all add: Let_def valid_def)
qed

lemma no_slot: "slot_at l m p va = None \<Longrightarrow> lookup l m p va = 0"
  by (induction l arbitrary: p) (auto simp: Let_def)

lemma walkaddr_lookup:
  assumes ok: "pt_ok c kend p s"
  shows "walkaddr c p va s =
    Ok (if va < MAXVA \<and> valid (lookup 2 (bytes s) p va) \<and> lookup 2 (bytes s) p va AND PTE_U \<noteq> 0
        then PTE2PA (lookup 2 (bytes s) p va) else 0)"
proof (cases "va < MAXVA")
  case True
  have w: "walk c p va False s = Ok (case slot_at 2 (bytes s) p va of None \<Rightarrow> 0 | Some a \<Rightarrow> a, s)"
    using walk_find [of 2 s p c va] ok True by (simp add: walk_def pt_ok_def)
  show ?thesis
  proof (cases "slot_at 2 (bytes s) p va")
    case None
    then show ?thesis using True w no_slot [OF None] by (simp add: walkaddr_def valid_def)
  next
    case (Some a)
    have "rd64 a s = Ok (lookup 2 (bytes s) p va)" using slot_ram [OF ok Some] by (simp add: rd64_def)
    then show ?thesis using True w Some slot_ram(3) [OF ok Some] by (simp add: walkaddr_def valid_def)
  qed
qed (simp add: walkaddr_def)

lemma walk_hit: "wf_pt l (bytes s) p \<Longrightarrow> slot_at l (bytes s) p va = Some a \<Longrightarrow> walk_loop c l p va alloc s = Ok (a, s)"
proof (induction l arbitrary: p)
  case 0
  then show ?case by simp
next
  case (Suc l)
  let ?i = "PX (Suc l) va"
  have rd: "rd64 (p + 8 * ?i) s = Ok (ent (bytes s) p ?i)"
    using Suc.prems(1) ent_ram [of p ?i] by (simp add: rd64_def ent_def)
  have v: "valid (ent (bytes s) p ?i)" "slot_at l (bytes s) (sub (bytes s) p ?i) va = Some a"
    using Suc.prems(2) by (auto simp: Let_def split: if_splits)
  then have "wf_pt l (bytes s) (sub (bytes s) p ?i)" using Suc.prems(1) by simp
  from Suc.IH [OF this v(2)] show ?case using rd v(1) by (simp add: Let_def valid_def)
qed

lemma remap_first:
  assumes ok: "pt_ok c kend p s" and va: "va < MAXVA" and v: "valid (lookup 2 (bytes s) p va)"
  shows "mappages_loop c p va e pa perm s = Err (Panic ''mappages: remap'')"
proof -
  obtain a where a: "slot_at 2 (bytes s) p va = Some a"
    using v no_slot [of 2 "bytes s" p va] by (cases "slot_at 2 (bytes s) p va") (auto simp: valid_def)
  have "walk c p va True s = Ok (a, s)" using walk_hit [OF _ a] ok va by (simp add: walk_def pt_ok_def)
  moreover have "rd64 a s = Ok (lookup 2 (bytes s) p va)" "a \<noteq> 0" using slot_ram [OF ok a] by (simp_all add: rd64_def)
  ultimately show ?thesis using v by (subst mappages_loop.simps) (simp add: valid_def)
qed

lemma remap_loop:
  assumes "pt_ok c kend p s" and "(N + Suc n) * PGSIZE \<le> MAXVA" and "pa + Suc n * PGSIZE \<le> 2 ^ 64" and "perm < 1024"
    and "N \<le> j" and "j < N + Suc n" and "valid (lookup 2 (bytes s) p (j * PGSIZE))"
  shows "mappages_loop c p (N * PGSIZE) ((N + n) * PGSIZE) pa perm s = Err (Panic ''mappages: remap'')
    \<or> (\<exists>s'. mappages_loop c p (N * PGSIZE) ((N + n) * PGSIZE) pa perm s = Ok (- 1, s')
          \<and> allocated (tree s') = {KERNBASE..<PHYSTOP})"
  using assms
proof (induction n arbitrary: N pa s)
  case (0 N pa s)
  then show ?case using remap_first [OF "0.prems"(1), of "N * PGSIZE"] by (cases "j = N") simp_all
next
  case (Suc n N pa s)
  have b: "N * PGSIZE < MAXVA" "pa < 2 ^ 64" using Suc.prems(2,3) by simp_all
  show ?case
  proof (cases "valid (lookup 2 (bytes s) p (N * PGSIZE))")
    case True
    then show ?thesis using remap_first [OF Suc.prems(1) b(1)] by blast
  next
    case False
    note step = map_step [OF Suc.prems(1) b Suc.prems(4) False]
    show ?thesis
    proof (cases rule: step [case_names full more])
      case (full s')
      then show ?thesis by blast
    next
      case (more s1)
      have j: "j \<noteq> N" "Suc N \<le> j" using False Suc.prems(5,7) by (metis le_neq_implies_less Suc_leI)+
      have nx: "add64 (N * PGSIZE) PGSIZE = Suc N * PGSIZE" "add64 pa PGSIZE = pa + PGSIZE" "(N + Suc n) * PGSIZE = (Suc N + n) * PGSIZE"
        using Suc.prems(2,3) by (simp_all add: add64_def)
      have bs: "(Suc N + Suc n) * PGSIZE \<le> MAXVA" "(pa + PGSIZE) + Suc n * PGSIZE \<le> 2 ^ 64" "j < Suc N + Suc n"
        "j * PGSIZE < MAXVA" using Suc.prems(2,3,6) by simp_all
      have "valid (lookup 2 (bytes s1) p (j * PGSIZE))" using more(4) [OF bs(4)] j(1) Suc.prems(7) by simp
      from Suc.IH [OF more(1) bs(1,2) Suc.prems(4) j(2) bs(3) this] show ?thesis
        using more(3) [of "(N + Suc n) * PGSIZE"] unfolding nx by simp
    qed
  qed
qed

section \<open>Properties\<close>

lemma mappages_pages:
  assumes "va mod PGSIZE = 0" and "va + Suc n * PGSIZE \<le> MAXVA"
  shows "mappages c p va (Suc n * PGSIZE) pa perm s =
    mappages_loop c p (va div PGSIZE * PGSIZE) ((va div PGSIZE + n) * PGSIZE) pa perm s"
proof -
  have v: "va div PGSIZE * PGSIZE = va" using assms(1) by auto
  have "sub64 (add64 va (Suc n * PGSIZE)) PGSIZE = va + n * PGSIZE" using assms(2) by (simp add: sub64_def add64_def)
  then show ?thesis using assms(1) unfolding mappages_def add_mult_distrib v by simp
qed

lemma page_range:
  assumes "va mod PGSIZE = 0"
  shows "va div PGSIZE \<le> x div PGSIZE \<and> x div PGSIZE < va div PGSIZE + n \<longleftrightarrow> va \<le> x \<and> x < va + n * PGSIZE"
proof -
  obtain N where N: "va = N * PGSIZE" using assms by (metis mod_0_imp_dvd dvd_def mult.commute)
  have "N \<le> x div PGSIZE \<longleftrightarrow> N * PGSIZE \<le> x" by (rule less_eq_div_iff_mult_less_eq) simp
  moreover have "x div PGSIZE < N + n \<longleftrightarrow> x < (N + n) * PGSIZE" by (rule div_less_iff_less_mult) simp
  ultimately show ?thesis unfolding N by (simp add: add_mult_distrib)
qed

lemma mappages_range:
  assumes "pt_ok c kend p s" and "va mod PGSIZE = 0" and "0 < n" and "va + n * PGSIZE \<le> MAXVA"
    and "pa + n * PGSIZE \<le> 2 ^ 64" and "perm < 1024"
    and "\<forall>x. va \<le> x \<and> x < va + n * PGSIZE \<longrightarrow> \<not> valid (lookup 2 (bytes s) p x)"
  shows "\<exists>r s' k. mappages c p va (n * PGSIZE) pa perm s = Ok (r, s') \<and> pt_ok c kend p s' \<and> keeps p s s'
    \<and> (r = 0 \<and> k = n \<or> r = - 1 \<and> k < n \<and> allocated (tree s') = {KERNBASE..<PHYSTOP})
    \<and> (\<forall>x<MAXVA. lookup 2 (bytes s') p x = map_upd (va div PGSIZE) k pa perm (lookup 2 (bytes s) p) x)"
proof -
  obtain n' where n: "n = Suc n'" using assms(3) by (cases n) auto
  have v: "va div PGSIZE * PGSIZE = va" using assms(2) by auto
  have b: "(va div PGSIZE + Suc n') * PGSIZE \<le> MAXVA" using assms(4) unfolding n add_mult_distrib v .
  have fr: "\<forall>x<MAXVA. va div PGSIZE \<le> x div PGSIZE \<and> x div PGSIZE < va div PGSIZE + Suc n' \<longrightarrow>
      \<not> valid (lookup 2 (bytes s) p x)"
    unfolding page_range [OF assms(2)] using assms(7) unfolding n by blast
  show ?thesis unfolding n mappages_pages [OF assms(2) assms(4) [unfolded n]]
    by (rule mappages_loop_maps [OF assms(1) b assms(5) [unfolded n] assms(6) fr])
qed

lemma leaf_read:
  assumes "pa < 2 ^ 56" and "pa mod 4096 = 0" and "perm < 1024" and "perm AND PTE_U \<noteq> 0"
  shows "valid (PA2PTE pa OR perm OR PTE_V)" and "(PA2PTE pa OR perm OR PTE_V) AND PTE_U \<noteq> 0"
    and "PTE2PA (PA2PTE pa OR perm OR PTE_V) = pa"
proof -
  have and_bit: "a AND PTE_V \<noteq> 0 \<longleftrightarrow> bit a 0" "a AND PTE_U \<noteq> 0 \<longleftrightarrow> bit a 4" for a :: nat
    using and_exp_eq_0_iff_not_bit [of a 0] and_exp_eq_0_iff_not_bit [of a 4] by simp_all
  show "valid (PA2PTE pa OR perm OR PTE_V)" unfolding valid_def and_bit by (simp add: bit_0 even_or_iff)
  show "(PA2PTE pa OR perm OR PTE_V) AND PTE_U \<noteq> 0" using assms(4) unfolding and_bit by (simp add: bit_or_iff)
  define f n where "f = (perm OR PTE_V)" and "n = pa div 4096"
  have f: "f < 1024" using or_below [of perm 10 PTE_V] assms(3) by (simp add: f_def)
  have e: "PA2PTE pa OR f = n * 1024 + f" using or_disjoint [OF f, of n] by (simp add: PA2PTE_def drop_bit_eq_div n_def)
  have "(n * 1024 + f) div 1024 = n" using f by (intro div_nat_eqI) auto
  then have "PTE2PA (PA2PTE pa OR f) = n * 4096 mod 2 ^ 64"
    unfolding e by (simp only: PTE2PA_def push_bit_eq_mult drop_bit_eq_div) simp
  moreover have "n * 4096 = pa" using assms(2) by (auto simp: n_def)
  ultimately show "PTE2PA (PA2PTE pa OR perm OR PTE_V) = pa" using assms(1) unfolding f_def by simp
qed

text \<open>Two states for the witnesses: a table with no entry, and one with the page at 4096 mapped.\<close>

definition kmem_boot :: kmem where
  "kmem_boot = buddy.extend boot_mem \<lparr>bytes = (\<lambda>_. 0), printed = []\<rparr>"

lemma kmem_boot_ok: "buddy_ok 0 KERNBASE kmem_boot" "allocated (tree kmem_boot) = {}" "bytes kmem_boot = (\<lambda>_. 0)"
proof -
  have t: "tree kmem_boot = tree boot_mem" "bytes kmem_boot = (\<lambda>_. 0)" by (simp_all add: kmem_boot_def buddy.defs)
  show "buddy_ok 0 KERNBASE kmem_boot"
    using boot_mem_buddy by (simp add: buddy_ok_def lock_free_def intr_ok_def kmem_boot_def buddy.defs)
  show "allocated (tree kmem_boot) = {}" unfolding t by (simp add: allocated_def boot_mem_ok used_def used_upto_def)
  show "bytes kmem_boot = (\<lambda>_. 0)" by (rule t)
qed

lemma fresh_pt: "\<exists>(s :: kmem) p. pt_ok 0 KERNBASE p s \<and> allocated (tree s) = span {p} \<and> (\<forall>x. lookup 2 (bytes s) p x = 0)"
proof -
  obtain p s where k: "kalloc 0 kmem_boot = Ok (p, s)" "buddy_ok 0 KERNBASE s"
    and d: "p = 0 \<and> allocated (tree kmem_boot) = {KERNBASE..<PHYSTOP}
       \<or> p \<noteq> 0 \<and> p mod PGSIZE = 0 \<and> KERNBASE \<le> p \<and> p + PGSIZE \<le> PHYSTOP \<and> live KERNBASE (tree s) p 0
         \<and> {p..<p + PGSIZE} \<inter> allocated (tree kmem_boot) = {}
         \<and> allocated (tree s) = allocated (tree kmem_boot) \<union> {p..<p + PGSIZE}"
    using kalloc_page [OF kmem_boot_ok(1)] by (elim exE conjE) (rule that)
  then have p: "page_ok p" "allocated (tree s) = span {p}" by (auto simp: kmem_boot_ok(2) page_ok_def)
  have "bytes s = (\<lambda>_. 0)" using kalloc_bytes [OF k(1)] by (simp add: kmem_boot_ok)
  then have "\<forall>x. p \<le> x \<and> x < p + PGSIZE \<longrightarrow> bytes s x = 0" by simp
  note z = zero_table [OF this]
  have "pt_ok 0 KERNBASE p s" using k(2) p z by (simp add: pt_ok_def)
  then show ?thesis using p(2) z(3) by blast
qed

lemma card_span: "finite P \<Longrightarrow> card (span P) \<le> PGSIZE * card P"
  unfolding span_def using card_UN_le [of P "\<lambda>p. {p..<p + PGSIZE}"] by simp

lemma mapped_pt: "\<exists>(s :: kmem) p. pt_ok 0 KERNBASE p s \<and> valid (lookup 2 (bytes s) p 4096)"
proof -
  obtain s :: kmem and p where s: "pt_ok 0 KERNBASE p s" "allocated (tree s) = span {p}" using fresh_pt by blast
  obtain pte s1 F where w: "walk_loop 0 2 p 4096 True s = Ok (pte, s1)" "walked 0 KERNBASE 2 p 4096 F pte s s1"
    "finite F" "card F \<le> 2"
    using walk_alloc [of 0 KERNBASE s 2 p 4096] s(1) unfolding pt_ok_def by blast
  have ok: "pt_ok 0 KERNBASE p s1" using w(2) s(1) unfolding pt_ok_def walked_def by auto
  have "allocated (tree s1) = span (insert p F)" using w(2) s(2) by (simp add: walked_def)
  moreover have "card (insert p F) \<le> 3" using w(3,4) card_insert_le_m1 [of 3 F p] by simp
  ultimately have "card (allocated (tree s1)) \<le> PGSIZE * 3" using card_span [of "insert p F"] w(3) by simp
  then have "allocated (tree s1) \<noteq> {KERNBASE..<PHYSTOP}" by auto
  then have "slot_at 2 (bytes s1) p 4096 = Some pte" using w(2) by (auto simp: walked_def split: if_splits)
  from write_table [OF ok this, of 17] obtain s2 :: kmem where s2: "pt_ok 0 KERNBASE p s2"
    "\<forall>x<MAXVA. lookup 2 (bytes s2) p x = (if x div PGSIZE = 4096 div PGSIZE then 17 else lookup 2 (bytes s1) p x)"
    by auto
  then have "lookup 2 (bytes s2) p 4096 = 17" by simp
  then show ?thesis using s2(1) by (intro exI [of _ s2] exI [of _ p]) (simp add: valid_def)
qed

text \<open>C24. \<open>mappages\<close> on a range of user addresses in which no page is mapped, from any state with a
  well-formed three-level table in allocated pages: it returns; the table stays well-formed and the
  memory in use outside it is not written; if 0 is returned the entries of exactly the pages of the
  range have changed, to the consecutive physical pages with the permissions, and if -1 is returned,
  only when the whole memory is in use, those of a prefix of the range.\<close>

theorem mappages_maps:
  assumes "pt_ok c kend p s" and "va mod PGSIZE = 0" and "0 < n" and "va + n * PGSIZE \<le> MAXVA"
    and "pa + n * PGSIZE \<le> 2 ^ 64" and "perm < 1024"
    and "\<forall>x. va \<le> x \<and> x < va + n * PGSIZE \<longrightarrow> \<not> valid (lookup 2 (bytes s) p x)"
  shows "\<exists>r s' k. mappages c p va (n * PGSIZE) pa perm s = Ok (r, s') \<and> pt_ok c kend p s' \<and> keeps p s s'
    \<and> (r = 0 \<and> k = n \<or> r = - 1 \<and> k < n \<and> allocated (tree s') = {KERNBASE..<PHYSTOP})
    \<and> (\<forall>x<MAXVA. lookup 2 (bytes s') p x = map_upd (va div PGSIZE) k pa perm (lookup 2 (bytes s) p) x)"
  using assms by (rule mappages_range)

theorem mappages_maps_witness:
  "\<exists>(s :: kmem) p r s' k. pt_ok 0 KERNBASE p s \<and> mappages 0 p 8192 (3 * PGSIZE) KERNBASE 22 s = Ok (r, s')
    \<and> (\<forall>x<MAXVA. lookup 2 (bytes s') p x = map_upd 2 k KERNBASE 22 (\<lambda>_. 0) x)"
proof -
  obtain s :: kmem and p where s: "pt_ok 0 KERNBASE p s" "\<forall>x. lookup 2 (bytes s) p x = 0" using fresh_pt by blast
  then have l: "lookup 2 (bytes s) p = (\<lambda>_. 0)" by auto
  have "\<forall>x. 8192 \<le> x \<and> x < 8192 + 3 * PGSIZE \<longrightarrow> \<not> valid (lookup 2 (bytes s) p x)" unfolding l by (simp add: valid_def)
  then obtain r s' k where "mappages 0 p 8192 (3 * PGSIZE) KERNBASE 22 s = Ok (r, s')"
    "\<forall>x<MAXVA. lookup 2 (bytes s') p x = map_upd (8192 div PGSIZE) k KERNBASE 22 (lookup 2 (bytes s) p) x"
    using mappages_maps [OF s(1), of 8192 3 KERNBASE 22] by auto
  then show ?thesis using s(1) unfolding l by (intro exI conjI) simp_all
qed

text \<open>C25. What \<open>mappages\<close> maps for the user, \<open>walkaddr\<close> finds: after a call that returns 0, an address
  of the range translates to its physical page, and any other address as before.\<close>

theorem mappages_walkaddr:
  assumes "pt_ok c kend p s" and "va mod PGSIZE = 0" and "0 < n" and "va + n * PGSIZE \<le> MAXVA"
    and "pa + n * PGSIZE \<le> 2 ^ 56" and "pa mod PGSIZE = 0" and "perm < 1024" and "perm AND PTE_U \<noteq> 0"
    and "\<forall>x. va \<le> x \<and> x < va + n * PGSIZE \<longrightarrow> \<not> valid (lookup 2 (bytes s) p x)"
  shows "\<exists>r s'. mappages c p va (n * PGSIZE) pa perm s = Ok (r, s')
    \<and> (r = - 1 \<and> allocated (tree s') = {KERNBASE..<PHYSTOP}
       \<or> r = 0 \<and> (\<forall>x. walkaddr c p x s' =
           (if va \<le> x \<and> x < va + n * PGSIZE then Ok (pa + (PGROUNDDOWN x - va)) else walkaddr c p x s)))"
proof -
  have pa: "pa + n * PGSIZE \<le> 2 ^ 64" using assms(5) by simp
  obtain r s' k where r: "mappages c p va (n * PGSIZE) pa perm s = Ok (r, s')" "pt_ok c kend p s'"
    "r = 0 \<and> k = n \<or> r = - 1 \<and> k < n \<and> allocated (tree s') = {KERNBASE..<PHYSTOP}"
    "\<forall>x<MAXVA. lookup 2 (bytes s') p x = map_upd (va div PGSIZE) k pa perm (lookup 2 (bytes s) p) x"
    using mappages_range [OF assms(1-4) pa assms(7,9)] by (elim exE conjE) (rule that)
  have "walkaddr c p x s' =
      (if va \<le> x \<and> x < va + n * PGSIZE then Ok (pa + (PGROUNDDOWN x - va)) else walkaddr c p x s)" if "k = n" for x
  proof (cases "va \<le> x \<and> x < va + n * PGSIZE")
    case True
    define j where "j = x div PGSIZE - va div PGSIZE"
    have rg: "va div PGSIZE \<le> x div PGSIZE" "x div PGSIZE < va div PGSIZE + n" using True page_range [OF assms(2)] by blast+
    have j: "j < n" using rg by (simp add: j_def)
    have va: "va = va div PGSIZE * PGSIZE" using assms(2) by auto
    have "PGROUNDDOWN x - va = j * PGSIZE" unfolding PGROUNDDOWN_def j_def diff_mult_distrib va [symmetric] by simp
    moreover have "j * PGSIZE + PGSIZE \<le> n * PGSIZE" using j by simp
    then have b: "pa + j * PGSIZE < 2 ^ 56" "(pa + j * PGSIZE) mod 4096 = 0" using assms(5,6) by simp_all
    moreover have "x < MAXVA" using True assms(4) by linarith
    moreover have "lookup 2 (bytes s') p x = PA2PTE (pa + j * PGSIZE) OR perm OR PTE_V"
      using r(4) \<open>x < MAXVA\<close> rg that by (simp add: map_upd_def j_def)
    ultimately show ?thesis using True leaf_read [OF b assms(7,8)] unfolding walkaddr_lookup [OF r(2)] by simp
  next
    case False
    then have "map_upd (va div PGSIZE) k pa perm (lookup 2 (bytes s) p) x = lookup 2 (bytes s) p x"
      unfolding map_upd_def that page_range [OF assms(2)] by (rule if_not_P)
    then have "lookup 2 (bytes s') p x = lookup 2 (bytes s) p x" if "x < MAXVA" using r(4) that by simp
    then show ?thesis using False unfolding walkaddr_lookup [OF r(2)] walkaddr_lookup [OF assms(1)] by auto
  qed
  then show ?thesis using r(1,3) by (intro exI [of _ r] exI [of _ s']) auto
qed

theorem mappages_walkaddr_witness:
  "\<exists>(s :: kmem) p r s'. mappages 0 p 8192 (3 * PGSIZE) KERNBASE 22 s = Ok (r, s')
    \<and> (r = - 1 \<and> allocated (tree s') = {KERNBASE..<PHYSTOP}
       \<or> r = 0 \<and> walkaddr 0 p 12300 s' = Ok (KERNBASE + 4096) \<and> walkaddr 0 p 20480 s' = walkaddr 0 p 20480 s)"
proof -
  obtain s :: kmem and p where s: "pt_ok 0 KERNBASE p s" "\<forall>x. lookup 2 (bytes s) p x = 0" using fresh_pt by blast
  have f: "\<forall>x. 8192 \<le> x \<and> x < 8192 + 3 * PGSIZE \<longrightarrow> \<not> valid (lookup 2 (bytes s) p x)" using s(2) by (simp add: valid_def)
  have u: "(22 :: nat) AND PTE_U \<noteq> 0" by simp
  have b: "(8192 :: nat) mod PGSIZE = 0" "0 < (3 :: nat)" "8192 + 3 * PGSIZE \<le> MAXVA" "KERNBASE + 3 * PGSIZE \<le> 2 ^ 56"
    "KERNBASE mod PGSIZE = 0" "(22 :: nat) < 1024" by simp_all
  obtain r s' where r: "mappages 0 p 8192 (3 * PGSIZE) KERNBASE 22 s = Ok (r, s')"
    "r = - 1 \<and> allocated (tree s') = {KERNBASE..<PHYSTOP}
       \<or> r = 0 \<and> (\<forall>x. walkaddr 0 p x s' =
           (if 8192 \<le> x \<and> x < 8192 + 3 * PGSIZE then Ok (KERNBASE + (PGROUNDDOWN x - 8192)) else walkaddr 0 p x s))"
    using mappages_walkaddr [OF s(1) b u f] by (elim exE conjE) (rule that)
  then have "r = - 1 \<and> allocated (tree s') = {KERNBASE..<PHYSTOP}
       \<or> r = 0 \<and> walkaddr 0 p 12300 s' = Ok (KERNBASE + 4096) \<and> walkaddr 0 p 20480 s' = walkaddr 0 p 20480 s"
    by (elim disjE conjE) (simp_all add: PGROUNDDOWN_def)
  then show ?thesis using r(1) by blast
qed

text \<open>C26. \<open>mappages\<close> never overwrites a mapping: on a range with a page that is mapped it panics, or runs
  out of memory before it reaches the page.\<close>

theorem mappages_remap:
  assumes "pt_ok c kend p s" and "va mod PGSIZE = 0" and "va + n * PGSIZE \<le> MAXVA"
    and "pa + n * PGSIZE \<le> 2 ^ 64" and "perm < 1024"
    and "va \<le> x" and "x < va + n * PGSIZE" and "x mod PGSIZE = 0" and "valid (lookup 2 (bytes s) p x)"
  shows "mappages c p va (n * PGSIZE) pa perm s = Err (Panic ''mappages: remap'')
    \<or> (\<exists>s'. mappages c p va (n * PGSIZE) pa perm s = Ok (- 1, s') \<and> allocated (tree s') = {KERNBASE..<PHYSTOP})"
proof -
  obtain n' where n: "n = Suc n'" using assms(6,7) by (cases n) auto
  have v: "va div PGSIZE * PGSIZE = va" "x div PGSIZE * PGSIZE = x" using assms(2,8) by auto
  have b: "(va div PGSIZE + Suc n') * PGSIZE \<le> MAXVA" using assms(3) unfolding n add_mult_distrib v .
  have rg: "va div PGSIZE \<le> x div PGSIZE" "x div PGSIZE < va div PGSIZE + Suc n'"
    using assms(6,7) page_range [OF assms(2), of x n] unfolding n by blast+
  show ?thesis unfolding n mappages_pages [OF assms(2) assms(3) [unfolded n]]
    by (rule remap_loop [OF assms(1) b assms(4) [unfolded n] assms(5) rg]) (simp add: v assms(9))
qed

theorem mappages_remap_witness:
  "\<exists>(s :: kmem) p. mappages 0 p 0 (2 * PGSIZE) KERNBASE 22 s = Err (Panic ''mappages: remap'')
    \<or> (\<exists>s'. mappages 0 p 0 (2 * PGSIZE) KERNBASE 22 s = Ok (- 1, s') \<and> allocated (tree s') = {KERNBASE..<PHYSTOP})"
proof -
  obtain s :: kmem and p where s: "pt_ok 0 KERNBASE p s" "valid (lookup 2 (bytes s) p 4096)" using mapped_pt by blast
  have "mappages 0 p 0 (2 * PGSIZE) KERNBASE 22 s = Err (Panic ''mappages: remap'')
    \<or> (\<exists>s'. mappages 0 p 0 (2 * PGSIZE) KERNBASE 22 s = Ok (- 1, s') \<and> allocated (tree s') = {KERNBASE..<PHYSTOP})"
    by (rule mappages_remap [OF s(1) _ _ _ _ _ _ _ s(2)]) simp_all
  then show ?thesis by blast
qed

end
