(* ===== verification/Proc.thy ===== *)
theory Proc
  imports Vm
begin

text \<open>
  Processes (\<^verbatim>\<open>kernel/proc.c\<close>), first part: the process table, scheduling, sleeping and waking,
  killing, process page tables and memory. \<open>P\<close> holds what the sources do not fix; a thread that
  calls \<open>sched\<close> continues in the state that \<open>k_swtch P\<close> gives.
\<close>

section \<open>Scheduling\<close>

definition sched :: "'z kernel_scheme kparam \<Rightarrow> 'z kernel_scheme \<Rightarrow> 'z kernel_scheme result" where
  "sched P s =
     bindr (myproc_deref s) (\<lambda>(p, s).
     if \<not> holding (hartid s) (ProcLock p) s then Err (Panic ''sched p->lock'')
     else if noff (mycpu s) \<noteq> 1 then Err (Panic ''sched locks'')
     else if p_state (procs s p) = RUNNING then Err (Panic ''sched RUNNING'')
     else if intr_get (hartid s) s then Err (Panic ''sched interruptible'')
     else let old = intena (mycpu s)
          in bindr (k_swtch P p s) (\<lambda>s.
             Ok (s\<lparr>cpus := (cpus s)(cpuid s := (mycpu s)\<lparr>intena := old\<rparr>)\<rparr>)))"

definition yield :: "'z kernel_scheme kparam \<Rightarrow> 'z kernel_scheme \<Rightarrow> 'z kernel_scheme result" where
  "yield P s =
     bindr (myproc_deref s) (\<lambda>(p, s).
     bindr (acquire_k (ProcLock p) s) (\<lambda>s.
     bindr (sched P (upd_proc p (\<lambda>pr. pr\<lparr>p_state := RUNNABLE\<rparr>) s)) (\<lambda>s.
     release_k (ProcLock p) s)))"

definition sleep :: "'z kernel_scheme kparam \<Rightarrow> chan \<Rightarrow> lockptr \<Rightarrow> 'z kernel_scheme \<Rightarrow> 'z kernel_scheme result" where
  "sleep P ch lk s =
     bindr (myproc_deref s) (\<lambda>(p, s).
     bindr (acquire_k (ProcLock p) s) (\<lambda>s.
     bindr (release_k lk s) (\<lambda>s.
     bindr (sched P (upd_proc p (\<lambda>pr. pr\<lparr>p_chan := Some ch, p_state := SLEEPING\<rparr>) s)) (\<lambda>s.
     bindr (release_k (ProcLock p) (upd_proc p (\<lambda>pr. pr\<lparr>p_chan := None\<rparr>) s)) (\<lambda>s.
     acquire_k lk s)))))"

text \<open>The body of the loop of \<open>wakeup\<close>, for each process of \<open>ps\<close>. A null pointer as channel is \<open>None\<close>.\<close>

fun wakeup_loop :: "chan option \<Rightarrow> nat list \<Rightarrow> 'z kernel_scheme \<Rightarrow> 'z kernel_scheme result" where
  "wakeup_loop ch [] s = Ok s"
| "wakeup_loop ch (p # ps) s =
     bindr (myproc s) (\<lambda>(me, s).
     if Some p \<noteq> me
     then bindr (acquire_k (ProcLock p) s) (\<lambda>s.
          let s = (if p_state (procs s p) = SLEEPING \<and> p_chan (procs s p) = ch
                   then upd_proc p (\<lambda>pr. pr\<lparr>p_state := RUNNABLE\<rparr>) s else s)
          in bindr (release_k (ProcLock p) s) (\<lambda>s. wakeup_loop ch ps s))
     else wakeup_loop ch ps s)"

definition wakeup :: "chan option \<Rightarrow> 'z kernel_scheme \<Rightarrow> 'z kernel_scheme result" where
  "wakeup ch s = wakeup_loop ch [0..<NPROC] s"

text \<open>One turn of the endless loop of \<open>scheduler\<close>; \<open>run p\<close> is what happens from the \<open>swtch\<close> to
  process \<open>p\<close> until the process switches back.\<close>

fun scheduler_scan ::
  "(nat \<Rightarrow> 'z kernel_scheme \<Rightarrow> 'z kernel_scheme result) \<Rightarrow> nat list \<Rightarrow> bool \<Rightarrow> 'z kernel_scheme
     \<Rightarrow> (bool \<times> 'z kernel_scheme) result" where
  "scheduler_scan run [] found s = Ok (found, s)"
| "scheduler_scan run (p # ps) found s =
     bindr (acquire_k (ProcLock p) s) (\<lambda>s.
     bindr (if p_state (procs s p) = RUNNABLE
            then let s = upd_proc p (\<lambda>pr. pr\<lparr>p_state := RUNNING\<rparr>) s;
                     s = s\<lparr>cpu_proc := (cpu_proc s)(cpuid s := Some p)\<rparr>
                 in bindr (run p s) (\<lambda>s. Ok (True, s\<lparr>cpu_proc := (cpu_proc s)(cpuid s := None)\<rparr>))
            else Ok (found, s)) (\<lambda>(found, s).
     bindr (release_k (ProcLock p) s) (\<lambda>s. scheduler_scan run ps found s)))"

definition scheduler_turn ::
  "(nat \<Rightarrow> 'z kernel_scheme \<Rightarrow> 'z kernel_scheme result) \<Rightarrow> 'z kernel_scheme \<Rightarrow> (bool \<times> 'z kernel_scheme) result" where
  "scheduler_turn run s =
     (let s = intr_on (hartid s) s;
          s = intr_off (hartid s) s
      in scheduler_scan run [0..<NPROC] False s)"

section \<open>Killing\<close>

fun kkill_loop :: "int \<Rightarrow> nat list \<Rightarrow> 'z kernel_scheme \<Rightarrow> (int \<times> 'z kernel_scheme) result" where
  "kkill_loop pid [] s = Ok (- 1, s)"
| "kkill_loop pid (p # ps) s =
     bindr (acquire_k (ProcLock p) s) (\<lambda>s.
     if p_pid (procs s p) = pid
     then let s = upd_proc p (\<lambda>pr. pr\<lparr>p_killed := 1\<rparr>) s;
              s = (if p_state (procs s p) = SLEEPING then upd_proc p (\<lambda>pr. pr\<lparr>p_state := RUNNABLE\<rparr>) s else s)
          in bindr (release_k (ProcLock p) s) (\<lambda>s. Ok (0, s))
     else bindr (release_k (ProcLock p) s) (\<lambda>s. kkill_loop pid ps s))"

definition kkill :: "int \<Rightarrow> 'z kernel_scheme \<Rightarrow> (int \<times> 'z kernel_scheme) result" where
  "kkill pid s = kkill_loop pid [0..<NPROC] s"

definition setkilled :: "nat \<Rightarrow> 'z kernel_scheme \<Rightarrow> 'z kernel_scheme result" where
  "setkilled p s =
     bindr (acquire_k (ProcLock p) s) (\<lambda>s.
     release_k (ProcLock p) (upd_proc p (\<lambda>pr. pr\<lparr>p_killed := 1\<rparr>) s))"

definition killed :: "nat \<Rightarrow> 'z kernel_scheme \<Rightarrow> (int \<times> 'z kernel_scheme) result" where
  "killed p s =
     bindr (acquire_k (ProcLock p) s) (\<lambda>s.
     let k = p_killed (procs s p)
     in bindr (release_k (ProcLock p) s) (\<lambda>s. Ok (k, s)))"

section \<open>The process table\<close>

definition procinit :: "'z kernel_scheme \<Rightarrow> 'z kernel_scheme" where
  "procinit s =
     (let s = initlock PidLock ''nextpid'' s;
          s = initlock WaitLock ''wait_lock'' s
      in fold (\<lambda>p s.
           let s = initlock (ProcLock p) ''proc'' s;
               s = upd_proc p (\<lambda>pr. pr\<lparr>p_state := UNUSED\<rparr>) s
           in upd_proc p (\<lambda>pr. pr\<lparr>p_kstack := KSTACK p\<rparr>) s) [0..<NPROC] s)"

text \<open>\<open>nextpid + 1\<close> overflows after \<open>2 ^ 31 - 1\<close> processes.\<close>

definition allocpid :: "'z kernel_scheme \<Rightarrow> (int \<times> 'z kernel_scheme) result" where
  "allocpid s =
     bindr (acquire_k PidLock s) (\<lambda>s.
     let pid = nextpid s
     in if nextpid s + 1 \<ge> 2 ^ 31 then Err Overflow
        else bindr (release_k PidLock (s\<lparr>nextpid := nextpid s + 1\<rparr>)) (\<lambda>s. Ok (pid, s)))"

definition proc_pagetable ::
  "'z kernel_scheme kparam \<Rightarrow> nat \<Rightarrow> 'z kernel_scheme \<Rightarrow> (nat \<times> 'z kernel_scheme) result" where
  "proc_pagetable P p s =
     (let c = hartid s in
      bindr (uvmcreate c s) (\<lambda>(pagetable, s).
      if pagetable = 0 then Ok (0, s)
      else bindr (mappages c pagetable TRAMPOLINE PGSIZE (k_trampoline P) (PTE_R OR PTE_X) s) (\<lambda>(r, s).
           if r < 0 then bindr (uvmfree c (k_end P) pagetable 0 s) (\<lambda>s. Ok (0, s))
           else bindr (mappages c pagetable TRAPFRAME PGSIZE (p_trapframe (procs s p)) (PTE_R OR PTE_W) s) (\<lambda>(r, s).
                if r < 0
                then bindr (uvmunmap c (k_end P) pagetable TRAMPOLINE 1 False s) (\<lambda>s.
                     bindr (uvmfree c (k_end P) pagetable 0 s) (\<lambda>s. Ok (0, s)))
                else Ok (pagetable, s)))))"

definition proc_freepagetable ::
  "'z kernel_scheme kparam \<Rightarrow> nat \<Rightarrow> nat \<Rightarrow> 'z kernel_scheme \<Rightarrow> 'z kernel_scheme result" where
  "proc_freepagetable P pagetable sz s =
     bindr (uvmunmap (hartid s) (k_end P) pagetable TRAMPOLINE 1 False s) (\<lambda>s.
     bindr (uvmunmap (hartid s) (k_end P) pagetable TRAPFRAME 1 False s) (\<lambda>s.
     uvmfree (hartid s) (k_end P) pagetable sz s))"

definition freeproc :: "'z kernel_scheme kparam \<Rightarrow> nat \<Rightarrow> 'z kernel_scheme \<Rightarrow> 'z kernel_scheme result" where
  "freeproc P p s =
     bindr (if p_trapframe (procs s p) \<noteq> 0 then kfree (hartid s) (k_end P) (p_trapframe (procs s p)) s else Ok s) (\<lambda>s.
     let s = upd_proc p (\<lambda>pr. pr\<lparr>p_trapframe := 0\<rparr>) s
     in bindr (if p_pagetable (procs s p) \<noteq> 0
               then proc_freepagetable P (p_pagetable (procs s p)) (p_sz (procs s p)) s else Ok s) (\<lambda>s.
        Ok (upd_proc p (\<lambda>pr. pr\<lparr>p_pagetable := 0, p_sz := 0, p_pid := 0, p_parent := None,
              p_name := (p_name pr)[0 := 0], p_chan := None, p_killed := 0, p_xstate := 0, p_state := UNUSED\<rparr>) s)))"

text \<open>The search of \<open>allocproc\<close>; the process it finds stays locked.\<close>

fun allocproc_find :: "nat list \<Rightarrow> 'z kernel_scheme \<Rightarrow> (nat option \<times> 'z kernel_scheme) result" where
  "allocproc_find [] s = Ok (None, s)"
| "allocproc_find (p # ps) s =
     bindr (acquire_k (ProcLock p) s) (\<lambda>s.
     if p_state (procs s p) = UNUSED then Ok (Some p, s)
     else bindr (release_k (ProcLock p) s) (\<lambda>s. allocproc_find ps s))"

definition allocproc :: "'z kernel_scheme kparam \<Rightarrow> 'z kernel_scheme \<Rightarrow> (nat option \<times> 'z kernel_scheme) result" where
  "allocproc P s =
     bindr (allocproc_find [0..<NPROC] s) (\<lambda>(r, s).
     case r of None \<Rightarrow> Ok (None, s)
     | Some p \<Rightarrow>
        bindr (allocpid s) (\<lambda>(pid, s).
        let s = upd_proc p (\<lambda>pr. pr\<lparr>p_pid := pid, p_state := USED\<rparr>) s
        in bindr (kalloc (hartid s) s) (\<lambda>(tf, s).
           let s = upd_proc p (\<lambda>pr. pr\<lparr>p_trapframe := tf\<rparr>) s
           in if tf = 0
              then bindr (freeproc P p s) (\<lambda>s. bindr (release_k (ProcLock p) s) (\<lambda>s. Ok (None, s)))
              else bindr (proc_pagetable P p s) (\<lambda>(pt, s).
                   let s = upd_proc p (\<lambda>pr. pr\<lparr>p_pagetable := pt\<rparr>) s
                   in if pt = 0
                      then bindr (freeproc P p s) (\<lambda>s. bindr (release_k (ProcLock p) s) (\<lambda>s. Ok (None, s)))
                      else Ok (Some p, upd_proc p (\<lambda>pr. pr\<lparr>p_context :=
                             \<lparr>ctx_ra = k_forkret P, ctx_sp = p_kstack pr + PGSIZE, ctx_s = replicate 12 0\<rparr>\<rparr>) s)))))"

definition growproc :: "'z kernel_scheme kparam \<Rightarrow> int \<Rightarrow> 'z kernel_scheme \<Rightarrow> (int \<times> 'z kernel_scheme) result" where
  "growproc P n s =
     bindr (myproc_deref s) (\<lambda>(p, s).
     let sz = p_sz (procs s p);
         pt = p_pagetable (procs s p);
         sz_n = nat ((int sz + n) mod 2 ^ 64)
     in if n > 0
        then if sz_n > TRAPFRAME then Ok (- 1, s)
             else bindr (uvmalloc (hartid s) (k_end P) pt sz sz_n PTE_W s) (\<lambda>(sz, s).
                  if sz = 0 then Ok (- 1, s) else Ok (0, upd_proc p (\<lambda>pr. pr\<lparr>p_sz := sz\<rparr>) s))
        else if n < 0
        then bindr (uvmdealloc (hartid s) (k_end P) pt sz sz_n s) (\<lambda>(sz, s).
             Ok (0, upd_proc p (\<lambda>pr. pr\<lparr>p_sz := sz\<rparr>) s))
        else Ok (0, upd_proc p (\<lambda>pr. pr\<lparr>p_sz := sz\<rparr>) s))"

text \<open>The loop of \<open>reparent\<close>; a null \<open>initproc\<close> is \<open>None\<close>.\<close>

fun reparent_loop :: "nat \<Rightarrow> nat list \<Rightarrow> 'z kernel_scheme \<Rightarrow> 'z kernel_scheme result" where
  "reparent_loop p [] s = Ok s"
| "reparent_loop p (pp # ps) s =
     (if p_parent (procs s pp) = Some p
      then bindr (wakeup (map_option ChanProc (initproc s)) (upd_proc pp (\<lambda>pr. pr\<lparr>p_parent := initproc s\<rparr>) s)) (\<lambda>s.
           reparent_loop p ps s)
      else reparent_loop p ps s)"

definition reparent :: "nat \<Rightarrow> 'z kernel_scheme \<Rightarrow> 'z kernel_scheme result" where
  "reparent p s = reparent_loop p [0..<NPROC] s"

text \<open>The scan of the process table by \<open>kwait\<close>: \<open>Inr (result)\<close> when a zombie ends the wait,
  \<open>Inl havekids\<close> otherwise.
  The status is put at the address of \<open>pp->xstate\<close> for \<open>copyout\<close> to read it.\<close>

fun kwait_scan ::
  "'z kernel_scheme kparam \<Rightarrow> nat \<Rightarrow> nat \<Rightarrow> nat list \<Rightarrow> bool \<Rightarrow> 'z kernel_scheme
     \<Rightarrow> ((bool + int) \<times> 'z kernel_scheme) result" where
  "kwait_scan P p addr [] havekids s = Ok (Inl havekids, s)"
| "kwait_scan P p addr (pp # ps) havekids s =
     (if p_parent (procs s pp) = Some p
      then bindr (acquire_k (ProcLock pp) s) (\<lambda>s.
           if p_state (procs s pp) = ZOMBIE
           then let pid = p_pid (procs s pp);
                    s = s\<lparr>bytes := st32 (k_xstate P pp) (nat (p_xstate (procs s pp) mod 2 ^ 32)) (bytes s)\<rparr>
                in bindr (if addr \<noteq> 0
                          then copyout (hartid s) (k_end P) (p_pagetable (procs s p)) addr (k_xstate P pp) 4 s
                          else Ok (0, s)) (\<lambda>(r, s).
                   if r < 0
                   then bindr (release_k (ProcLock pp) s) (\<lambda>s.
                        bindr (release_k WaitLock s) (\<lambda>s. Ok (Inr (- 1), s)))
                   else bindr (freeproc P pp s) (\<lambda>s.
                        bindr (release_k (ProcLock pp) s) (\<lambda>s.
                        bindr (release_k WaitLock s) (\<lambda>s. Ok (Inr pid, s)))))
           else bindr (release_k (ProcLock pp) s) (\<lambda>s. kwait_scan P p addr ps True s))
      else kwait_scan P p addr ps havekids s)"

partial_function (option) kwait_loop ::
  "'z kernel_scheme kparam \<Rightarrow> nat \<Rightarrow> nat \<Rightarrow> 'z kernel_scheme \<Rightarrow> (int \<times> 'z kernel_scheme) result" where
  "kwait_loop P p addr s =
     bindr (kwait_scan P p addr [0..<NPROC] False s) (\<lambda>(r, s).
     case r of Inr v \<Rightarrow> Ok (v, s)
     | Inl havekids \<Rightarrow>
         bindr (if \<not> havekids then Ok (1, s) else killed p s) (\<lambda>(k, s).
         if k \<noteq> 0 then bindr (release_k WaitLock s) (\<lambda>s. Ok (- 1, s))
         else bindr (sleep P (ChanProc p) WaitLock s) (\<lambda>s. kwait_loop P p addr s)))"

definition kwait ::
  "'z kernel_scheme kparam \<Rightarrow> nat \<Rightarrow> 'z kernel_scheme \<Rightarrow> (int \<times> 'z kernel_scheme) result" where
  "kwait P addr s =
     bindr (myproc_deref s) (\<lambda>(p, s).
     bindr (acquire_k WaitLock s) (\<lambda>s. kwait_loop P p addr s))"

section \<open>Copies by the file system\<close>

definition either_copyout ::
  "'z kernel_scheme kparam \<Rightarrow> bool \<Rightarrow> nat \<Rightarrow> nat \<Rightarrow> nat \<Rightarrow> 'z kernel_scheme \<Rightarrow> (int \<times> 'z kernel_scheme) result" where
  "either_copyout P user_dst dst src len s =
     bindr (myproc s) (\<lambda>(p, s).
     if user_dst
     then case p of None \<Rightarrow> Err (BadAddress 0)
          | Some p \<Rightarrow> copyout (hartid s) (k_end P) (p_pagetable (procs s p)) dst src len s
     else bindr (kmemmove dst src len s) (\<lambda>s. Ok (0, s)))"

definition either_copyin ::
  "'z kernel_scheme kparam \<Rightarrow> nat \<Rightarrow> bool \<Rightarrow> nat \<Rightarrow> nat \<Rightarrow> 'z kernel_scheme \<Rightarrow> (int \<times> 'z kernel_scheme) result" where
  "either_copyin P dst user_src src len s =
     bindr (myproc s) (\<lambda>(p, s).
     if user_src
     then case p of None \<Rightarrow> Err (BadAddress 0)
          | Some p \<Rightarrow> copyin (hartid s) (k_end P) (p_pagetable (procs s p)) dst src len s
     else bindr (kmemmove dst src len s) (\<lambda>s. Ok (0, s)))"

section \<open>Process listing\<close>

fun states :: "procstate \<Rightarrow> string" where
  "states UNUSED = ''unused''"
| "states USED = ''used''"
| "states SLEEPING = ''sleep ''"
| "states RUNNABLE = ''runble''"
| "states RUNNING = ''run   ''"
| "states ZOMBIE = ''zombie''"

definition procdump :: "'z kernel_scheme \<Rightarrow> 'z kernel_scheme" where
  "procdump s =
     (let s = kprintf ''\<newline>'' [] s
      in fold (\<lambda>p s.
           if p_state (procs s p) = UNUSED then s
           else let state = states (p_state (procs s p));
                    s = kprintf ''%d %s %s'' [KInt (p_pid (procs s p)), KStr state, KBytes (p_name (procs s p))] s
                in kprintf ''\<newline>'' [] s) [0..<NPROC] s)"

end
