(* ===== verification/Bio.thy ===== *)
theory Bio
  imports Proc
begin

text \<open>
  Sleep locks (\<^verbatim>\<open>kernel/sleeplock.c\<close>) and the buffer cache (\<^verbatim>\<open>kernel/bio.c\<close>). Buffer \<open>b\<close> is
  \<^verbatim>\<open>bcache.buf[b]\<close>, and \<open>bhead\<close> is \<^verbatim>\<open>bcache.head\<close>; the LRU list is the one the \<open>prev\<close> and
  \<open>next\<close> pointers form. The data of a buffer are the bytes from \<open>k_bdata P b\<close> on.
\<close>

section \<open>Sleep locks\<close>

record sleeplock =
  sl_locked :: nat
  sl_name   :: string
  sl_pid    :: int

record buf =
  b_valid   :: int
  b_disk    :: int
  b_dev     :: nat
  b_blockno :: nat
  b_refcnt  :: nat
  b_prev    :: nat
  b_next    :: nat

record kbio = kernel +
  sleeplocks :: "sleeplockptr \<Rightarrow> sleeplock"
  bufs       :: "nat \<Rightarrow> buf"

definition upd_sleeplock :: "sleeplockptr \<Rightarrow> (sleeplock \<Rightarrow> sleeplock) \<Rightarrow> 'z kbio_scheme \<Rightarrow> 'z kbio_scheme" where
  "upd_sleeplock lk f s = s\<lparr>sleeplocks := (sleeplocks s)(lk := f (sleeplocks s lk))\<rparr>"

definition initsleeplock :: "sleeplockptr \<Rightarrow> string \<Rightarrow> 'z kbio_scheme \<Rightarrow> 'z kbio_scheme" where
  "initsleeplock lk name s =
     (let s = initlock (SleepInnerLock lk) ''sleep lock'' s
      in upd_sleeplock lk (\<lambda>l. l\<lparr>sl_name := name, sl_locked := 0, sl_pid := 0\<rparr>) s)"

partial_function (option) acquiresleep_wait ::
  "'z kbio_scheme kparam \<Rightarrow> sleeplockptr \<Rightarrow> 'z kbio_scheme \<Rightarrow> 'z kbio_scheme result" where
  "acquiresleep_wait P lk s =
     (if sl_locked (sleeplocks s lk) \<noteq> 0
      then bindr (sleep P (ChanSleepLock lk) (SleepInnerLock lk) s) (\<lambda>s. acquiresleep_wait P lk s)
      else Ok s)"

definition acquiresleep :: "'z kbio_scheme kparam \<Rightarrow> sleeplockptr \<Rightarrow> 'z kbio_scheme \<Rightarrow> 'z kbio_scheme result" where
  "acquiresleep P lk s =
     bindr (acquire_k (SleepInnerLock lk) s) (\<lambda>s.
     bindr (acquiresleep_wait P lk s) (\<lambda>s.
     let s = upd_sleeplock lk (\<lambda>l. l\<lparr>sl_locked := 1\<rparr>) s
     in bindr (myproc_deref s) (\<lambda>(p, s).
        let s = upd_sleeplock lk (\<lambda>l. l\<lparr>sl_pid := p_pid (procs s p)\<rparr>) s
        in release_k (SleepInnerLock lk) s)))"

definition releasesleep :: "sleeplockptr \<Rightarrow> 'z kbio_scheme \<Rightarrow> 'z kbio_scheme result" where
  "releasesleep lk s =
     bindr (acquire_k (SleepInnerLock lk) s) (\<lambda>s.
     let s = upd_sleeplock lk (\<lambda>l. l\<lparr>sl_locked := 0, sl_pid := 0\<rparr>) s
     in bindr (wakeup (Some (ChanSleepLock lk)) s) (\<lambda>s.
        release_k (SleepInnerLock lk) s))"

text \<open>\<open>myproc()\<close> is called only when the lock is held.\<close>

definition holdingsleep :: "sleeplockptr \<Rightarrow> 'z kbio_scheme \<Rightarrow> (bool \<times> 'z kbio_scheme) result" where
  "holdingsleep lk s =
     bindr (acquire_k (SleepInnerLock lk) s) (\<lambda>s.
     bindr (if sl_locked (sleeplocks s lk) \<noteq> 0
            then bindr (myproc_deref s) (\<lambda>(p, s). Ok (sl_pid (sleeplocks s lk) = p_pid (procs s p), s))
            else Ok (False, s)) (\<lambda>(r, s).
     bindr (release_k (SleepInnerLock lk) s) (\<lambda>s. Ok (r, s))))"

section \<open>The buffer cache\<close>

abbreviation (input) NBUF :: nat where "NBUF \<equiv> 30"
abbreviation (input) BSIZE :: nat where "BSIZE \<equiv> 1024"
abbreviation (input) bhead :: nat where "bhead \<equiv> 30"

definition upd_buf :: "nat \<Rightarrow> (buf \<Rightarrow> buf) \<Rightarrow> 'z kbio_scheme \<Rightarrow> 'z kbio_scheme" where
  "upd_buf b f s = s\<lparr>bufs := (bufs s)(b := f (bufs s b))\<rparr>"

text \<open>Insert \<open>b\<close> at the front of the list: the four assignments of \<open>binit\<close> and \<open>brelse\<close>.\<close>

definition buf_push :: "nat \<Rightarrow> 'z kbio_scheme \<Rightarrow> 'z kbio_scheme" where
  "buf_push b s =
     (let s = upd_buf b (\<lambda>x. x\<lparr>b_next := b_next (bufs s bhead)\<rparr>) s;
          s = upd_buf b (\<lambda>x. x\<lparr>b_prev := bhead\<rparr>) s;
          s = upd_buf (b_next (bufs s bhead)) (\<lambda>x. x\<lparr>b_prev := b\<rparr>) s
      in upd_buf bhead (\<lambda>x. x\<lparr>b_next := b\<rparr>) s)"

definition binit :: "'z kbio_scheme \<Rightarrow> 'z kbio_scheme" where
  "binit s =
     (let s = initlock BcacheLock ''bcache'' s;
          s = upd_buf bhead (\<lambda>x. x\<lparr>b_prev := bhead\<rparr>) s;
          s = upd_buf bhead (\<lambda>x. x\<lparr>b_next := bhead\<rparr>) s
      in fold (\<lambda>b s. buf_push b (initsleeplock (BufSleepLock b) ''buffer'' s)) [0..<NBUF] s)"

partial_function (option) bget_cached :: "nat \<Rightarrow> nat \<Rightarrow> nat \<Rightarrow> 'z kbio_scheme \<Rightarrow> nat option result" where
  "bget_cached dev blockno b s =
     (if b \<noteq> bhead
      then if b_dev (bufs s b) = dev \<and> b_blockno (bufs s b) = blockno then Ok (Some b)
           else bget_cached dev blockno (b_next (bufs s b)) s
      else Ok None)"

partial_function (option) bget_unused :: "nat \<Rightarrow> 'z kbio_scheme \<Rightarrow> nat option result" where
  "bget_unused b s =
     (if b \<noteq> bhead
      then if b_refcnt (bufs s b) = 0 then Ok (Some b) else bget_unused (b_prev (bufs s b)) s
      else Ok None)"

definition bget :: "'z kbio_scheme kparam \<Rightarrow> nat \<Rightarrow> nat \<Rightarrow> 'z kbio_scheme \<Rightarrow> (nat \<times> 'z kbio_scheme) result" where
  "bget P dev blockno s =
     bindr (acquire_k BcacheLock s) (\<lambda>s.
     bindr (bget_cached dev blockno (b_next (bufs s bhead)) s) (\<lambda>r.
     case r of Some b \<Rightarrow>
         let s = upd_buf b (\<lambda>x. x\<lparr>b_refcnt := (b_refcnt x + 1) mod 2 ^ 32\<rparr>) s
         in bindr (release_k BcacheLock s) (\<lambda>s.
            bindr (acquiresleep P (BufSleepLock b) s) (\<lambda>s. Ok (b, s)))
     | None \<Rightarrow>
         bindr (bget_unused (b_prev (bufs s bhead)) s) (\<lambda>r.
         case r of Some b \<Rightarrow>
             let s = upd_buf b (\<lambda>x. x\<lparr>b_dev := dev, b_blockno := blockno, b_valid := 0, b_refcnt := 1\<rparr>) s
             in bindr (release_k BcacheLock s) (\<lambda>s.
                bindr (acquiresleep P (BufSleepLock b) s) (\<lambda>s. Ok (b, s)))
         | None \<Rightarrow> Err (Panic ''bget: no buffers''))))"

definition bread :: "'z kbio_scheme kparam \<Rightarrow> nat \<Rightarrow> nat \<Rightarrow> 'z kbio_scheme \<Rightarrow> (nat \<times> 'z kbio_scheme) result" where
  "bread P dev blockno s =
     bindr (bget P dev blockno s) (\<lambda>(b, s).
     if b_valid (bufs s b) = 0
     then bindr (k_disk_rw P b False s) (\<lambda>s. Ok (b, upd_buf b (\<lambda>x. x\<lparr>b_valid := 1\<rparr>) s))
     else Ok (b, s))"

definition bwrite :: "'z kbio_scheme kparam \<Rightarrow> nat \<Rightarrow> 'z kbio_scheme \<Rightarrow> 'z kbio_scheme result" where
  "bwrite P b s =
     bindr (holdingsleep (BufSleepLock b) s) (\<lambda>(h, s).
     if \<not> h then Err (Panic ''bwrite'') else k_disk_rw P b True s)"

definition brelse :: "nat \<Rightarrow> 'z kbio_scheme \<Rightarrow> 'z kbio_scheme result" where
  "brelse b s =
     bindr (holdingsleep (BufSleepLock b) s) (\<lambda>(h, s).
     if \<not> h then Err (Panic ''brelse'')
     else bindr (releasesleep (BufSleepLock b) s) (\<lambda>s.
          bindr (acquire_k BcacheLock s) (\<lambda>s.
          let s = upd_buf b (\<lambda>x. x\<lparr>b_refcnt := (b_refcnt x + 2 ^ 32 - 1) mod 2 ^ 32\<rparr>) s;
              s = (if b_refcnt (bufs s b) = 0
                   then let s = upd_buf (b_next (bufs s b)) (\<lambda>x. x\<lparr>b_prev := b_prev (bufs s b)\<rparr>) s;
                            s = upd_buf (b_prev (bufs s b)) (\<lambda>x. x\<lparr>b_next := b_next (bufs s b)\<rparr>) s
                        in buf_push b s
                   else s)
          in release_k BcacheLock s)))"

definition bpin :: "nat \<Rightarrow> 'z kbio_scheme \<Rightarrow> 'z kbio_scheme result" where
  "bpin b s =
     bindr (acquire_k BcacheLock s) (\<lambda>s.
     release_k BcacheLock (upd_buf b (\<lambda>x. x\<lparr>b_refcnt := (b_refcnt x + 1) mod 2 ^ 32\<rparr>) s))"

definition bunpin :: "nat \<Rightarrow> 'z kbio_scheme \<Rightarrow> 'z kbio_scheme result" where
  "bunpin b s =
     bindr (acquire_k BcacheLock s) (\<lambda>s.
     release_k BcacheLock (upd_buf b (\<lambda>x. x\<lparr>b_refcnt := (b_refcnt x + 2 ^ 32 - 1) mod 2 ^ 32\<rparr>) s))"

end
