(* ===== verification/Log.thy ===== *)
theory Log
  imports Bio
begin

text \<open>
  The redo log (\<^verbatim>\<open>kernel/log.c\<close>). A block number that is an \<open>int\<close> in the log is converted to
  \<open>uint\<close> where the buffer cache takes it. An access to \<^verbatim>\<open>log.lh.block\<close> outside its 30 entries is a fault.
\<close>

record klog = kbio +
  log_start       :: int
  log_outstanding :: int    \<comment> \<open>a C \<open>int\<close>, taken as a mathematical integer: \<open>begin_op\<close> keeps it at most 3\<close>
  log_committing  :: bool
  log_dev         :: int
  lh_n            :: int
  lh_block        :: "nat \<Rightarrow> int"

abbreviation (input) MAXOPBLOCKS :: int where "MAXOPBLOCKS \<equiv> 10"
abbreviation (input) LOGBLOCKS :: int where "LOGBLOCKS \<equiv> 30"

definition lh_get :: "nat \<Rightarrow> 'z klog_scheme \<Rightarrow> int result" where
  "lh_get i s = (if int i < LOGBLOCKS then Ok (lh_block s i) else Err (OutOfBounds ''log.lh.block''))"

definition lh_set :: "nat \<Rightarrow> int \<Rightarrow> 'z klog_scheme \<Rightarrow> 'z klog_scheme result" where
  "lh_set i v s = (if int i < LOGBLOCKS then Ok (s\<lparr>lh_block := (lh_block s)(i := v)\<rparr>) else Err (OutOfBounds ''log.lh.block''))"

partial_function (option) install_trans_loop ::
  "'z klog_scheme kparam \<Rightarrow> bool \<Rightarrow> nat \<Rightarrow> 'z klog_scheme \<Rightarrow> 'z klog_scheme result" where
  "install_trans_loop P recovering tail s =
     (if int tail < lh_n s
      then bindr (if recovering
                  then bindr (lh_get tail s) (\<lambda>v. Ok (kprintf ''recovering tail %d dst %d\<newline>'' [KInt (int tail), KInt v] s))
                  else Ok s) (\<lambda>s.
           bindr (bread P (u32 (log_dev s)) (u32 (log_start s + int tail + 1)) s) (\<lambda>(lbuf, s).
           bindr (lh_get tail s) (\<lambda>dst.
           bindr (bread P (u32 (log_dev s)) (u32 dst) s) (\<lambda>(dbuf, s).
           bindr (kmemmove (k_bdata P dbuf) (k_bdata P lbuf) BSIZE s) (\<lambda>s.
           bindr (bwrite P dbuf s) (\<lambda>s.
           bindr (if \<not> recovering then bunpin dbuf s else Ok s) (\<lambda>s.
           bindr (brelse lbuf s) (\<lambda>s.
           bindr (brelse dbuf s) (\<lambda>s.
           install_trans_loop P recovering (tail + 1) s)))))))))
      else Ok s)"

definition install_trans :: "'z klog_scheme kparam \<Rightarrow> bool \<Rightarrow> 'z klog_scheme \<Rightarrow> 'z klog_scheme result" where
  "install_trans P recovering s = install_trans_loop P recovering 0 s"

text \<open>The header block: \<open>n\<close> at 0, \<open>block[i]\<close> at \<open>4 + 4 * i\<close>.\<close>

partial_function (option) read_head_loop :: "nat \<Rightarrow> nat \<Rightarrow> 'z klog_scheme \<Rightarrow> 'z klog_scheme result" where
  "read_head_loop lh i s =
     (if int i < lh_n s
      then bindr (rd32 (lh + 4 + 4 * i) s) (\<lambda>v.
           bindr (lh_set i (i32 (int v)) s) (\<lambda>s. read_head_loop lh (i + 1) s))
      else Ok s)"

definition read_head :: "'z klog_scheme kparam \<Rightarrow> 'z klog_scheme \<Rightarrow> 'z klog_scheme result" where
  "read_head P s =
     bindr (bread P (u32 (log_dev s)) (u32 (log_start s)) s) (\<lambda>(buf, s).
     let lh = k_bdata P buf
     in bindr (rd32 lh s) (\<lambda>n.
        bindr (read_head_loop lh 0 (s\<lparr>lh_n := i32 (int n)\<rparr>)) (\<lambda>s. brelse buf s)))"

partial_function (option) write_head_loop :: "nat \<Rightarrow> nat \<Rightarrow> 'z klog_scheme \<Rightarrow> 'z klog_scheme result" where
  "write_head_loop hb i s =
     (if int i < lh_n s
      then bindr (lh_get i s) (\<lambda>v.
           bindr (wr32 (hb + 4 + 4 * i) (u32 v) s) (\<lambda>s. write_head_loop hb (i + 1) s))
      else Ok s)"

definition write_head :: "'z klog_scheme kparam \<Rightarrow> 'z klog_scheme \<Rightarrow> 'z klog_scheme result" where
  "write_head P s =
     bindr (bread P (u32 (log_dev s)) (u32 (log_start s)) s) (\<lambda>(buf, s).
     let hb = k_bdata P buf
     in bindr (wr32 hb (u32 (lh_n s)) s) (\<lambda>s.
        bindr (write_head_loop hb 0 s) (\<lambda>s.
        bindr (bwrite P buf s) (\<lambda>s. brelse buf s))))"

definition recover_from_log :: "'z klog_scheme kparam \<Rightarrow> 'z klog_scheme \<Rightarrow> 'z klog_scheme result" where
  "recover_from_log P s =
     bindr (read_head P s) (\<lambda>s.
     bindr (install_trans P True s) (\<lambda>s.
     write_head P (s\<lparr>lh_n := 0\<rparr>)))"

text \<open>The check of the size of the header cannot fail: it is 124 bytes. \<open>logstart\<close> is the field of the superblock.\<close>

definition initlog :: "'z klog_scheme kparam \<Rightarrow> int \<Rightarrow> nat \<Rightarrow> 'z klog_scheme \<Rightarrow> 'z klog_scheme result" where
  "initlog P dev logstart s =
     (if (124::nat) \<ge> BSIZE then Err (Panic ''initlog: too big logheader'')
      else let s = initlock LogLock ''log'' s
           in recover_from_log P (s\<lparr>log_start := i32 (int logstart), log_dev := dev\<rparr>))"

partial_function (option) begin_op_loop :: "'z klog_scheme kparam \<Rightarrow> 'z klog_scheme \<Rightarrow> 'z klog_scheme result" where
  "begin_op_loop P s =
     (if log_committing s then bindr (sleep P ChanLog LogLock s) (\<lambda>s. begin_op_loop P s)
      else if lh_n s + (log_outstanding s + 1) * MAXOPBLOCKS > LOGBLOCKS
      then bindr (sleep P ChanLog LogLock s) (\<lambda>s. begin_op_loop P s)
      else release_k LogLock (s\<lparr>log_outstanding := log_outstanding s + 1\<rparr>))"

definition begin_op :: "'z klog_scheme kparam \<Rightarrow> 'z klog_scheme \<Rightarrow> 'z klog_scheme result" where
  "begin_op P s = bindr (acquire_k LogLock s) (\<lambda>s. begin_op_loop P s)"

partial_function (option) write_log_loop ::
  "'z klog_scheme kparam \<Rightarrow> nat \<Rightarrow> 'z klog_scheme \<Rightarrow> 'z klog_scheme result" where
  "write_log_loop P tail s =
     (if int tail < lh_n s
      then bindr (bread P (u32 (log_dev s)) (u32 (log_start s + int tail + 1)) s) (\<lambda>(to, s).
           bindr (lh_get tail s) (\<lambda>src.
           bindr (bread P (u32 (log_dev s)) (u32 src) s) (\<lambda>(from, s).
           bindr (kmemmove (k_bdata P to) (k_bdata P from) BSIZE s) (\<lambda>s.
           bindr (bwrite P to s) (\<lambda>s.
           bindr (brelse from s) (\<lambda>s.
           bindr (brelse to s) (\<lambda>s.
           write_log_loop P (tail + 1) s)))))))
      else Ok s)"

definition write_log :: "'z klog_scheme kparam \<Rightarrow> 'z klog_scheme \<Rightarrow> 'z klog_scheme result" where
  "write_log P s = write_log_loop P 0 s"

definition commit :: "'z klog_scheme kparam \<Rightarrow> 'z klog_scheme \<Rightarrow> 'z klog_scheme result" where
  "commit P s =
     (if lh_n s > 0
      then bindr (write_log P s) (\<lambda>s.
           bindr (write_head P s) (\<lambda>s.
           bindr (install_trans P False s) (\<lambda>s.
           write_head P (s\<lparr>lh_n := 0\<rparr>))))
      else Ok s)"

definition end_op :: "'z klog_scheme kparam \<Rightarrow> 'z klog_scheme \<Rightarrow> 'z klog_scheme result" where
  "end_op P s =
     bindr (acquire_k LogLock s) (\<lambda>s.
     let s = s\<lparr>log_outstanding := log_outstanding s - 1\<rparr>
     in if log_committing s then Err (Panic ''log.committing'')
        else bindr (if log_outstanding s = 0 then Ok (True, s\<lparr>log_committing := True\<rparr>)
                    else bindr (wakeup (Some ChanLog) s) (\<lambda>s. Ok (False, s))) (\<lambda>(do_commit, s).
             bindr (release_k LogLock s) (\<lambda>s.
             if do_commit
             then bindr (commit P s) (\<lambda>s.
                  bindr (acquire_k LogLock s) (\<lambda>s.
                  bindr (wakeup (Some ChanLog) (s\<lparr>log_committing := False\<rparr>)) (\<lambda>s.
                  release_k LogLock s)))
             else Ok s)))"

text \<open>The search of \<open>log_write\<close>: the index of the first logged block with number \<open>bno\<close>, or \<open>log.lh.n\<close>.\<close>

partial_function (option) log_find :: "nat \<Rightarrow> nat \<Rightarrow> 'z klog_scheme \<Rightarrow> nat result" where
  "log_find bno i s =
     (if int i < lh_n s
      then bindr (lh_get i s) (\<lambda>v. if u32 v = bno then Ok i else log_find bno (i + 1) s)
      else Ok i)"

definition log_write :: "nat \<Rightarrow> 'z klog_scheme \<Rightarrow> 'z klog_scheme result" where
  "log_write b s =
     bindr (acquire_k LogLock s) (\<lambda>s.
     if lh_n s \<ge> LOGBLOCKS then Err (Panic ''too big a transaction'')
     else if log_outstanding s < 1 then Err (Panic ''log_write outside of trans'')
     else bindr (log_find (b_blockno (bufs s b)) 0 s) (\<lambda>i.
          bindr (lh_set i (i32 (int (b_blockno (bufs s b)))) s) (\<lambda>s.
          bindr (if int i = lh_n s
                 then bindr (bpin b s) (\<lambda>s. Ok (s\<lparr>lh_n := lh_n s + 1\<rparr>))
                 else Ok s) (\<lambda>s.
          release_k LogLock s))))"

end
