(* ===== verification/Fs.thy ===== *)
theory Fs
  imports Log
begin

text \<open>
  The file system (\<^verbatim>\<open>kernel/fs.c\<close>): block allocation, inodes, file contents, directories and
  path names, on the log and the buffer cache. In-memory inode \<open>ip\<close> is \<^verbatim>\<open>itable.inode[ip]\<close>; a null
  inode pointer is \<open>None\<close>. On-disk structures are read and written in the bytes of the buffers.
\<close>

record superblock =
  sb_magic :: nat
  sb_size :: nat
  sb_nblocks :: nat
  sb_ninodes :: nat
  sb_nlog :: nat
  sb_logstart :: nat
  sb_inodestart :: nat
  sb_bmapstart :: nat

record inode =
  i_dev   :: nat
  i_inum  :: nat
  i_ref   :: int
  i_valid :: int
  i_type  :: int
  i_major :: int
  i_minor :: int
  i_nlink :: int
  i_size  :: nat
  i_addrs :: "nat \<Rightarrow> nat"

record kfs = klog +
  sb     :: superblock
  inodes :: "nat \<Rightarrow> inode"

abbreviation (input) NINODE :: nat where "NINODE \<equiv> 50"
abbreviation (input) FSMAGIC :: nat where "FSMAGIC \<equiv> 0x10203040"
abbreviation (input) ROOTDEV :: nat where "ROOTDEV \<equiv> 1"
abbreviation (input) ROOTINO :: nat where "ROOTINO \<equiv> 1"
abbreviation (input) NDIRECT :: nat where "NDIRECT \<equiv> 12"
abbreviation (input) NINDIRECT :: nat where "NINDIRECT \<equiv> 256"
abbreviation (input) MAXFILE :: nat where "MAXFILE \<equiv> 268"
abbreviation (input) IPB :: nat where "IPB \<equiv> 16"
abbreviation (input) BPB :: nat where "BPB \<equiv> 8192"
abbreviation (input) DIRSIZ :: nat where "DIRSIZ \<equiv> 14"
abbreviation (input) T_DIR :: int where "T_DIR \<equiv> 1"
abbreviation (input) T_FILE :: int where "T_FILE \<equiv> 2"
abbreviation (input) T_DEVICE :: int where "T_DEVICE \<equiv> 3"
abbreviation (input) sizeof_dirent :: nat where "sizeof_dirent \<equiv> 16"

definition IBLOCK :: "nat \<Rightarrow> superblock \<Rightarrow> nat" where
  "IBLOCK i sblk = (i div IPB + sb_inodestart sblk) mod 2 ^ 32"

definition BBLOCK :: "nat \<Rightarrow> superblock \<Rightarrow> nat" where
  "BBLOCK b sblk = (b div BPB + sb_bmapstart sblk) mod 2 ^ 32"

definition upd_inode :: "nat \<Rightarrow> (inode \<Rightarrow> inode) \<Rightarrow> 'z kfs_scheme \<Rightarrow> 'z kfs_scheme" where
  "upd_inode ip f s = s\<lparr>inodes := (inodes s)(ip := f (inodes s ip))\<rparr>"

section \<open>Superblock and blocks\<close>

definition readsb :: "'z kfs_scheme kparam \<Rightarrow> int \<Rightarrow> 'z kfs_scheme \<Rightarrow> 'z kfs_scheme result" where
  "readsb P dev s =
     bindr (bread P (u32 dev) 1 s) (\<lambda>(bp, s).
     let d = k_bdata P bp; m = bytes s;
         s = s\<lparr>sb := \<lparr>sb_magic = ld32 m d, sb_size = ld32 m (d + 4), sb_nblocks = ld32 m (d + 8),
                sb_ninodes = ld32 m (d + 12), sb_nlog = ld32 m (d + 16), sb_logstart = ld32 m (d + 20),
                sb_inodestart = ld32 m (d + 24), sb_bmapstart = ld32 m (d + 28)\<rparr>\<rparr>
     in brelse bp s)"

definition bzero :: "'z kfs_scheme kparam \<Rightarrow> nat \<Rightarrow> nat \<Rightarrow> 'z kfs_scheme \<Rightarrow> 'z kfs_scheme result" where
  "bzero P dev bno s =
     bindr (bread P dev bno s) (\<lambda>(bp, s).
     bindr (kmemset (k_bdata P bp) 0 BSIZE s) (\<lambda>s.
     bindr (log_write bp s) (\<lambda>s. brelse bp s)))"

text \<open>The inner loop of \<open>balloc\<close>: the first free block of this part of the bitmap, from bit \<open>bi\<close> on.\<close>

partial_function (option) balloc_scan :: "nat \<Rightarrow> nat \<Rightarrow> nat \<Rightarrow> 'z kfs_scheme \<Rightarrow> nat option result" where
  "balloc_scan d b bi s =
     (if bi < BPB \<and> b + bi < sb_size (sb s)
      then bindr (rd8 (d + bi div 8) s) (\<lambda>v.
           if v AND push_bit (bi mod 8) 1 = 0 then Ok (Some bi) else balloc_scan d b (bi + 1) s)
      else Ok None)"

partial_function (option) balloc_loop ::
  "'z kfs_scheme kparam \<Rightarrow> nat \<Rightarrow> nat \<Rightarrow> 'z kfs_scheme \<Rightarrow> (nat \<times> 'z kfs_scheme) result" where
  "balloc_loop P dev b s =
     (if b < sb_size (sb s)
      then bindr (bread P dev (BBLOCK b (sb s)) s) (\<lambda>(bp, s).
           let d = k_bdata P bp
           in bindr (balloc_scan d b 0 s) (\<lambda>r.
              case r of
                Some bi \<Rightarrow>
                  bindr (rd8 (d + bi div 8) s) (\<lambda>v.
                  bindr (wr8 (d + bi div 8) (v OR push_bit (bi mod 8) 1) s) (\<lambda>s.
                  bindr (log_write bp s) (\<lambda>s.
                  bindr (brelse bp s) (\<lambda>s.
                  bindr (bzero P dev (b + bi) s) (\<lambda>s. Ok (b + bi, s))))))
              | None \<Rightarrow> bindr (brelse bp s) (\<lambda>s. balloc_loop P dev (b + BPB) s)))
      else Ok (0, kprintf ''balloc: out of blocks\<newline>'' [] s))"

definition balloc :: "'z kfs_scheme kparam \<Rightarrow> nat \<Rightarrow> 'z kfs_scheme \<Rightarrow> (nat \<times> 'z kfs_scheme) result" where
  "balloc P dev s = balloc_loop P dev 0 s"

definition bfree :: "'z kfs_scheme kparam \<Rightarrow> nat \<Rightarrow> nat \<Rightarrow> 'z kfs_scheme \<Rightarrow> 'z kfs_scheme result" where
  "bfree P dev b s =
     bindr (bread P dev (BBLOCK b (sb s)) s) (\<lambda>(bp, s).
     let d = k_bdata P bp; bi = b mod BPB
     in bindr (rd8 (d + bi div 8) s) (\<lambda>v.
        if v AND push_bit (bi mod 8) 1 = 0 then Err (Panic ''freeing free block'')
        else bindr (wr8 (d + bi div 8) (v AND NOT (push_bit (bi mod 8) 1)) s) (\<lambda>s.
             bindr (log_write bp s) (\<lambda>s. brelse bp s))))"

section \<open>Inodes\<close>

definition iinit :: "'z kfs_scheme \<Rightarrow> 'z kfs_scheme" where
  "iinit s =
     (let s = initlock ItableLock ''itable'' s
      in fold (\<lambda>i s. initsleeplock (InodeSleepLock i) ''inode'' s) [0..<NINODE] s)"

text \<open>The loop of \<open>iget\<close> over the inodes \<open>is\<close>: the entry found, or the first empty one.\<close>

fun iget_scan :: "nat \<Rightarrow> nat \<Rightarrow> nat option \<Rightarrow> nat list \<Rightarrow> 'z kfs_scheme \<Rightarrow> nat option \<times> nat option" where
  "iget_scan dev inum e [] s = (None, e)"
| "iget_scan dev inum e (ip # is) s =
     (let x = inodes s ip
      in if i_ref x > 0 \<and> i_dev x = dev \<and> i_inum x = inum then (Some ip, e)
         else iget_scan dev inum (if e = None \<and> i_ref x = 0 then Some ip else e) is s)"

definition iget :: "nat \<Rightarrow> nat \<Rightarrow> 'z kfs_scheme \<Rightarrow> (nat \<times> 'z kfs_scheme) result" where
  "iget dev inum s =
     bindr (acquire_k ItableLock s) (\<lambda>s.
     case iget_scan dev inum None [0..<NINODE] s of
       (Some ip, _) \<Rightarrow>
         bindr (release_k ItableLock (upd_inode ip (\<lambda>x. x\<lparr>i_ref := i_ref x + 1\<rparr>) s)) (\<lambda>s. Ok (ip, s))
     | (None, None) \<Rightarrow> Err (Panic ''iget: no inodes'')
     | (None, Some ip) \<Rightarrow>
         bindr (release_k ItableLock (upd_inode ip (\<lambda>x. x\<lparr>i_dev := dev, i_inum := inum, i_ref := 1, i_valid := 0\<rparr>) s)) (\<lambda>s.
         Ok (ip, s)))"

text \<open>The address of the on-disk inode \<open>inum\<close> in the buffer \<open>bp\<close>.\<close>

definition dinode_at :: "'s kparam \<Rightarrow> nat \<Rightarrow> nat \<Rightarrow> nat" where
  "dinode_at P bp inum = k_bdata P bp + 64 * (inum mod IPB)"

partial_function (option) ialloc_loop ::
  "'z kfs_scheme kparam \<Rightarrow> nat \<Rightarrow> int \<Rightarrow> nat \<Rightarrow> 'z kfs_scheme \<Rightarrow> (nat option \<times> 'z kfs_scheme) result" where
  "ialloc_loop P dev type inum s =
     (if inum < sb_ninodes (sb s)
      then bindr (bread P dev (IBLOCK inum (sb s)) s) (\<lambda>(bp, s).
           let dip = dinode_at P bp inum
           in if ld16 (bytes s) dip = 0
              then bindr (kmemset dip 0 64 s) (\<lambda>s.
                   let s = s\<lparr>bytes := st16 dip (u16 type) (bytes s)\<rparr>
                   in bindr (log_write bp s) (\<lambda>s.
                      bindr (brelse bp s) (\<lambda>s.
                      bindr (iget dev inum s) (\<lambda>(ip, s). Ok (Some ip, s)))))
              else bindr (brelse bp s) (\<lambda>s. ialloc_loop P dev type (inum + 1) s))
      else Ok (None, kprintf ''ialloc: no inodes\<newline>'' [] s))"

definition ialloc :: "'z kfs_scheme kparam \<Rightarrow> nat \<Rightarrow> int \<Rightarrow> 'z kfs_scheme \<Rightarrow> (nat option \<times> 'z kfs_scheme) result" where
  "ialloc P dev type s = ialloc_loop P dev type 1 s"

text \<open>Between \<open>ip->addrs\<close> and \<open>dip->addrs\<close>.\<close>

definition put_addrs :: "nat \<Rightarrow> (nat \<Rightarrow> nat) \<Rightarrow> mem \<Rightarrow> mem" where
  "put_addrs dip addrs m = fold (\<lambda>i. st32 (dip + 12 + 4 * i) (addrs i)) [0..<NDIRECT + 1] m"

definition get_addrs :: "nat \<Rightarrow> mem \<Rightarrow> nat \<Rightarrow> nat" where
  "get_addrs dip m i = ld32 m (dip + 12 + 4 * i)"

definition iupdate :: "'z kfs_scheme kparam \<Rightarrow> nat \<Rightarrow> 'z kfs_scheme \<Rightarrow> 'z kfs_scheme result" where
  "iupdate P ip s =
     bindr (bread P (i_dev (inodes s ip)) (IBLOCK (i_inum (inodes s ip)) (sb s)) s) (\<lambda>(bp, s).
     let x = inodes s ip; dip = dinode_at P bp (i_inum x);
         m = bytes s;
         m = st16 dip (u16 (i_type x)) m;
         m = st16 (dip + 2) (u16 (i_major x)) m;
         m = st16 (dip + 4) (u16 (i_minor x)) m;
         m = st16 (dip + 6) (u16 (i_nlink x)) m;
         m = st32 (dip + 8) (i_size x) m;
         m = put_addrs dip (i_addrs x) m
     in bindr (log_write bp (s\<lparr>bytes := m\<rparr>)) (\<lambda>s. brelse bp s))"

definition idup :: "nat \<Rightarrow> 'z kfs_scheme \<Rightarrow> (nat \<times> 'z kfs_scheme) result" where
  "idup ip s =
     bindr (acquire_k ItableLock s) (\<lambda>s.
     bindr (release_k ItableLock (upd_inode ip (\<lambda>x. x\<lparr>i_ref := i_ref x + 1\<rparr>) s)) (\<lambda>s. Ok (ip, s)))"

text \<open>The inode read from the on-disk inode at \<open>dip\<close>.\<close>

definition load_inode :: "mem \<Rightarrow> nat \<Rightarrow> inode \<Rightarrow> inode" where
  "load_inode m dip x =
     x\<lparr>i_type := i16 (int (ld16 m dip)), i_major := i16 (int (ld16 m (dip + 2))),
       i_minor := i16 (int (ld16 m (dip + 4))), i_nlink := i16 (int (ld16 m (dip + 6))),
       i_size := ld32 m (dip + 8), i_addrs := get_addrs dip m\<rparr>"

definition ilock :: "'z kfs_scheme kparam \<Rightarrow> nat option \<Rightarrow> 'z kfs_scheme \<Rightarrow> 'z kfs_scheme result" where
  "ilock P ipo s =
     (case ipo of None \<Rightarrow> Err (Panic ''ilock'')
      | Some ip \<Rightarrow>
        if i_ref (inodes s ip) < 1 then Err (Panic ''ilock'')
        else bindr (acquiresleep P (InodeSleepLock ip) s) (\<lambda>s.
             if i_valid (inodes s ip) = 0
             then bindr (bread P (i_dev (inodes s ip)) (IBLOCK (i_inum (inodes s ip)) (sb s)) s) (\<lambda>(bp, s).
                  let dip = dinode_at P bp (i_inum (inodes s ip));
                      s = upd_inode ip (load_inode (bytes s) dip) s
                  in bindr (brelse bp s) (\<lambda>s.
                     let s = upd_inode ip (\<lambda>x. x\<lparr>i_valid := 1\<rparr>) s
                     in if i_type (inodes s ip) = 0 then Err (Panic ''ilock: no type'') else Ok s))
             else Ok s))"

definition iunlock :: "nat option \<Rightarrow> 'z kfs_scheme \<Rightarrow> 'z kfs_scheme result" where
  "iunlock ipo s =
     (case ipo of None \<Rightarrow> Err (Panic ''iunlock'')
      | Some ip \<Rightarrow>
        bindr (holdingsleep (InodeSleepLock ip) s) (\<lambda>(h, s).
        if \<not> h \<or> i_ref (inodes s ip) < 1 then Err (Panic ''iunlock'')
        else releasesleep (InodeSleepLock ip) s))"

section \<open>Inode contents\<close>

definition bmap :: "'z kfs_scheme kparam \<Rightarrow> nat \<Rightarrow> nat \<Rightarrow> 'z kfs_scheme \<Rightarrow> (nat \<times> 'z kfs_scheme) result" where
  "bmap P ip bn s =
     (if bn < NDIRECT
      then let addr = i_addrs (inodes s ip) bn
           in if addr = 0
              then bindr (balloc P (i_dev (inodes s ip)) s) (\<lambda>(addr, s).
                   if addr = 0 then Ok (0, s)
                   else Ok (addr, upd_inode ip (\<lambda>x. x\<lparr>i_addrs := (i_addrs x)(bn := addr)\<rparr>) s))
              else Ok (addr, s)
      else let bn = bn - NDIRECT
           in if bn < NINDIRECT
              then bindr (if i_addrs (inodes s ip) NDIRECT = 0
                          then bindr (balloc P (i_dev (inodes s ip)) s) (\<lambda>(addr, s).
                               if addr = 0 then Ok (0, s)
                               else Ok (addr, upd_inode ip (\<lambda>x. x\<lparr>i_addrs := (i_addrs x)(NDIRECT := addr)\<rparr>) s))
                          else Ok (i_addrs (inodes s ip) NDIRECT, s)) (\<lambda>(addr, s).
                   if addr = 0 then Ok (0, s)
                   else bindr (bread P (i_dev (inodes s ip)) addr s) (\<lambda>(bp, s).
                        let a = k_bdata P bp
                        in bindr (rd32 (a + 4 * bn) s) (\<lambda>addr.
                           bindr (if addr = 0
                                  then bindr (balloc P (i_dev (inodes s ip)) s) (\<lambda>(addr, s).
                                       if addr \<noteq> 0
                                       then bindr (wr32 (a + 4 * bn) addr s) (\<lambda>s.
                                            bindr (log_write bp s) (\<lambda>s. Ok (addr, s)))
                                       else Ok (addr, s))
                                  else Ok (addr, s)) (\<lambda>(addr, s).
                           bindr (brelse bp s) (\<lambda>s. Ok (addr, s))))))
              else Err (Panic ''bmap: out of range''))"

fun itrunc_direct :: "'z kfs_scheme kparam \<Rightarrow> nat \<Rightarrow> nat list \<Rightarrow> 'z kfs_scheme \<Rightarrow> 'z kfs_scheme result" where
  "itrunc_direct P ip [] s = Ok s"
| "itrunc_direct P ip (i # is) s =
     (if i_addrs (inodes s ip) i \<noteq> 0
      then bindr (bfree P (i_dev (inodes s ip)) (i_addrs (inodes s ip) i) s) (\<lambda>s.
           itrunc_direct P ip is (upd_inode ip (\<lambda>x. x\<lparr>i_addrs := (i_addrs x)(i := 0)\<rparr>) s))
      else itrunc_direct P ip is s)"

fun itrunc_indirect :: "'z kfs_scheme kparam \<Rightarrow> nat \<Rightarrow> nat \<Rightarrow> nat list \<Rightarrow> 'z kfs_scheme \<Rightarrow> 'z kfs_scheme result" where
  "itrunc_indirect P ip a [] s = Ok s"
| "itrunc_indirect P ip a (j # js) s =
     bindr (rd32 (a + 4 * j) s) (\<lambda>b.
     if b \<noteq> 0 then bindr (bfree P (i_dev (inodes s ip)) b s) (\<lambda>s. itrunc_indirect P ip a js s)
     else itrunc_indirect P ip a js s)"

definition itrunc :: "'z kfs_scheme kparam \<Rightarrow> nat \<Rightarrow> 'z kfs_scheme \<Rightarrow> 'z kfs_scheme result" where
  "itrunc P ip s =
     bindr (itrunc_direct P ip [0..<NDIRECT] s) (\<lambda>s.
     bindr (if i_addrs (inodes s ip) NDIRECT \<noteq> 0
            then bindr (bread P (i_dev (inodes s ip)) (i_addrs (inodes s ip) NDIRECT) s) (\<lambda>(bp, s).
                 bindr (itrunc_indirect P ip (k_bdata P bp) [0..<NINDIRECT] s) (\<lambda>s.
                 bindr (brelse bp s) (\<lambda>s.
                 bindr (bfree P (i_dev (inodes s ip)) (i_addrs (inodes s ip) NDIRECT) s) (\<lambda>s.
                 Ok (upd_inode ip (\<lambda>x. x\<lparr>i_addrs := (i_addrs x)(NDIRECT := 0)\<rparr>) s)))))
            else Ok s) (\<lambda>s.
     iupdate P ip (upd_inode ip (\<lambda>x. x\<lparr>i_size := 0\<rparr>) s)))"

definition iput :: "'z kfs_scheme kparam \<Rightarrow> nat \<Rightarrow> 'z kfs_scheme \<Rightarrow> 'z kfs_scheme result" where
  "iput P ip s =
     bindr (acquire_k ItableLock s) (\<lambda>s.
     bindr (if i_ref (inodes s ip) = 1 \<and> i_valid (inodes s ip) \<noteq> 0 \<and> i_nlink (inodes s ip) = 0
            then bindr (acquiresleep P (InodeSleepLock ip) s) (\<lambda>s.
                 bindr (release_k ItableLock s) (\<lambda>s.
                 bindr (itrunc P ip s) (\<lambda>s.
                 bindr (iupdate P ip (upd_inode ip (\<lambda>x. x\<lparr>i_type := 0\<rparr>) s)) (\<lambda>s.
                 bindr (releasesleep (InodeSleepLock ip) (upd_inode ip (\<lambda>x. x\<lparr>i_valid := 0\<rparr>) s)) (\<lambda>s.
                 acquire_k ItableLock s)))))
            else Ok s) (\<lambda>s.
     release_k ItableLock (upd_inode ip (\<lambda>x. x\<lparr>i_ref := i_ref x - 1\<rparr>) s)))"

definition iunlockput :: "'z kfs_scheme kparam \<Rightarrow> nat \<Rightarrow> 'z kfs_scheme \<Rightarrow> 'z kfs_scheme result" where
  "iunlockput P ip s = bindr (iunlock (Some ip) s) (\<lambda>s. iput P ip s)"

partial_function (option) ireclaim_loop ::
  "'z kfs_scheme kparam \<Rightarrow> int \<Rightarrow> nat \<Rightarrow> 'z kfs_scheme \<Rightarrow> 'z kfs_scheme result" where
  "ireclaim_loop P dev inum s =
     (if inum < sb_ninodes (sb s)
      then bindr (bread P (u32 dev) (IBLOCK inum (sb s)) s) (\<lambda>(bp, s).
           let dip = dinode_at P bp inum
           in bindr (if ld16 (bytes s) dip \<noteq> 0 \<and> ld16 (bytes s) (dip + 6) = 0
                     then bindr (iget (u32 dev) inum (kprintf ''ireclaim: orphaned inode %d\<newline>'' [KInt (int inum)] s)) (\<lambda>(ip, s). Ok (Some ip, s))
                     else Ok (None, s)) (\<lambda>(ip, s).
              bindr (brelse bp s) (\<lambda>s.
              bindr (case ip of
                       None \<Rightarrow> Ok s
                     | Some i \<Rightarrow>
                         bindr (begin_op P s) (\<lambda>s.
                         bindr (ilock P ip s) (\<lambda>s.
                         bindr (iunlock ip s) (\<lambda>s.
                         bindr (iput P i s) (\<lambda>s. end_op P s))))) (\<lambda>s.
              ireclaim_loop P dev (inum + 1) s))))
      else Ok s)"

definition ireclaim :: "'z kfs_scheme kparam \<Rightarrow> int \<Rightarrow> 'z kfs_scheme \<Rightarrow> 'z kfs_scheme result" where
  "ireclaim P dev s = ireclaim_loop P dev 1 s"

definition fsinit :: "'z kfs_scheme kparam \<Rightarrow> int \<Rightarrow> 'z kfs_scheme \<Rightarrow> 'z kfs_scheme result" where
  "fsinit P dev s =
     bindr (readsb P dev s) (\<lambda>s.
     if sb_magic (sb s) \<noteq> FSMAGIC then Err (Panic ''invalid file system'')
     else bindr (initlog P dev (sb_logstart (sb s)) s) (\<lambda>s. ireclaim P dev s))"

text \<open>\<open>st\<close> is the address of the \<open>struct stat\<close>: \<open>dev\<close> 0, \<open>ino\<close> 4, \<open>type\<close> 8, \<open>nlink\<close> 10, \<open>size\<close> 16.\<close>

definition stati :: "nat \<Rightarrow> nat \<Rightarrow> 'z kfs_scheme \<Rightarrow> 'z kfs_scheme" where
  "stati ip st s =
     (let x = inodes s ip; m = bytes s;
          m = st32 st (i_dev x) m;
          m = st32 (st + 4) (i_inum x) m;
          m = st16 (st + 8) (u16 (i_type x)) m;
          m = st16 (st + 10) (u16 (i_nlink x)) m;
          m = st64 (st + 16) (i_size x) m
      in s\<lparr>bytes := m\<rparr>)"

partial_function (option) readi_loop ::
  "'z kfs_scheme kparam \<Rightarrow> nat \<Rightarrow> bool \<Rightarrow> nat \<Rightarrow> nat \<Rightarrow> nat \<Rightarrow> nat \<Rightarrow> 'z kfs_scheme \<Rightarrow> (int \<times> 'z kfs_scheme) result" where
  "readi_loop P ip user_dst dst off n tot s =
     (if tot < n
      then bindr (bmap P ip (off div BSIZE) s) (\<lambda>(addr, s).
           if addr = 0 then Ok (i32 (int tot), s)
           else bindr (bread P (i_dev (inodes s ip)) addr s) (\<lambda>(bp, s).
                let m = min (n - tot) (BSIZE - off mod BSIZE)
                in bindr (either_copyout P user_dst dst (k_bdata P bp + off mod BSIZE) m s) (\<lambda>(r, s).
                   if r = - 1 then bindr (brelse bp s) (\<lambda>s. Ok (- 1, s))
                   else bindr (brelse bp s) (\<lambda>s.
                        readi_loop P ip user_dst (add64 dst m) ((off + m) mod 2 ^ 32) n (tot + m) s))))
      else Ok (i32 (int tot), s))"

definition readi ::
  "'z kfs_scheme kparam \<Rightarrow> nat \<Rightarrow> bool \<Rightarrow> nat \<Rightarrow> nat \<Rightarrow> nat \<Rightarrow> 'z kfs_scheme \<Rightarrow> (int \<times> 'z kfs_scheme) result" where
  "readi P ip user_dst dst off n s =
     (if off > i_size (inodes s ip) \<or> (off + n) mod 2 ^ 32 < off then Ok (0, s)
      else let n = (if (off + n) mod 2 ^ 32 > i_size (inodes s ip) then i_size (inodes s ip) - off else n)
           in readi_loop P ip user_dst dst off n 0 s)"

text \<open>The loop of \<open>writei\<close>: \<open>tot\<close> and \<open>off\<close> after it.\<close>

partial_function (option) writei_loop ::
  "'z kfs_scheme kparam \<Rightarrow> nat \<Rightarrow> bool \<Rightarrow> nat \<Rightarrow> nat \<Rightarrow> nat \<Rightarrow> nat \<Rightarrow> 'z kfs_scheme \<Rightarrow> (nat \<times> nat \<times> 'z kfs_scheme) result" where
  "writei_loop P ip user_src src off n tot s =
     (if tot < n
      then bindr (bmap P ip (off div BSIZE) s) (\<lambda>(addr, s).
           if addr = 0 then Ok (tot, off, s)
           else bindr (bread P (i_dev (inodes s ip)) addr s) (\<lambda>(bp, s).
                let m = min (n - tot) (BSIZE - off mod BSIZE)
                in bindr (either_copyin P (k_bdata P bp + off mod BSIZE) user_src src m s) (\<lambda>(r, s).
                   if r = - 1 then bindr (brelse bp s) (\<lambda>s. Ok (tot, off, s))
                   else bindr (log_write bp s) (\<lambda>s.
                        bindr (brelse bp s) (\<lambda>s.
                        writei_loop P ip user_src (add64 src m) ((off + m) mod 2 ^ 32) n (tot + m) s)))))
      else Ok (tot, off, s))"

definition writei ::
  "'z kfs_scheme kparam \<Rightarrow> nat \<Rightarrow> bool \<Rightarrow> nat \<Rightarrow> nat \<Rightarrow> nat \<Rightarrow> 'z kfs_scheme \<Rightarrow> (int \<times> 'z kfs_scheme) result" where
  "writei P ip user_src src off n s =
     (if off > i_size (inodes s ip) \<or> (off + n) mod 2 ^ 32 < off then Ok (- 1, s)
      else if (off + n) mod 2 ^ 32 > MAXFILE * BSIZE then Ok (- 1, s)
      else bindr (writei_loop P ip user_src src off n 0 s) (\<lambda>(tot, off, s).
           let s = (if off > i_size (inodes s ip) then upd_inode ip (\<lambda>x. x\<lparr>i_size := off\<rparr>) s else s)
           in bindr (iupdate P ip s) (\<lambda>s. Ok (i32 (int tot), s))))"

section \<open>Directories\<close>

definition namecmp :: "nat \<Rightarrow> nat \<Rightarrow> mem \<Rightarrow> int" where
  "namecmp p q m = strncmp p q DIRSIZ m"

text \<open>The result of \<open>dirlookup\<close> is the inode and the offset of its entry. The directory entry is
  read into the local variable \<open>de\<close>: \<open>inum\<close> at 0, \<open>name\<close> at 2.\<close>

partial_function (option) dirlookup_loop ::
  "'z kfs_scheme kparam \<Rightarrow> nat \<Rightarrow> nat \<Rightarrow> nat \<Rightarrow> 'z kfs_scheme \<Rightarrow> ((nat \<times> nat) option \<times> 'z kfs_scheme) result" where
  "dirlookup_loop P dp name off s =
     (if off < i_size (inodes s dp)
      then let de = k_auto P ''dirlookup.de''
           in bindr (readi P dp False de off sizeof_dirent s) (\<lambda>(r, s).
              if r \<noteq> int sizeof_dirent then Err (Panic ''dirlookup read'')
              else if ld16 (bytes s) de = 0 then dirlookup_loop P dp name ((off + sizeof_dirent) mod 2 ^ 32) s
              else if namecmp name (de + 2) (bytes s) = 0
              then bindr (iget (i_dev (inodes s dp)) (ld16 (bytes s) de) s) (\<lambda>(ip, s). Ok (Some (ip, off), s))
              else dirlookup_loop P dp name ((off + sizeof_dirent) mod 2 ^ 32) s)
      else Ok (None, s))"

definition dirlookup ::
  "'z kfs_scheme kparam \<Rightarrow> nat \<Rightarrow> nat \<Rightarrow> 'z kfs_scheme \<Rightarrow> ((nat \<times> nat) option \<times> 'z kfs_scheme) result" where
  "dirlookup P dp name s =
     (if i_type (inodes s dp) \<noteq> T_DIR then Err (Panic ''dirlookup not DIR'')
      else dirlookup_loop P dp name 0 s)"

text \<open>The search of \<open>dirlink\<close> for an empty entry: its offset.\<close>

partial_function (option) dirlink_scan ::
  "'z kfs_scheme kparam \<Rightarrow> nat \<Rightarrow> nat \<Rightarrow> 'z kfs_scheme \<Rightarrow> (nat \<times> 'z kfs_scheme) result" where
  "dirlink_scan P dp off s =
     (if off < i_size (inodes s dp)
      then let de = k_auto P ''dirlink.de''
           in bindr (readi P dp False de off sizeof_dirent s) (\<lambda>(r, s).
              if r \<noteq> int sizeof_dirent then Err (Panic ''dirlink read'')
              else if ld16 (bytes s) de = 0 then Ok (off, s)
              else dirlink_scan P dp (off + sizeof_dirent) s)
      else Ok (off, s))"

definition dirlink ::
  "'z kfs_scheme kparam \<Rightarrow> nat \<Rightarrow> nat \<Rightarrow> nat \<Rightarrow> 'z kfs_scheme \<Rightarrow> (int \<times> 'z kfs_scheme) result" where
  "dirlink P dp name inum s =
     bindr (dirlookup P dp name s) (\<lambda>(r, s).
     case r of
       Some (ip, _) \<Rightarrow> bindr (iput P ip s) (\<lambda>s. Ok (- 1, s))
     | None \<Rightarrow>
         bindr (dirlink_scan P dp 0 s) (\<lambda>(off, s).
         let de = k_auto P ''dirlink.de'';
             m = snd (strncpy (de + 2) name (int DIRSIZ) (bytes s));
             s = s\<lparr>bytes := st16 de (inum mod 2 ^ 16) m\<rparr>
         in bindr (writei P dp False de off sizeof_dirent s) (\<lambda>(r, s).
            if r \<noteq> int sizeof_dirent then Ok (- 1, s) else Ok (0, s))))"

section \<open>Paths\<close>

abbreviation (input) slash :: "8 word" where "slash \<equiv> 47"

partial_function (option) skip_slashes :: "nat \<Rightarrow> mem \<Rightarrow> nat result" where
  "skip_slashes path m = (if m path = slash then skip_slashes (path + 1) m else Ok path)"

partial_function (option) skip_name :: "nat \<Rightarrow> mem \<Rightarrow> nat result" where
  "skip_name path m = (if m path \<noteq> slash \<and> m path \<noteq> 0 then skip_name (path + 1) m else Ok path)"

text \<open>\<open>None\<close> is the null pointer.\<close>

definition skipelem :: "nat \<Rightarrow> nat \<Rightarrow> mem \<Rightarrow> (nat option \<times> mem) result" where
  "skipelem path name m =
     bindr (skip_slashes path m) (\<lambda>path.
     if m path = 0 then Ok (None, m)
     else let s = path
          in bindr (skip_name path m) (\<lambda>path.
             let len = path - s;
                 m = (if len \<ge> DIRSIZ then snd (memmove name s DIRSIZ m)
                      else (snd (memmove name s len m))(name + len := 0))
             in bindr (skip_slashes path m) (\<lambda>path. Ok (Some path, m))))"

partial_function (option) namex_loop ::
  "'z kfs_scheme kparam \<Rightarrow> nat \<Rightarrow> bool \<Rightarrow> nat \<Rightarrow> nat \<Rightarrow> 'z kfs_scheme \<Rightarrow> (nat option \<times> 'z kfs_scheme) result" where
  "namex_loop P path parent name ip s =
     bindr (skipelem path name (bytes s)) (\<lambda>(path, m).
     let s = s\<lparr>bytes := m\<rparr>
     in case path of
          None \<Rightarrow> if parent then bindr (iput P ip s) (\<lambda>s. Ok (None, s)) else Ok (Some ip, s)
        | Some path \<Rightarrow>
            bindr (ilock P (Some ip) s) (\<lambda>s.
            if i_type (inodes s ip) \<noteq> T_DIR then bindr (iunlockput P ip s) (\<lambda>s. Ok (None, s))
            else if parent \<and> bytes s path = 0 then bindr (iunlock (Some ip) s) (\<lambda>s. Ok (Some ip, s))
            else bindr (dirlookup P ip name s) (\<lambda>(r, s).
                 case r of
                   None \<Rightarrow> bindr (iunlockput P ip s) (\<lambda>s. Ok (None, s))
                 | Some (next, _) \<Rightarrow>
                     bindr (iunlockput P ip s) (\<lambda>s. namex_loop P path parent name next s))))"

definition namex ::
  "'z kfs_scheme kparam \<Rightarrow> nat \<Rightarrow> bool \<Rightarrow> nat \<Rightarrow> 'z kfs_scheme \<Rightarrow> (nat option \<times> 'z kfs_scheme) result" where
  "namex P path parent name s =
     bindr (if bytes s path = slash then iget ROOTDEV ROOTINO s
            else bindr (myproc_deref s) (\<lambda>(p, s).
                 case p_cwd (procs s p) of None \<Rightarrow> Err (BadAddress 0) | Some cwd \<Rightarrow> idup cwd s)) (\<lambda>(ip, s).
     namex_loop P path parent name ip s)"

definition namei :: "'z kfs_scheme kparam \<Rightarrow> nat \<Rightarrow> 'z kfs_scheme \<Rightarrow> (nat option \<times> 'z kfs_scheme) result" where
  "namei P path s = namex P path False (k_auto P ''namei.name'') s"

definition nameiparent :: "'z kfs_scheme kparam \<Rightarrow> nat \<Rightarrow> nat \<Rightarrow> 'z kfs_scheme \<Rightarrow> (nat option \<times> 'z kfs_scheme) result" where
  "nameiparent P path name s = namex P path True name s"

end
