(* ===== verification/Console.thy ===== *)
theory Console
  imports Fs
begin

text \<open>
  The UART driver (\<^verbatim>\<open>kernel/uart.c\<close>) and the console (\<^verbatim>\<open>kernel/console.c\<close>). The device is the
  parameter \<open>k_uart_read\<close> for reads of its registers; writes to them are recorded in \<open>uart_out\<close>.
\<close>

record kcons = kfs +
  cons_buf  :: "nat \<Rightarrow> 8 word"
  cons_r    :: nat
  cons_w    :: nat
  cons_e    :: nat
  tx_busy   :: int
  panicking :: int
  panicked  :: int
  uart_out  :: "(nat \<times> 8 word) list"

section \<open>UART\<close>

abbreviation (input) RHR :: nat where "RHR \<equiv> 0"
abbreviation (input) THR :: nat where "THR \<equiv> 0"
abbreviation (input) IER :: nat where "IER \<equiv> 1"
abbreviation (input) FCR :: nat where "FCR \<equiv> 2"
abbreviation (input) ISR :: nat where "ISR \<equiv> 2"
abbreviation (input) LCR :: nat where "LCR \<equiv> 3"
abbreviation (input) LSR :: nat where "LSR \<equiv> 5"
abbreviation (input) LSR_RX_READY :: "8 word" where "LSR_RX_READY \<equiv> 1"
abbreviation (input) LSR_TX_IDLE :: "8 word" where "LSR_TX_IDLE \<equiv> 32"

definition ReadReg :: "'s kparam \<Rightarrow> nat \<Rightarrow> 's \<Rightarrow> 8 word \<times> 's" where
  "ReadReg P r s = k_uart_read P r s"

definition WriteReg :: "nat \<Rightarrow> 8 word \<Rightarrow> 'z kcons_scheme \<Rightarrow> 'z kcons_scheme" where
  "WriteReg r v s = s\<lparr>uart_out := uart_out s @ [(r, v)]\<rparr>"

definition uartinit :: "'z kcons_scheme \<Rightarrow> 'z kcons_scheme" where
  "uartinit s =
     (let s = WriteReg IER 0x00 s;
          s = WriteReg LCR 0x80 s;
          s = WriteReg 0 0x03 s;
          s = WriteReg 1 0x00 s;
          s = WriteReg LCR 0x03 s;
          s = WriteReg FCR (0x01 OR 0x06) s;
          s = WriteReg IER (0x02 OR 0x01) s
      in initlock TxLock ''uart'' s)"

partial_function (option) uartwrite_wait :: "'z kcons_scheme kparam \<Rightarrow> 'z kcons_scheme \<Rightarrow> 'z kcons_scheme result" where
  "uartwrite_wait P s =
     (if tx_busy s \<noteq> 0 then bindr (sleep P ChanTx TxLock s) (\<lambda>s. uartwrite_wait P s) else Ok s)"

partial_function (option) uartwrite_loop ::
  "'z kcons_scheme kparam \<Rightarrow> nat \<Rightarrow> int \<Rightarrow> int \<Rightarrow> 'z kcons_scheme \<Rightarrow> 'z kcons_scheme result" where
  "uartwrite_loop P buf n i s =
     (if i < n
      then bindr (uartwrite_wait P s) (\<lambda>s.
           bindr (rd8 (buf + nat i) s) (\<lambda>ch.
           uartwrite_loop P buf n (i + 1) ((WriteReg THR ch s)\<lparr>tx_busy := 1\<rparr>)))
      else Ok s)"

definition uartwrite :: "'z kcons_scheme kparam \<Rightarrow> nat \<Rightarrow> int \<Rightarrow> 'z kcons_scheme \<Rightarrow> 'z kcons_scheme result" where
  "uartwrite P buf n s =
     bindr (acquire_k TxLock s) (\<lambda>s.
     bindr (uartwrite_loop P buf n 0 s) (\<lambda>s. release_k TxLock s))"

partial_function (option) uart_wait_idle :: "'z kcons_scheme kparam \<Rightarrow> 'z kcons_scheme \<Rightarrow> 'z kcons_scheme result" where
  "uart_wait_idle P s =
     (let (lsr, s) = ReadReg P LSR s in if lsr AND LSR_TX_IDLE = 0 then uart_wait_idle P s else Ok s)"

text \<open>Once \<open>panicked\<close> is set the loop never ends.\<close>

definition uartputc_sync :: "'z kcons_scheme kparam \<Rightarrow> int \<Rightarrow> 'z kcons_scheme \<Rightarrow> 'z kcons_scheme result" where
  "uartputc_sync P ch s =
     (let s = (if panicking s = 0 then push_off (hartid s) s else s)
      in if panicked s \<noteq> 0 then None
         else bindr (uart_wait_idle P s) (\<lambda>s.
              let s = WriteReg THR (of_int ch) s
              in if panicking s = 0 then pop_off (hartid s) s else Ok s))"

definition uartgetc :: "'z kcons_scheme kparam \<Rightarrow> 'z kcons_scheme \<Rightarrow> int \<times> 'z kcons_scheme" where
  "uartgetc P s =
     (let (lsr, s) = ReadReg P LSR s
      in if lsr AND LSR_RX_READY \<noteq> 0 then let (ch, s) = ReadReg P RHR s in (uint ch, s) else (- 1, s))"

section \<open>Console\<close>

abbreviation (input) BACKSPACE :: int where "BACKSPACE \<equiv> 0x100"
abbreviation (input) INPUT_BUF_SIZE :: nat where "INPUT_BUF_SIZE \<equiv> 128"

definition consputc :: "'z kcons_scheme kparam \<Rightarrow> int \<Rightarrow> 'z kcons_scheme \<Rightarrow> 'z kcons_scheme result" where
  "consputc P ch s =
     (if ch = BACKSPACE
      then bindr (uartputc_sync P 8 s) (\<lambda>s.
           bindr (uartputc_sync P 32 s) (\<lambda>s. uartputc_sync P 8 s))
      else uartputc_sync P ch s)"

partial_function (option) consolewrite_loop ::
  "'z kcons_scheme kparam \<Rightarrow> bool \<Rightarrow> nat \<Rightarrow> int \<Rightarrow> int \<Rightarrow> 'z kcons_scheme \<Rightarrow> (int \<times> 'z kcons_scheme) result" where
  "consolewrite_loop P user_src src n i s =
     (if i < n
      then let buf = k_auto P ''consolewrite.buf'';
               nn = (if 32 > n - i then n - i else 32)
           in bindr (either_copyin P buf user_src (add64 src (nat i)) (nat nn) s) (\<lambda>(r, s).
              if r = - 1 then Ok (i, s)
              else bindr (uartwrite P buf nn s) (\<lambda>s. consolewrite_loop P user_src src n (i + nn) s))
      else Ok (i, s))"

definition consolewrite ::
  "'z kcons_scheme kparam \<Rightarrow> bool \<Rightarrow> nat \<Rightarrow> int \<Rightarrow> 'z kcons_scheme \<Rightarrow> (int \<times> 'z kcons_scheme) result" where
  "consolewrite P user_src src n s = consolewrite_loop P user_src src n 0 s"

text \<open>The wait for input: \<open>None\<close> when the process was killed and the lock is released.\<close>

partial_function (option) consoleread_wait ::
  "'z kcons_scheme kparam \<Rightarrow> 'z kcons_scheme \<Rightarrow> (unit option \<times> 'z kcons_scheme) result" where
  "consoleread_wait P s =
     (if cons_r s = cons_w s
      then bindr (myproc_deref s) (\<lambda>(p, s).
           bindr (killed p s) (\<lambda>(k, s).
           if k \<noteq> 0 then bindr (release_k ConsLock s) (\<lambda>s. Ok (None, s))
           else bindr (sleep P ChanCons ConsLock s) (\<lambda>s. consoleread_wait P s)))
      else Ok (Some (), s))"

partial_function (option) consoleread_loop ::
  "'z kcons_scheme kparam \<Rightarrow> bool \<Rightarrow> nat \<Rightarrow> int \<Rightarrow> nat \<Rightarrow> 'z kcons_scheme \<Rightarrow> (int \<times> 'z kcons_scheme) result" where
  "consoleread_loop P user_dst dst n target s =
     (if n > 0
      then bindr (consoleread_wait P s) (\<lambda>(r, s).
           case r of None \<Rightarrow> Ok (- 1, s)
           | Some _ \<Rightarrow>
               let ch = cons_buf s (cons_r s mod INPUT_BUF_SIZE);
                   s = s\<lparr>cons_r := (cons_r s + 1) mod 2 ^ 32\<rparr>
               in if ch = 4
                  then let s = (if nat n < target then s\<lparr>cons_r := (cons_r s + 2 ^ 32 - 1) mod 2 ^ 32\<rparr> else s)
                       in bindr (release_k ConsLock s) (\<lambda>s. Ok (int target - n, s))
                  else let cbuf = k_auto P ''consoleread.cbuf''
                       in bindr (wr8 cbuf ch s) (\<lambda>s.
                          bindr (either_copyout P user_dst dst cbuf 1 s) (\<lambda>(r, s).
                          if r = - 1 then bindr (release_k ConsLock s) (\<lambda>s. Ok (int target - n, s))
                          else if ch = 10 then bindr (release_k ConsLock s) (\<lambda>s. Ok (int target - (n - 1), s))
                          else consoleread_loop P user_dst (add64 dst 1) (n - 1) target s)))
      else bindr (release_k ConsLock s) (\<lambda>s. Ok (int target - n, s)))"

text \<open>\<open>target\<close> is the unsigned value of \<open>n\<close>; for a negative \<open>n\<close> the loop does not run.\<close>

definition consoleread ::
  "'z kcons_scheme kparam \<Rightarrow> bool \<Rightarrow> nat \<Rightarrow> int \<Rightarrow> 'z kcons_scheme \<Rightarrow> (int \<times> 'z kcons_scheme) result" where
  "consoleread P user_dst dst n s =
     bindr (acquire_k ConsLock s) (\<lambda>s.
     bindr (consoleread_loop P user_dst dst n (u32 n) s) (\<lambda>(r, s). Ok (i32 r, s)))"

partial_function (option) consoleintr_kill :: "'z kcons_scheme kparam \<Rightarrow> 'z kcons_scheme \<Rightarrow> 'z kcons_scheme result" where
  "consoleintr_kill P s =
     (if cons_e s \<noteq> cons_w s \<and> cons_buf s ((cons_e s + 2 ^ 32 - 1) mod 2 ^ 32 mod INPUT_BUF_SIZE) \<noteq> 10
      then bindr (consputc P BACKSPACE (s\<lparr>cons_e := (cons_e s + 2 ^ 32 - 1) mod 2 ^ 32\<rparr>)) (\<lambda>s. consoleintr_kill P s)
      else Ok s)"

text \<open>\<open>cons.e - cons.r\<close> in \<open>uint\<close>.\<close>

definition cons_pending :: "'z kcons_scheme \<Rightarrow> nat" where
  "cons_pending s = (cons_e s + 2 ^ 32 - cons_r s) mod 2 ^ 32"

definition consoleintr :: "'z kcons_scheme kparam \<Rightarrow> int \<Rightarrow> 'z kcons_scheme \<Rightarrow> 'z kcons_scheme result" where
  "consoleintr P ch s =
     bindr (acquire_k ConsLock s) (\<lambda>s.
     bindr (if ch = 16 then Ok (procdump s)
            else if ch = 21 then consoleintr_kill P s
            else if ch = 8 \<or> ch = 0x7f
            then if cons_e s \<noteq> cons_w s
                 then consputc P BACKSPACE (s\<lparr>cons_e := (cons_e s + 2 ^ 32 - 1) mod 2 ^ 32\<rparr>) else Ok s
            else if ch \<noteq> 0 \<and> cons_pending s < INPUT_BUF_SIZE
            then let ch = (if ch = 13 then 10 else ch)
                 in bindr (consputc P ch s) (\<lambda>s.
                    let s = s\<lparr>cons_buf := (cons_buf s)(cons_e s mod INPUT_BUF_SIZE := of_int ch),
                              cons_e := (cons_e s + 1) mod 2 ^ 32\<rparr>
                    in if ch = 10 \<or> ch = 4 \<or> cons_pending s = INPUT_BUF_SIZE
                       then wakeup (Some ChanCons) (s\<lparr>cons_w := cons_e s\<rparr>)
                       else Ok s)
            else Ok s) (\<lambda>s.
     release_k ConsLock s))"

partial_function (option) uartintr_loop :: "'z kcons_scheme kparam \<Rightarrow> 'z kcons_scheme \<Rightarrow> 'z kcons_scheme result" where
  "uartintr_loop P s =
     (let (ch, s) = uartgetc P s
      in if ch = - 1 then Ok s else bindr (consoleintr P ch s) (\<lambda>s. uartintr_loop P s))"

definition uartintr :: "'z kcons_scheme kparam \<Rightarrow> 'z kcons_scheme \<Rightarrow> 'z kcons_scheme result" where
  "uartintr P s =
     (let (_, s) = ReadReg P ISR s
      in bindr (acquire_k TxLock s) (\<lambda>s.
         let (lsr, s) = ReadReg P LSR s
         in bindr (if lsr AND LSR_TX_IDLE \<noteq> 0 then wakeup (Some ChanTx) (s\<lparr>tx_busy := 0\<rparr>) else Ok s) (\<lambda>s.
            bindr (release_k TxLock s) (\<lambda>s. uartintr_loop P s))))"

end
