(* ===== verification/File.thy ===== *)
theory File
  imports Console
begin

text \<open>
  Open files (\<^verbatim>\<open>kernel/file.c\<close>) and pipes (\<^verbatim>\<open>kernel/pipe.c\<close>). File \<open>f\<close> is \<^verbatim>\<open>ftable.file[f]\<close>; a
  \<open>struct pipe\<close> lies in the page that \<open>kalloc\<close> returned for it: \<open>lock\<close> 0, \<open>data\<close> 24, \<open>nread\<close> 536,
  \<open>nwrite\<close> 540, \<open>readopen\<close> 544, \<open>writeopen\<close> 548.
\<close>

datatype ftype = FD_NONE | FD_PIPE | FD_INODE | FD_DEVICE

record filerec =
  f_type     :: ftype
  f_ref      :: int
  f_readable :: bool
  f_writable :: bool
  f_pipe     :: nat
  f_ip       :: "nat option"
  f_off      :: nat
  f_major    :: int

datatype devfn = Consoleread | Consolewrite

record kfile = kcons +
  files       :: "nat \<Rightarrow> filerec"
  devsw_read  :: "int \<Rightarrow> devfn option"
  devsw_write :: "int \<Rightarrow> devfn option"

abbreviation (input) NFILE :: nat where "NFILE \<equiv> 100"
abbreviation (input) NDEV :: int where "NDEV \<equiv> 10"
abbreviation (input) CONSOLE :: int where "CONSOLE \<equiv> 1"

definition upd_file :: "nat \<Rightarrow> (filerec \<Rightarrow> filerec) \<Rightarrow> 'z kfile_scheme \<Rightarrow> 'z kfile_scheme" where
  "upd_file f g s = s\<lparr>files := (files s)(f := g (files s f))\<rparr>"

definition consoleinit :: "'z kfile_scheme \<Rightarrow> 'z kfile_scheme" where
  "consoleinit s =
     (let s = initlock ConsLock ''cons'' s;
          s = uartinit s
      in s\<lparr>devsw_read := (devsw_read s)(CONSOLE \<mapsto> Consoleread),
           devsw_write := (devsw_write s)(CONSOLE \<mapsto> Consolewrite)\<rparr>)"

section \<open>Pipes\<close>

abbreviation (input) PIPESIZE :: nat where "PIPESIZE \<equiv> 512"
abbreviation (input) pipe_data :: "nat \<Rightarrow> nat" where "pipe_data pi \<equiv> pi + 24"
abbreviation (input) pipe_nread :: "nat \<Rightarrow> nat" where "pipe_nread pi \<equiv> pi + 536"
abbreviation (input) pipe_nwrite :: "nat \<Rightarrow> nat" where "pipe_nwrite pi \<equiv> pi + 540"
abbreviation (input) pipe_readopen :: "nat \<Rightarrow> nat" where "pipe_readopen pi \<equiv> pi + 544"
abbreviation (input) pipe_writeopen :: "nat \<Rightarrow> nat" where "pipe_writeopen pi \<equiv> pi + 548"

definition pipeclose ::
  "'z kfile_scheme kparam \<Rightarrow> nat \<Rightarrow> bool \<Rightarrow> 'z kfile_scheme \<Rightarrow> 'z kfile_scheme result" where
  "pipeclose P pi writable s =
     bindr (acquire_k (PipeLock pi) s) (\<lambda>s.
     bindr (if writable
            then bindr (wr32 (pipe_writeopen pi) 0 s) (\<lambda>s. wakeup (Some (ChanPipeRead pi)) s)
            else bindr (wr32 (pipe_readopen pi) 0 s) (\<lambda>s. wakeup (Some (ChanPipeWrite pi)) s)) (\<lambda>s.
     bindr (rd32 (pipe_readopen pi) s) (\<lambda>ro.
     bindr (rd32 (pipe_writeopen pi) s) (\<lambda>wo.
     if ro = 0 \<and> wo = 0
     then bindr (release_k (PipeLock pi) s) (\<lambda>s. kfree (hartid s) (k_end P) pi s)
     else release_k (PipeLock pi) s))))"

text \<open>\<open>pi->data[pi->nwrite++ % PIPESIZE] = ch\<close>.\<close>

definition pipe_put :: "nat \<Rightarrow> 8 word \<Rightarrow> 'z kmem_scheme \<Rightarrow> 'z kmem_scheme result" where
  "pipe_put pi ch s =
     bindr (rd32 (pipe_nwrite pi) s) (\<lambda>nwrite.
     bindr (wr32 (pipe_nwrite pi) ((nwrite + 1) mod 2 ^ 32) s) (\<lambda>s.
     wr8 (pipe_data pi + nwrite mod PIPESIZE) ch s))"

definition pipe_full :: "nat \<Rightarrow> 'z kmem_scheme \<Rightarrow> bool result" where
  "pipe_full pi s =
     bindr (rd32 (pipe_nwrite pi) s) (\<lambda>nwrite.
     bindr (rd32 (pipe_nread pi) s) (\<lambda>nread. Ok (nwrite = (nread + PIPESIZE) mod 2 ^ 32)))"

definition pipe_empty :: "nat \<Rightarrow> 'z kmem_scheme \<Rightarrow> bool result" where
  "pipe_empty pi s =
     bindr (rd32 (pipe_nread pi) s) (\<lambda>nread.
     bindr (rd32 (pipe_nwrite pi) s) (\<lambda>nwrite. Ok (nread = nwrite)))"

text \<open>\<open>pi->data[pi->nread % PIPESIZE]\<close> and \<open>pi->nread++\<close>.\<close>

definition pipe_peek :: "nat \<Rightarrow> 'z kmem_scheme \<Rightarrow> (8 word) result" where
  "pipe_peek pi s = bindr (rd32 (pipe_nread pi) s) (\<lambda>nread. rd8 (pipe_data pi + nread mod PIPESIZE) s)"

definition pipe_advance :: "nat \<Rightarrow> 'z kmem_scheme \<Rightarrow> 'z kmem_scheme result" where
  "pipe_advance pi s =
     bindr (rd32 (pipe_nread pi) s) (\<lambda>nread. wr32 (pipe_nread pi) ((nread + 1) mod 2 ^ 32) s)"

text \<open>The loop of \<open>pipewrite\<close>: \<open>None\<close> for the return of -1 with the lock released, else \<open>i\<close>.\<close>

partial_function (option) pipewrite_loop ::
  "'z kfile_scheme kparam \<Rightarrow> nat \<Rightarrow> nat \<Rightarrow> nat \<Rightarrow> int \<Rightarrow> int \<Rightarrow> 'z kfile_scheme \<Rightarrow> (int option \<times> 'z kfile_scheme) result" where
  "pipewrite_loop P pi pr addr n i s =
     (if i < n
      then bindr (rd32 (pipe_readopen pi) s) (\<lambda>ro.
           bindr (if ro = 0 then Ok (1, s) else killed pr s) (\<lambda>(k, s).
           if k \<noteq> 0 then bindr (release_k (PipeLock pi) s) (\<lambda>s. Ok (None, s))
           else bindr (pipe_full pi s) (\<lambda>full.
                if full
                then bindr (wakeup (Some (ChanPipeRead pi)) s) (\<lambda>s.
                     bindr (sleep P (ChanPipeWrite pi) (PipeLock pi) s) (\<lambda>s.
                     pipewrite_loop P pi pr addr n i s))
                else let ch = k_auto P ''pipewrite.ch''
                     in bindr (copyin (hartid s) (k_end P) (p_pagetable (procs s pr)) ch (add64 addr (nat i)) 1 s) (\<lambda>(r, s).
                        if r = - 1 then Ok (Some i, s)
                        else bindr (rd8 ch s) (\<lambda>b.
                             bindr (pipe_put pi b s) (\<lambda>s.
                             pipewrite_loop P pi pr addr n (i + 1) s))))))
      else Ok (Some i, s))"

definition pipewrite ::
  "'z kfile_scheme kparam \<Rightarrow> nat \<Rightarrow> nat \<Rightarrow> int \<Rightarrow> 'z kfile_scheme \<Rightarrow> (int \<times> 'z kfile_scheme) result" where
  "pipewrite P pi addr n s =
     bindr (myproc_deref s) (\<lambda>(pr, s).
     bindr (acquire_k (PipeLock pi) s) (\<lambda>s.
     bindr (pipewrite_loop P pi pr addr n 0 s) (\<lambda>(r, s).
     case r of None \<Rightarrow> Ok (- 1, s)
     | Some i \<Rightarrow>
         bindr (wakeup (Some (ChanPipeRead pi)) s) (\<lambda>s.
         bindr (release_k (PipeLock pi) s) (\<lambda>s. Ok (i, s))))))"

partial_function (option) piperead_wait ::
  "'z kfile_scheme kparam \<Rightarrow> nat \<Rightarrow> nat \<Rightarrow> 'z kfile_scheme \<Rightarrow> (unit option \<times> 'z kfile_scheme) result" where
  "piperead_wait P pi pr s =
     bindr (pipe_empty pi s) (\<lambda>e.
     bindr (rd32 (pipe_writeopen pi) s) (\<lambda>wo.
     if e \<and> wo \<noteq> 0
     then bindr (killed pr s) (\<lambda>(k, s).
          if k \<noteq> 0 then bindr (release_k (PipeLock pi) s) (\<lambda>s. Ok (None, s))
          else bindr (sleep P (ChanPipeRead pi) (PipeLock pi) s) (\<lambda>s. piperead_wait P pi pr s))
     else Ok (Some (), s)))"

partial_function (option) piperead_copy ::
  "'z kfile_scheme kparam \<Rightarrow> nat \<Rightarrow> nat \<Rightarrow> nat \<Rightarrow> int \<Rightarrow> int \<Rightarrow> 'z kfile_scheme \<Rightarrow> (int \<times> 'z kfile_scheme) result" where
  "piperead_copy P pi pr addr n i s =
     (if i < n
      then bindr (pipe_empty pi s) (\<lambda>e.
           if e then Ok (i, s)
           else let ch = k_auto P ''piperead.ch''
                in bindr (pipe_peek pi s) (\<lambda>b.
                   bindr (wr8 ch b s) (\<lambda>s.
                   bindr (copyout (hartid s) (k_end P) (p_pagetable (procs s pr)) (add64 addr (nat i)) ch 1 s) (\<lambda>(r, s).
                   if r = - 1 then Ok (if i = 0 then - 1 else i, s)
                   else bindr (pipe_advance pi s) (\<lambda>s. piperead_copy P pi pr addr n (i + 1) s)))))
      else Ok (i, s))"

definition piperead ::
  "'z kfile_scheme kparam \<Rightarrow> nat \<Rightarrow> nat \<Rightarrow> int \<Rightarrow> 'z kfile_scheme \<Rightarrow> (int \<times> 'z kfile_scheme) result" where
  "piperead P pi addr n s =
     bindr (myproc_deref s) (\<lambda>(pr, s).
     bindr (acquire_k (PipeLock pi) s) (\<lambda>s.
     bindr (piperead_wait P pi pr s) (\<lambda>(r, s).
     case r of None \<Rightarrow> Ok (- 1, s)
     | Some _ \<Rightarrow>
         bindr (piperead_copy P pi pr addr n 0 s) (\<lambda>(i, s).
         bindr (wakeup (Some (ChanPipeWrite pi)) s) (\<lambda>s.
         bindr (release_k (PipeLock pi) s) (\<lambda>s. Ok (i, s)))))))"

section \<open>Files\<close>

definition fileinit :: "'z kfile_scheme \<Rightarrow> 'z kfile_scheme" where
  "fileinit s = initlock FtableLock ''ftable'' s"

fun filealloc_find :: "nat list \<Rightarrow> 'z kfile_scheme \<Rightarrow> nat option" where
  "filealloc_find [] s = None"
| "filealloc_find (f # fs) s = (if f_ref (files s f) = 0 then Some f else filealloc_find fs s)"

definition filealloc :: "'z kfile_scheme \<Rightarrow> (nat option \<times> 'z kfile_scheme) result" where
  "filealloc s =
     bindr (acquire_k FtableLock s) (\<lambda>s.
     case filealloc_find [0..<NFILE] s of
       Some f \<Rightarrow> bindr (release_k FtableLock (upd_file f (\<lambda>x. x\<lparr>f_ref := 1\<rparr>) s)) (\<lambda>s. Ok (Some f, s))
     | None \<Rightarrow> bindr (release_k FtableLock s) (\<lambda>s. Ok (None, s)))"

definition filedup :: "nat \<Rightarrow> 'z kfile_scheme \<Rightarrow> (nat \<times> 'z kfile_scheme) result" where
  "filedup f s =
     bindr (acquire_k FtableLock s) (\<lambda>s.
     if f_ref (files s f) < 1 then Err (Panic ''filedup'')
     else bindr (release_k FtableLock (upd_file f (\<lambda>x. x\<lparr>f_ref := f_ref x + 1\<rparr>) s)) (\<lambda>s. Ok (f, s)))"

definition fileclose :: "'z kfile_scheme kparam \<Rightarrow> nat \<Rightarrow> 'z kfile_scheme \<Rightarrow> 'z kfile_scheme result" where
  "fileclose P f s =
     bindr (acquire_k FtableLock s) (\<lambda>s.
     if f_ref (files s f) < 1 then Err (Panic ''fileclose'')
     else let s = upd_file f (\<lambda>x. x\<lparr>f_ref := f_ref x - 1\<rparr>) s
          in if f_ref (files s f) > 0 then release_k FtableLock s
             else let ff = files s f;
                      s = upd_file f (\<lambda>x. x\<lparr>f_ref := 0, f_type := FD_NONE\<rparr>) s
                  in bindr (release_k FtableLock s) (\<lambda>s.
                     case f_type ff of
                       FD_PIPE \<Rightarrow> pipeclose P (f_pipe ff) (f_writable ff) s
                     | FD_NONE \<Rightarrow> Ok s
                     | _ \<Rightarrow>
                         bindr (begin_op P s) (\<lambda>s.
                         bindr (case f_ip ff of None \<Rightarrow> Err (BadAddress 0) | Some ip \<Rightarrow> iput P ip s) (\<lambda>s.
                         end_op P s))))"

definition filestat :: "'z kfile_scheme kparam \<Rightarrow> nat \<Rightarrow> nat \<Rightarrow> 'z kfile_scheme \<Rightarrow> (int \<times> 'z kfile_scheme) result" where
  "filestat P f addr s =
     bindr (myproc_deref s) (\<lambda>(p, s).
     if f_type (files s f) = FD_INODE \<or> f_type (files s f) = FD_DEVICE
     then bindr (ilock P (f_ip (files s f)) s) (\<lambda>s.
          case f_ip (files s f) of None \<Rightarrow> Err (BadAddress 0)
          | Some ip \<Rightarrow>
              let st = k_auto P ''filestat.st''; s = stati ip st s
              in bindr (iunlock (Some ip) s) (\<lambda>s.
                 bindr (copyout (hartid s) (k_end P) (p_pagetable (procs s p)) addr st 24 s) (\<lambda>(r, s).
                 if r < 0 then Ok (- 1, s) else Ok (0, s))))
     else Ok (- 1, s))"

definition fileread ::
  "'z kfile_scheme kparam \<Rightarrow> nat \<Rightarrow> nat \<Rightarrow> int \<Rightarrow> 'z kfile_scheme \<Rightarrow> (int \<times> 'z kfile_scheme) result" where
  "fileread P f addr n s =
     (if \<not> f_readable (files s f) then Ok (- 1, s)
      else case f_type (files s f) of
        FD_PIPE \<Rightarrow> piperead P (f_pipe (files s f)) addr n s
      | FD_DEVICE \<Rightarrow>
          if f_major (files s f) < 0 \<or> f_major (files s f) \<ge> NDEV then Ok (- 1, s)
          else (case devsw_read s (f_major (files s f)) of
                  None \<Rightarrow> Ok (- 1, s)
                | Some Consoleread \<Rightarrow> consoleread P True addr n s
                | Some Consolewrite \<Rightarrow> consolewrite P True addr n s)
      | FD_INODE \<Rightarrow>
          bindr (ilock P (f_ip (files s f)) s) (\<lambda>s.
          case f_ip (files s f) of None \<Rightarrow> Err (BadAddress 0)
          | Some ip \<Rightarrow>
              bindr (readi P ip True addr (f_off (files s f)) (u32 n) s) (\<lambda>(r, s).
              let s = (if r > 0 then upd_file f (\<lambda>x. x\<lparr>f_off := (f_off x + nat r) mod 2 ^ 32\<rparr>) s else s)
              in bindr (iunlock (Some ip) s) (\<lambda>s. Ok (r, s))))
      | FD_NONE \<Rightarrow> Err (Panic ''fileread''))"

text \<open>The loop of \<open>filewrite\<close> for an inode: the value of \<open>i\<close> after it.\<close>

partial_function (option) filewrite_loop ::
  "'z kfile_scheme kparam \<Rightarrow> nat \<Rightarrow> nat \<Rightarrow> int \<Rightarrow> int \<Rightarrow> 'z kfile_scheme \<Rightarrow> (int \<times> 'z kfile_scheme) result" where
  "filewrite_loop P f addr n i s =
     (if i < n
      then let n1 = (if n - i > 3072 then 3072 else n - i)
           in bindr (begin_op P s) (\<lambda>s.
              bindr (ilock P (f_ip (files s f)) s) (\<lambda>s.
              case f_ip (files s f) of None \<Rightarrow> Err (BadAddress 0)
              | Some ip \<Rightarrow>
                  bindr (writei P ip True (add64 addr (nat i)) (f_off (files s f)) (u32 n1) s) (\<lambda>(r, s).
                  let s = (if r > 0 then upd_file f (\<lambda>x. x\<lparr>f_off := (f_off x + nat r) mod 2 ^ 32\<rparr>) s else s)
                  in bindr (iunlock (Some ip) s) (\<lambda>s.
                     bindr (end_op P s) (\<lambda>s.
                     if r \<noteq> n1 then Ok (i, s) else filewrite_loop P f addr n (i + r) s)))))
      else Ok (i, s))"

definition filewrite ::
  "'z kfile_scheme kparam \<Rightarrow> nat \<Rightarrow> nat \<Rightarrow> int \<Rightarrow> 'z kfile_scheme \<Rightarrow> (int \<times> 'z kfile_scheme) result" where
  "filewrite P f addr n s =
     (if \<not> f_writable (files s f) then Ok (- 1, s)
      else case f_type (files s f) of
        FD_PIPE \<Rightarrow> pipewrite P (f_pipe (files s f)) addr n s
      | FD_DEVICE \<Rightarrow>
          if f_major (files s f) < 0 \<or> f_major (files s f) \<ge> NDEV then Ok (- 1, s)
          else (case devsw_write s (f_major (files s f)) of
                  None \<Rightarrow> Ok (- 1, s)
                | Some Consoleread \<Rightarrow> consoleread P True addr n s
                | Some Consolewrite \<Rightarrow> consolewrite P True addr n s)
      | FD_INODE \<Rightarrow>
          bindr (filewrite_loop P f addr n 0 s) (\<lambda>(i, s). Ok (if i = n then n else - 1, s))
      | FD_NONE \<Rightarrow> Err (Panic ''filewrite''))"

text \<open>The label \<open>bad\<close> of \<open>pipealloc\<close>.\<close>

definition pipealloc_bad ::
  "'z kfile_scheme kparam \<Rightarrow> nat \<Rightarrow> nat option \<Rightarrow> nat option \<Rightarrow> 'z kfile_scheme
     \<Rightarrow> ((nat option \<times> nat option \<times> int) \<times> 'z kfile_scheme) result" where
  "pipealloc_bad P pi f0 f1 s =
     bindr (if pi \<noteq> 0 then kfree (hartid s) (k_end P) pi s else Ok s) (\<lambda>s.
     bindr (case f0 of Some f \<Rightarrow> fileclose P f s | None \<Rightarrow> Ok s) (\<lambda>s.
     bindr (case f1 of Some f \<Rightarrow> fileclose P f s | None \<Rightarrow> Ok s) (\<lambda>s.
     Ok ((f0, f1, - 1), s))))"

text \<open>The result of \<open>pipealloc\<close> is \<open>*f0\<close>, \<open>*f1\<close> and the value returned.\<close>

definition pipealloc ::
  "'z kfile_scheme kparam \<Rightarrow> 'z kfile_scheme \<Rightarrow> ((nat option \<times> nat option \<times> int) \<times> 'z kfile_scheme) result" where
  "pipealloc P s =
     bindr (filealloc s) (\<lambda>(f0, s).
     case f0 of None \<Rightarrow> pipealloc_bad P 0 None None s
     | Some r \<Rightarrow>
       bindr (filealloc s) (\<lambda>(f1, s).
       case f1 of None \<Rightarrow> pipealloc_bad P 0 f0 None s
       | Some w \<Rightarrow>
         bindr (kalloc (hartid s) s) (\<lambda>(pi, s).
         if pi = 0 then pipealloc_bad P 0 f0 f1 s
         else bindr (wr32 (pipe_readopen pi) 1 s) (\<lambda>s.
              bindr (wr32 (pipe_writeopen pi) 1 s) (\<lambda>s.
              bindr (wr32 (pipe_nwrite pi) 0 s) (\<lambda>s.
              bindr (wr32 (pipe_nread pi) 0 s) (\<lambda>s.
              let s = initlock (PipeLock pi) ''pipe'' s;
                  s = upd_file r (\<lambda>x. x\<lparr>f_type := FD_PIPE, f_readable := True, f_writable := False, f_pipe := pi\<rparr>) s;
                  s = upd_file w (\<lambda>x. x\<lparr>f_type := FD_PIPE, f_readable := False, f_writable := True, f_pipe := pi\<rparr>) s
              in Ok ((f0, f1, 0), s))))))))"

end
