(* ===== verification/Fork.thy ===== *)
theory Fork
  imports File
begin

text \<open>
  Processes (\<^verbatim>\<open>kernel/proc.c\<close>), second part: creation and exit, which use the file system, and
  program execution (\<^verbatim>\<open>kernel/exec.c\<close>).
\<close>

section \<open>Fork and exit\<close>

text \<open>\<open>safestrcpy\<close> between two \<open>char name[16]\<close>.\<close>

definition name_copy :: "8 word list \<Rightarrow> 8 word list \<Rightarrow> 8 word list" where
  "name_copy dst src =
     (let t = takeWhile (\<lambda>x. x \<noteq> 0) (take 15 src) in t @ [0] @ drop (length t + 1) dst)"

fun kfork_files :: "nat \<Rightarrow> nat \<Rightarrow> nat list \<Rightarrow> 'z kfile_scheme \<Rightarrow> 'z kfile_scheme result" where
  "kfork_files p np [] s = Ok s"
| "kfork_files p np (i # is) s =
     (case p_ofile (procs s p) i of
        Some f \<Rightarrow> bindr (filedup f s) (\<lambda>(f, s).
                  kfork_files p np is (upd_proc np (\<lambda>pr. pr\<lparr>p_ofile := (p_ofile pr)(i \<mapsto> f)\<rparr>) s))
      | None \<Rightarrow> kfork_files p np is s)"

definition kfork :: "'z kfile_scheme kparam \<Rightarrow> 'z kfile_scheme \<Rightarrow> (int \<times> 'z kfile_scheme) result" where
  "kfork P s =
     bindr (myproc_deref s) (\<lambda>(p, s).
     bindr (allocproc P s) (\<lambda>(r, s).
     case r of None \<Rightarrow> Ok (- 1, s)
     | Some np \<Rightarrow>
         bindr (uvmcopy (hartid s) (k_end P) (p_pagetable (procs s p)) (p_pagetable (procs s np)) (p_sz (procs s p)) s) (\<lambda>(r, s).
         if r < 0
         then bindr (freeproc P np s) (\<lambda>s. bindr (release_k (ProcLock np) s) (\<lambda>s. Ok (- 1, s)))
         else
           let s = upd_proc np (\<lambda>pr. pr\<lparr>p_sz := p_sz (procs s p)\<rparr>) s
           in bindr (kmemmove (p_trapframe (procs s np)) (p_trapframe (procs s p)) 288 s) (\<lambda>s.
              bindr (wr64 (p_trapframe (procs s np) + 112) 0 s) (\<lambda>s.
              bindr (kfork_files p np [0..<NOFILE] s) (\<lambda>s.
              bindr (case p_cwd (procs s p) of None \<Rightarrow> Err (BadAddress 0) | Some cwd \<Rightarrow> idup cwd s) (\<lambda>(cwd, s).
              let s = upd_proc np (\<lambda>pr. pr\<lparr>p_cwd := Some cwd, p_name := name_copy (p_name pr) (p_name (procs s p))\<rparr>) s;
                  pid = p_pid (procs s np)
              in bindr (release_k (ProcLock np) s) (\<lambda>s.
                 bindr (acquire_k WaitLock s) (\<lambda>s.
                 bindr (release_k WaitLock (upd_proc np (\<lambda>pr. pr\<lparr>p_parent := Some p\<rparr>) s)) (\<lambda>s.
                 bindr (acquire_k (ProcLock np) s) (\<lambda>s.
                 bindr (release_k (ProcLock np) (upd_proc np (\<lambda>pr. pr\<lparr>p_state := RUNNABLE\<rparr>) s)) (\<lambda>s.
                 Ok (pid, s)))))))))))))"

fun kexit_files :: "'z kfile_scheme kparam \<Rightarrow> nat \<Rightarrow> nat list \<Rightarrow> 'z kfile_scheme \<Rightarrow> 'z kfile_scheme result" where
  "kexit_files P p [] s = Ok s"
| "kexit_files P p (fd # fds) s =
     (case p_ofile (procs s p) fd of
        Some f \<Rightarrow> bindr (fileclose P f s) (\<lambda>s.
                  kexit_files P p fds (upd_proc p (\<lambda>pr. pr\<lparr>p_ofile := (p_ofile pr)(fd := None)\<rparr>) s))
      | None \<Rightarrow> kexit_files P p fds s)"

definition kexit :: "'z kfile_scheme kparam \<Rightarrow> int \<Rightarrow> 'z kfile_scheme \<Rightarrow> 'z kfile_scheme result" where
  "kexit P status s =
     bindr (myproc_deref s) (\<lambda>(p, s).
     if Some p = initproc s then Err (Panic ''init exiting'')
     else bindr (kexit_files P p [0..<NOFILE] s) (\<lambda>s.
          bindr (begin_op P s) (\<lambda>s.
          bindr (case p_cwd (procs s p) of None \<Rightarrow> Err (BadAddress 0) | Some cwd \<Rightarrow> iput P cwd s) (\<lambda>s.
          bindr (end_op P s) (\<lambda>s.
          let s = upd_proc p (\<lambda>pr. pr\<lparr>p_cwd := None\<rparr>) s
          in bindr (acquire_k WaitLock s) (\<lambda>s.
             bindr (reparent p s) (\<lambda>s.
             bindr (wakeup (map_option ChanProc (p_parent (procs s p))) s) (\<lambda>s.
             bindr (acquire_k (ProcLock p) s) (\<lambda>s.
             let s = upd_proc p (\<lambda>pr. pr\<lparr>p_xstate := status, p_state := ZOMBIE\<rparr>) s
             in bindr (release_k WaitLock s) (\<lambda>s.
                bindr (sched P s) (\<lambda>s. Err (Panic ''zombie exit''))))))))))))"

text \<open>The path is the string literal \<^verbatim>\<open>"/"\<close>.\<close>

definition userinit :: "'z kfile_scheme kparam \<Rightarrow> 'z kfile_scheme \<Rightarrow> 'z kfile_scheme result" where
  "userinit P s =
     bindr (allocproc P s) (\<lambda>(r, s).
     let s = s\<lparr>initproc := r\<rparr>
     in bindr (namei P (k_auto P ''userinit.path'') s) (\<lambda>(ip, s).
        case r of None \<Rightarrow> Err (BadAddress 0)
        | Some p \<Rightarrow> release_k (ProcLock p) (upd_proc p (\<lambda>pr. pr\<lparr>p_cwd := ip, p_state := RUNNABLE\<rparr>) s)))"

section \<open>Exec\<close>

definition flags2perm :: "nat \<Rightarrow> nat" where
  "flags2perm flags =
     (let perm = (if flags AND 1 \<noteq> 0 then PTE_X else 0)
      in if flags AND 2 \<noteq> 0 then perm OR PTE_W else perm)"

partial_function (option) loadseg_loop ::
  "'z kfile_scheme kparam \<Rightarrow> nat \<Rightarrow> nat \<Rightarrow> nat \<Rightarrow> nat \<Rightarrow> nat \<Rightarrow> nat \<Rightarrow> 'z kfile_scheme \<Rightarrow> (int \<times> 'z kfile_scheme) result" where
  "loadseg_loop P pagetable va ip offset sz i s =
     (if i < sz
      then bindr (walkaddr (hartid s) pagetable (add64 va i) s) (\<lambda>pa.
           if pa = 0 then Err (Panic ''loadseg: address should exist'')
           else let n = (if sz - i < PGSIZE then sz - i else PGSIZE)
                in bindr (readi P ip False pa ((offset + i) mod 2 ^ 32) n s) (\<lambda>(r, s).
                   if u32 r \<noteq> n then Ok (- 1, s)
                   else loadseg_loop P pagetable va ip offset sz ((i + PGSIZE) mod 2 ^ 32) s))
      else Ok (0, s))"

definition loadseg ::
  "'z kfile_scheme kparam \<Rightarrow> nat \<Rightarrow> nat \<Rightarrow> nat \<Rightarrow> nat \<Rightarrow> nat \<Rightarrow> 'z kfile_scheme \<Rightarrow> (int \<times> 'z kfile_scheme) result" where
  "loadseg P pagetable va ip offset sz s = loadseg_loop P pagetable va ip offset sz 0 s"

text \<open>The loop over the program headers: whether it ran to its end, and \<open>sz\<close>. A header is read to the
  local variable \<open>ph\<close>: \<open>type\<close> 0, \<open>flags\<close> 4, \<open>off\<close> 8, \<open>vaddr\<close> 16, \<open>filesz\<close> 32, \<open>memsz\<close> 40.\<close>

partial_function (option) kexec_load ::
  "'z kfile_scheme kparam \<Rightarrow> nat \<Rightarrow> nat \<Rightarrow> nat \<Rightarrow> nat \<Rightarrow> int \<Rightarrow> nat \<Rightarrow> 'z kfile_scheme \<Rightarrow> ((bool \<times> nat) \<times> 'z kfile_scheme) result" where
  "kexec_load P ip pagetable phnum i off sz s =
     (if i < phnum
      then let ph = k_auto P ''kexec.ph''
           in bindr (readi P ip False ph (u32 off) 56 s) (\<lambda>(r, s).
              if r \<noteq> 56 then Ok ((False, sz), s)
              else let m = bytes s; vaddr = ld64 m (ph + 16); filesz = ld64 m (ph + 32); memsz = ld64 m (ph + 40)
                   in if ld32 m ph \<noteq> 1 then kexec_load P ip pagetable phnum (i + 1) (off + 56) sz s
                      else if memsz < filesz then Ok ((False, sz), s)
                      else if add64 vaddr memsz < vaddr then Ok ((False, sz), s)
                      else if vaddr mod PGSIZE \<noteq> 0 then Ok ((False, sz), s)
                      else bindr (uvmalloc (hartid s) (k_end P) pagetable sz (add64 vaddr memsz) (flags2perm (ld32 m (ph + 4))) s) (\<lambda>(sz1, s).
                           if sz1 = 0 then Ok ((False, sz), s)
                           else bindr (loadseg P pagetable vaddr ip (ld64 m (ph + 8) mod 2 ^ 32) (filesz mod 2 ^ 32) s) (\<lambda>(r, s).
                                if r < 0 then Ok ((False, sz1), s)
                                else kexec_load P ip pagetable phnum (i + 1) (off + 56) sz1 s)))
      else Ok ((True, sz), s))"

text \<open>The loop over the arguments: \<open>argc\<close> and \<open>sp\<close>, or \<open>None\<close> for \<open>bad\<close>.\<close>

partial_function (option) kexec_args ::
  "'z kfile_scheme kparam \<Rightarrow> nat \<Rightarrow> nat \<Rightarrow> nat \<Rightarrow> nat \<Rightarrow> nat \<Rightarrow> 'z kfile_scheme \<Rightarrow> ((nat \<times> nat) option \<times> 'z kfile_scheme) result" where
  "kexec_args P pagetable argv stackbase argc sp s =
     (let arg = ld64 (bytes s) (argv + 8 * argc)
      in if arg \<noteq> 0
         then if argc \<ge> 32 then Ok (None, s)
              else bindr (strlen arg (bytes s)) (\<lambda>len.
                   let sp = sub64 sp (len + 1);
                       sp = sub64 sp (sp mod 16)
                   in if sp < stackbase then Ok (None, s)
                      else bindr (copyout (hartid s) (k_end P) pagetable sp arg (len + 1) s) (\<lambda>(r, s).
                           if r < 0 then Ok (None, s)
                           else let s = s\<lparr>bytes := st64 (k_auto P ''kexec.ustack'' + 8 * argc) sp (bytes s)\<rparr>
                                in kexec_args P pagetable argv stackbase (argc + 1) sp s))
         else Ok (Some (argc, sp), s))"

partial_function (option) last_component :: "nat \<Rightarrow> nat \<Rightarrow> mem \<Rightarrow> nat result" where
  "last_component last_p p m =
     (if m p \<noteq> 0 then last_component (if m p = slash then p + 1 else last_p) (p + 1) m else Ok last_p)"

definition kexec_bad ::
  "'z kfile_scheme kparam \<Rightarrow> nat \<Rightarrow> nat \<Rightarrow> nat option \<Rightarrow> 'z kfile_scheme \<Rightarrow> (int \<times> 'z kfile_scheme) result" where
  "kexec_bad P pagetable sz ipo s =
     bindr (if pagetable \<noteq> 0 then proc_freepagetable P pagetable sz s else Ok s) (\<lambda>s.
     bindr (case ipo of Some ip \<Rightarrow> bindr (iunlockput P ip s) (\<lambda>s. end_op P s) | None \<Rightarrow> Ok s) (\<lambda>s.
     Ok (- 1, s)))"

text \<open>From the commit of the loaded image on: the stack, the arguments, the switch of the image.\<close>

definition kexec_image ::
  "'z kfile_scheme kparam \<Rightarrow> nat \<Rightarrow> nat \<Rightarrow> nat \<Rightarrow> nat \<Rightarrow> nat \<Rightarrow> 'z kfile_scheme \<Rightarrow> (int \<times> 'z kfile_scheme) result" where
  "kexec_image P path argv pagetable sz entry s =
     bindr (myproc_deref s) (\<lambda>(p, s).
     let oldsz = p_sz (procs s p); sz = PGROUNDUP sz
     in bindr (uvmalloc (hartid s) (k_end P) pagetable sz (add64 sz (2 * PGSIZE)) PTE_W s) (\<lambda>(sz1, s).
        if sz1 = 0 then kexec_bad P pagetable sz None s
        else bindr (uvmclear (hartid s) pagetable (sub64 sz1 (2 * PGSIZE)) s) (\<lambda>s.
             let sp = sz1; stackbase = sub64 sp PGSIZE
             in bindr (kexec_args P pagetable argv stackbase 0 sp s) (\<lambda>(r, s).
                case r of None \<Rightarrow> kexec_bad P pagetable sz1 None s
                | Some (argc, sp) \<Rightarrow>
                    let ustack = k_auto P ''kexec.ustack'';
                        s = s\<lparr>bytes := st64 (ustack + 8 * argc) 0 (bytes s)\<rparr>;
                        sp = sub64 sp ((argc + 1) * 8);
                        sp = sub64 sp (sp mod 16)
                    in if sp < stackbase then kexec_bad P pagetable sz1 None s
                       else bindr (copyout (hartid s) (k_end P) pagetable sp ustack ((argc + 1) * 8) s) (\<lambda>(r, s).
                            if r < 0 then kexec_bad P pagetable sz1 None s
                            else bindr (wr64 (p_trapframe (procs s p) + 120) sp s) (\<lambda>s.
                                 bindr (last_component path path (bytes s)) (\<lambda>l.
                                 let nm = map (\<lambda>i. bytes s (l + i)) [0..<16];
                                     oldpagetable = p_pagetable (procs s p);
                                     s = upd_proc p (\<lambda>pr. pr\<lparr>p_name := name_copy (p_name pr) nm, p_pagetable := pagetable, p_sz := sz1\<rparr>) s
                                 in bindr (wr64 (p_trapframe (procs s p) + 24) entry s) (\<lambda>s.
                                    bindr (wr64 (p_trapframe (procs s p) + 48) sp s) (\<lambda>s.
                                    bindr (proc_freepagetable P oldpagetable oldsz s) (\<lambda>s.
                                    Ok (int argc, s))))))))))) "

text \<open>The ELF header is read to the local variable \<open>elf\<close>: \<open>magic\<close> 0, \<open>entry\<close> 24, \<open>phoff\<close> 32, \<open>phnum\<close> 56.\<close>

definition kexec :: "'z kfile_scheme kparam \<Rightarrow> nat \<Rightarrow> nat \<Rightarrow> 'z kfile_scheme \<Rightarrow> (int \<times> 'z kfile_scheme) result" where
  "kexec P path argv s =
     bindr (myproc_deref s) (\<lambda>(p, s).
     bindr (begin_op P s) (\<lambda>s.
     bindr (namei P path s) (\<lambda>(ipo, s).
     case ipo of None \<Rightarrow> bindr (end_op P s) (\<lambda>s. Ok (- 1, s))
     | Some ip \<Rightarrow>
         bindr (ilock P ipo s) (\<lambda>s.
         let elf = k_auto P ''kexec.elf''
         in bindr (readi P ip False elf 0 64 s) (\<lambda>(r, s).
            if r \<noteq> 64 then kexec_bad P 0 0 ipo s
            else if ld32 (bytes s) elf \<noteq> 0x464C457F then kexec_bad P 0 0 ipo s
            else let entry = ld64 (bytes s) (elf + 24); phoff = ld64 (bytes s) (elf + 32); phnum = ld16 (bytes s) (elf + 56)
                 in bindr (proc_pagetable P p s) (\<lambda>(pagetable, s).
                    if pagetable = 0 then kexec_bad P 0 0 ipo s
                    else bindr (kexec_load P ip pagetable phnum 0 (i32 (int phoff)) 0 s) (\<lambda>((ok, sz), s).
                         if \<not> ok then kexec_bad P pagetable sz ipo s
                         else bindr (iunlockput P ip s) (\<lambda>s.
                              bindr (end_op P s) (\<lambda>s.
                              kexec_image P path argv pagetable sz entry s)))))))))"

end
