(* ===== verification/Syscall.thy ===== *)
theory Syscall
  imports Fork
begin

text \<open>
  System calls: fetching arguments and dispatch (\<^verbatim>\<open>kernel/syscall.c\<close>), process system calls
  (\<^verbatim>\<open>kernel/sysproc.c\<close>), file system calls (\<^verbatim>\<open>kernel/sysfile.c\<close>) and those of the slab allocator
  (\<^verbatim>\<open>kernel/sys_slab_allocator.c\<close>). The value returned is the \<open>uint64\<close> that goes into \<open>a0\<close>.
\<close>

definition u64 :: "int \<Rightarrow> nat" where "u64 x = nat (x mod 2 ^ 64)"

section \<open>Arguments\<close>

text \<open>\<open>ip\<close> is the address the value is stored at.\<close>

definition fetchaddr ::
  "'z kernel_scheme kparam \<Rightarrow> nat \<Rightarrow> nat \<Rightarrow> 'z kernel_scheme \<Rightarrow> (int \<times> 'z kernel_scheme) result" where
  "fetchaddr P addr ip s =
     bindr (myproc_deref s) (\<lambda>(p, s).
     if addr \<ge> p_sz (procs s p) \<or> add64 addr 8 > p_sz (procs s p) then Ok (- 1, s)
     else bindr (copyin (hartid s) (k_end P) (p_pagetable (procs s p)) ip addr 8 s) (\<lambda>(r, s).
          if r \<noteq> 0 then Ok (- 1, s) else Ok (0, s)))"

definition fetchstr :: "nat \<Rightarrow> nat \<Rightarrow> nat \<Rightarrow> 'z kernel_scheme \<Rightarrow> (int \<times> 'z kernel_scheme) result" where
  "fetchstr addr buf max_n s =
     bindr (myproc_deref s) (\<lambda>(p, s).
     bindr (copyinstr (hartid s) (p_pagetable (procs s p)) buf addr max_n s) (\<lambda>(r, s).
     if r < 0 then Ok (- 1, s)
     else bindr (strlen buf (bytes s)) (\<lambda>n. Ok (int n, s))))"

definition argraw :: "nat \<Rightarrow> 'z kernel_scheme \<Rightarrow> (nat \<times> 'z kernel_scheme) result" where
  "argraw n s =
     bindr (myproc_deref s) (\<lambda>(p, s).
     if n < 6 then bindr (rd64 (p_trapframe (procs s p) + 112 + 8 * n) s) (\<lambda>v. Ok (v, s))
     else Err (Panic ''argraw''))"

definition argint :: "nat \<Rightarrow> 'z kernel_scheme \<Rightarrow> (int \<times> 'z kernel_scheme) result" where
  "argint n s = bindr (argraw n s) (\<lambda>(v, s). Ok (i32 (int v), s))"

definition argaddr :: "nat \<Rightarrow> 'z kernel_scheme \<Rightarrow> (nat \<times> 'z kernel_scheme) result" where
  "argaddr n s = argraw n s"

definition argstr :: "nat \<Rightarrow> nat \<Rightarrow> nat \<Rightarrow> 'z kernel_scheme \<Rightarrow> (int \<times> 'z kernel_scheme) result" where
  "argstr n buf max_n s = bindr (argaddr n s) (\<lambda>(addr, s). fetchstr addr buf max_n s)"

section \<open>Processes\<close>

definition sys_exit :: "'z kfile_scheme kparam \<Rightarrow> 'z kfile_scheme \<Rightarrow> (nat \<times> 'z kfile_scheme) result" where
  "sys_exit P s = bindr (argint 0 s) (\<lambda>(n, s). bindr (kexit P n s) (\<lambda>s. Ok (0, s)))"

definition sys_getpid :: "'z kfile_scheme \<Rightarrow> (nat \<times> 'z kfile_scheme) result" where
  "sys_getpid s = bindr (myproc_deref s) (\<lambda>(p, s). Ok (u64 (p_pid (procs s p)), s))"

definition sys_fork :: "'z kfile_scheme kparam \<Rightarrow> 'z kfile_scheme \<Rightarrow> (nat \<times> 'z kfile_scheme) result" where
  "sys_fork P s = bindr (kfork P s) (\<lambda>(r, s). Ok (u64 r, s))"

definition sys_wait :: "'z kfile_scheme kparam \<Rightarrow> 'z kfile_scheme \<Rightarrow> (nat \<times> 'z kfile_scheme) result" where
  "sys_wait P s = bindr (argaddr 0 s) (\<lambda>(p, s). bindr (kwait P p s) (\<lambda>(r, s). Ok (u64 r, s)))"

abbreviation (input) SBRK_EAGER :: int where "SBRK_EAGER \<equiv> 1"

definition sys_sbrk :: "'z kfile_scheme kparam \<Rightarrow> 'z kfile_scheme \<Rightarrow> (nat \<times> 'z kfile_scheme) result" where
  "sys_sbrk P s =
     bindr (argint 0 s) (\<lambda>(n, s).
     bindr (argint 1 s) (\<lambda>(t, s).
     bindr (myproc_deref s) (\<lambda>(p, s).
     let addr = p_sz (procs s p); addr_n = u64 (int addr + n)
     in if t = SBRK_EAGER \<or> n < 0
        then bindr (growproc P n s) (\<lambda>(r, s). if r < 0 then Ok (u64 (- 1), s) else Ok (addr, s))
        else if addr_n < addr then Ok (u64 (- 1), s)
        else if addr_n > TRAPFRAME then Ok (u64 (- 1), s)
        else bindr (myproc_deref s) (\<lambda>(p, s).
             Ok (addr, upd_proc p (\<lambda>pr. pr\<lparr>p_sz := u64 (int (p_sz pr) + n)\<rparr>) s)))))"

partial_function (option) sys_pause_loop ::
  "'z kfile_scheme kparam \<Rightarrow> nat \<Rightarrow> nat \<Rightarrow> 'z kfile_scheme \<Rightarrow> (nat \<times> 'z kfile_scheme) result" where
  "sys_pause_loop P ticks0 n s =
     (if (ticks s + 2 ^ 32 - ticks0) mod 2 ^ 32 < n
      then bindr (myproc_deref s) (\<lambda>(p, s).
           bindr (killed p s) (\<lambda>(k, s).
           if k \<noteq> 0 then bindr (release_k TicksLock s) (\<lambda>s. Ok (u64 (- 1), s))
           else bindr (sleep P ChanTicks TicksLock s) (\<lambda>s. sys_pause_loop P ticks0 n s)))
      else bindr (release_k TicksLock s) (\<lambda>s. Ok (0, s)))"

definition sys_pause :: "'z kfile_scheme kparam \<Rightarrow> 'z kfile_scheme \<Rightarrow> (nat \<times> 'z kfile_scheme) result" where
  "sys_pause P s =
     bindr (argint 0 s) (\<lambda>(n, s).
     let n = (if n < 0 then 0 else n)
     in bindr (acquire_k TicksLock s) (\<lambda>s. sys_pause_loop P (ticks s) (nat n) s))"

definition sys_kill :: "'z kfile_scheme \<Rightarrow> (nat \<times> 'z kfile_scheme) result" where
  "sys_kill s = bindr (argint 0 s) (\<lambda>(pid, s). bindr (kkill pid s) (\<lambda>(r, s). Ok (u64 r, s)))"

definition sys_uptime :: "'z kfile_scheme \<Rightarrow> (nat \<times> 'z kfile_scheme) result" where
  "sys_uptime s =
     bindr (acquire_k TicksLock s) (\<lambda>s.
     let xticks = ticks s
     in bindr (release_k TicksLock s) (\<lambda>s. Ok (xticks, s)))"

section \<open>Files\<close>

abbreviation (input) MAXPATH :: nat where "MAXPATH \<equiv> 128"

text \<open>\<open>None\<close> for the result -1; else the descriptor and the file.\<close>

definition argfd :: "nat \<Rightarrow> 'z kfile_scheme \<Rightarrow> ((int \<times> nat) option \<times> 'z kfile_scheme) result" where
  "argfd n s =
     bindr (argint n s) (\<lambda>(fd, s).
     if fd < 0 \<or> fd \<ge> int NOFILE then Ok (None, s)
     else bindr (myproc_deref s) (\<lambda>(p, s).
          case p_ofile (procs s p) (nat fd) of None \<Rightarrow> Ok (None, s) | Some f \<Rightarrow> Ok (Some (fd, f), s)))"

fun fdalloc_find :: "nat list \<Rightarrow> (nat \<Rightarrow> nat option) \<Rightarrow> nat option" where
  "fdalloc_find [] ofile = None"
| "fdalloc_find (fd # fds) ofile = (if ofile fd = None then Some fd else fdalloc_find fds ofile)"

definition fdalloc :: "nat \<Rightarrow> 'z kfile_scheme \<Rightarrow> (int \<times> 'z kfile_scheme) result" where
  "fdalloc f s =
     bindr (myproc_deref s) (\<lambda>(p, s).
     case fdalloc_find [0..<NOFILE] (p_ofile (procs s p)) of
       Some fd \<Rightarrow> Ok (int fd, upd_proc p (\<lambda>pr. pr\<lparr>p_ofile := (p_ofile pr)(fd \<mapsto> f)\<rparr>) s)
     | None \<Rightarrow> Ok (- 1, s))"

definition sys_dup :: "'z kfile_scheme \<Rightarrow> (nat \<times> 'z kfile_scheme) result" where
  "sys_dup s =
     bindr (argfd 0 s) (\<lambda>(r, s).
     case r of None \<Rightarrow> Ok (u64 (- 1), s)
     | Some (_, f) \<Rightarrow>
         bindr (fdalloc f s) (\<lambda>(fd, s).
         if fd < 0 then Ok (u64 (- 1), s) else bindr (filedup f s) (\<lambda>(_, s). Ok (u64 fd, s))))"

definition sys_read :: "'z kfile_scheme kparam \<Rightarrow> 'z kfile_scheme \<Rightarrow> (nat \<times> 'z kfile_scheme) result" where
  "sys_read P s =
     bindr (argaddr 1 s) (\<lambda>(p, s).
     bindr (argint 2 s) (\<lambda>(n, s).
     bindr (argfd 0 s) (\<lambda>(r, s).
     case r of None \<Rightarrow> Ok (u64 (- 1), s)
     | Some (_, f) \<Rightarrow> bindr (fileread P f p n s) (\<lambda>(v, s). Ok (u64 v, s)))))"

definition sys_write :: "'z kfile_scheme kparam \<Rightarrow> 'z kfile_scheme \<Rightarrow> (nat \<times> 'z kfile_scheme) result" where
  "sys_write P s =
     bindr (argaddr 1 s) (\<lambda>(p, s).
     bindr (argint 2 s) (\<lambda>(n, s).
     bindr (argfd 0 s) (\<lambda>(r, s).
     case r of None \<Rightarrow> Ok (u64 (- 1), s)
     | Some (_, f) \<Rightarrow> bindr (filewrite P f p n s) (\<lambda>(v, s). Ok (u64 v, s)))))"

definition sys_close :: "'z kfile_scheme kparam \<Rightarrow> 'z kfile_scheme \<Rightarrow> (nat \<times> 'z kfile_scheme) result" where
  "sys_close P s =
     bindr (argfd 0 s) (\<lambda>(r, s).
     case r of None \<Rightarrow> Ok (u64 (- 1), s)
     | Some (fd, f) \<Rightarrow>
         bindr (myproc_deref s) (\<lambda>(p, s).
         bindr (fileclose P f (upd_proc p (\<lambda>pr. pr\<lparr>p_ofile := (p_ofile pr)(nat fd := None)\<rparr>) s)) (\<lambda>s. Ok (0, s))))"

definition sys_fstat :: "'z kfile_scheme kparam \<Rightarrow> 'z kfile_scheme \<Rightarrow> (nat \<times> 'z kfile_scheme) result" where
  "sys_fstat P s =
     bindr (argaddr 1 s) (\<lambda>(st, s).
     bindr (argfd 0 s) (\<lambda>(r, s).
     case r of None \<Rightarrow> Ok (u64 (- 1), s)
     | Some (_, f) \<Rightarrow> bindr (filestat P f st s) (\<lambda>(v, s). Ok (u64 v, s))))"

text \<open>The label \<open>bad\<close> of \<open>sys_link\<close>.\<close>

definition sys_link_bad :: "'z kfile_scheme kparam \<Rightarrow> nat \<Rightarrow> 'z kfile_scheme \<Rightarrow> (nat \<times> 'z kfile_scheme) result" where
  "sys_link_bad P ip s =
     bindr (ilock P (Some ip) s) (\<lambda>s.
     bindr (iupdate P ip (upd_inode ip (\<lambda>x. x\<lparr>i_nlink := i16 (i_nlink x - 1)\<rparr>) s)) (\<lambda>s.
     bindr (iunlockput P ip s) (\<lambda>s.
     bindr (end_op P s) (\<lambda>s. Ok (u64 (- 1), s)))))"

definition sys_link :: "'z kfile_scheme kparam \<Rightarrow> 'z kfile_scheme \<Rightarrow> (nat \<times> 'z kfile_scheme) result" where
  "sys_link P s =
     (let old_path = k_auto P ''sys_link.old''; new_path = k_auto P ''sys_link.new''; name = k_auto P ''sys_link.name''
      in bindr (argstr 0 old_path MAXPATH s) (\<lambda>(r, s).
         if r < 0 then Ok (u64 (- 1), s)
         else bindr (argstr 1 new_path MAXPATH s) (\<lambda>(r, s).
         if r < 0 then Ok (u64 (- 1), s)
         else bindr (begin_op P s) (\<lambda>s.
              bindr (namei P old_path s) (\<lambda>(ipo, s).
              case ipo of None \<Rightarrow> bindr (end_op P s) (\<lambda>s. Ok (u64 (- 1), s))
              | Some ip \<Rightarrow>
                  bindr (ilock P ipo s) (\<lambda>s.
                  if i_type (inodes s ip) = T_DIR
                  then bindr (iunlockput P ip s) (\<lambda>s. bindr (end_op P s) (\<lambda>s. Ok (u64 (- 1), s)))
                  else bindr (iupdate P ip (upd_inode ip (\<lambda>x. x\<lparr>i_nlink := i16 (i_nlink x + 1)\<rparr>) s)) (\<lambda>s.
                       bindr (iunlock ipo s) (\<lambda>s.
                       bindr (nameiparent P new_path name s) (\<lambda>(dpo, s).
                       case dpo of None \<Rightarrow> sys_link_bad P ip s
                       | Some dp \<Rightarrow>
                           bindr (ilock P dpo s) (\<lambda>s.
                           bindr (if i_dev (inodes s dp) \<noteq> i_dev (inodes s ip) then Ok (- 1, s)
                                  else dirlink P dp name (i_inum (inodes s ip)) s) (\<lambda>(r, s).
                           if r < 0 then bindr (iunlockput P dp s) (\<lambda>s. sys_link_bad P ip s)
                           else bindr (iunlockput P dp s) (\<lambda>s.
                                bindr (iput P ip s) (\<lambda>s.
                                bindr (end_op P s) (\<lambda>s. Ok (0, s)))))))))))))))"

partial_function (option) isdirempty_loop ::
  "'z kfile_scheme kparam \<Rightarrow> nat \<Rightarrow> nat \<Rightarrow> 'z kfile_scheme \<Rightarrow> (bool \<times> 'z kfile_scheme) result" where
  "isdirempty_loop P dp off s =
     (if off < i_size (inodes s dp)
      then let de = k_auto P ''isdirempty.de''
           in bindr (readi P dp False de off sizeof_dirent s) (\<lambda>(r, s).
              if r \<noteq> int sizeof_dirent then Err (Panic ''isdirempty: readi'')
              else if ld16 (bytes s) de \<noteq> 0 then Ok (False, s)
              else isdirempty_loop P dp (off + sizeof_dirent) s)
      else Ok (True, s))"

definition isdirempty :: "'z kfile_scheme kparam \<Rightarrow> nat \<Rightarrow> 'z kfile_scheme \<Rightarrow> (bool \<times> 'z kfile_scheme) result" where
  "isdirempty P dp s = isdirempty_loop P dp (2 * sizeof_dirent) s"

definition sys_unlink_bad :: "'z kfile_scheme kparam \<Rightarrow> nat \<Rightarrow> 'z kfile_scheme \<Rightarrow> (nat \<times> 'z kfile_scheme) result" where
  "sys_unlink_bad P dp s = bindr (iunlockput P dp s) (\<lambda>s. bindr (end_op P s) (\<lambda>s. Ok (u64 (- 1), s)))"

text \<open>The literals \<^verbatim>\<open>"."\<close> and \<^verbatim>\<open>".."\<close> are at \<open>k_auto P ''dot''\<close> and \<open>k_auto P ''dotdot''\<close>.\<close>

definition sys_unlink :: "'z kfile_scheme kparam \<Rightarrow> 'z kfile_scheme \<Rightarrow> (nat \<times> 'z kfile_scheme) result" where
  "sys_unlink P s =
     (let path = k_auto P ''sys_unlink.path''; name = k_auto P ''sys_unlink.name''; de = k_auto P ''sys_unlink.de''
      in bindr (argstr 0 path MAXPATH s) (\<lambda>(r, s).
         if r < 0 then Ok (u64 (- 1), s)
         else bindr (begin_op P s) (\<lambda>s.
              bindr (nameiparent P path name s) (\<lambda>(dpo, s).
              case dpo of None \<Rightarrow> bindr (end_op P s) (\<lambda>s. Ok (u64 (- 1), s))
              | Some dp \<Rightarrow>
                  bindr (ilock P dpo s) (\<lambda>s.
                  if namecmp name (k_auto P ''dot'') (bytes s) = 0 \<or> namecmp name (k_auto P ''dotdot'') (bytes s) = 0
                  then sys_unlink_bad P dp s
                  else bindr (dirlookup P dp name s) (\<lambda>(r, s).
                       case r of None \<Rightarrow> sys_unlink_bad P dp s
                       | Some (ip, off) \<Rightarrow>
                           bindr (ilock P (Some ip) s) (\<lambda>s.
                           if i_nlink (inodes s ip) < 1 then Err (Panic ''unlink: nlink < 1'')
                           else bindr (if i_type (inodes s ip) = T_DIR then isdirempty P ip s else Ok (True, s)) (\<lambda>(e, s).
                                if \<not> e then bindr (iunlockput P ip s) (\<lambda>s. sys_unlink_bad P dp s)
                                else bindr (kmemset de 0 sizeof_dirent s) (\<lambda>s.
                                     bindr (writei P dp False de off sizeof_dirent s) (\<lambda>(r, s).
                                     if r \<noteq> int sizeof_dirent then Err (Panic ''unlink: writei'')
                                     else bindr (if i_type (inodes s ip) = T_DIR
                                                 then iupdate P dp (upd_inode dp (\<lambda>x. x\<lparr>i_nlink := i16 (i_nlink x - 1)\<rparr>) s)
                                                 else Ok s) (\<lambda>s.
                                          bindr (iunlockput P dp s) (\<lambda>s.
                                          bindr (iupdate P ip (upd_inode ip (\<lambda>x. x\<lparr>i_nlink := i16 (i_nlink x - 1)\<rparr>) s)) (\<lambda>s.
                                          bindr (iunlockput P ip s) (\<lambda>s.
                                          bindr (end_op P s) (\<lambda>s. Ok (0, s))))))))))))))))"

definition create_fail ::
  "'z kfile_scheme kparam \<Rightarrow> nat \<Rightarrow> nat \<Rightarrow> 'z kfile_scheme \<Rightarrow> (nat option \<times> 'z kfile_scheme) result" where
  "create_fail P ip dp s =
     bindr (iupdate P ip (upd_inode ip (\<lambda>x. x\<lparr>i_nlink := 0\<rparr>) s)) (\<lambda>s.
     bindr (iunlockput P ip s) (\<lambda>s.
     bindr (iunlockput P dp s) (\<lambda>s. Ok (None, s))))"

definition create ::
  "'z kfile_scheme kparam \<Rightarrow> nat \<Rightarrow> int \<Rightarrow> int \<Rightarrow> int \<Rightarrow> 'z kfile_scheme \<Rightarrow> (nat option \<times> 'z kfile_scheme) result" where
  "create P path type major minor s =
     (let name = k_auto P ''create.name''
      in bindr (nameiparent P path name s) (\<lambda>(dpo, s).
         case dpo of None \<Rightarrow> Ok (None, s)
         | Some dp \<Rightarrow>
             bindr (ilock P dpo s) (\<lambda>s.
             bindr (dirlookup P dp name s) (\<lambda>(r, s).
             case r of
               Some (ip, _) \<Rightarrow>
                 bindr (iunlockput P dp s) (\<lambda>s.
                 bindr (ilock P (Some ip) s) (\<lambda>s.
                 if type = T_FILE \<and> (i_type (inodes s ip) = T_FILE \<or> i_type (inodes s ip) = T_DEVICE) then Ok (Some ip, s)
                 else bindr (iunlockput P ip s) (\<lambda>s. Ok (None, s))))
             | None \<Rightarrow>
                 bindr (ialloc P (i_dev (inodes s dp)) type s) (\<lambda>(ipo, s).
                 case ipo of None \<Rightarrow> bindr (iunlockput P dp s) (\<lambda>s. Ok (None, s))
                 | Some ip \<Rightarrow>
                     bindr (ilock P ipo s) (\<lambda>s.
                     bindr (iupdate P ip (upd_inode ip (\<lambda>x. x\<lparr>i_major := major, i_minor := minor, i_nlink := 1\<rparr>) s)) (\<lambda>s.
                     bindr (if type = T_DIR
                            then bindr (dirlink P ip (k_auto P ''dot'') (i_inum (inodes s ip)) s) (\<lambda>(r, s).
                                 if r < 0 then Ok (r, s) else dirlink P ip (k_auto P ''dotdot'') (i_inum (inodes s dp)) s)
                            else Ok (0, s)) (\<lambda>(r, s).
                     if r < 0 then create_fail P ip dp s
                     else bindr (dirlink P dp name (i_inum (inodes s ip)) s) (\<lambda>(r, s).
                          if r < 0 then create_fail P ip dp s
                          else bindr (if type = T_DIR
                                      then iupdate P dp (upd_inode dp (\<lambda>x. x\<lparr>i_nlink := i16 (i_nlink x + 1)\<rparr>) s)
                                      else Ok s) (\<lambda>s.
                               bindr (iunlockput P dp s) (\<lambda>s. Ok (Some ip, s))))))))))))"

definition end_fail :: "'z kfile_scheme kparam \<Rightarrow> 'z kfile_scheme \<Rightarrow> (nat \<times> 'z kfile_scheme) result" where
  "end_fail P s = bindr (end_op P s) (\<lambda>s. Ok (u64 (- 1), s))"

text \<open>The first part of \<open>sys_open\<close>: the locked inode, or \<open>None\<close> when the call fails.\<close>

definition sys_open_inode ::
  "'z kfile_scheme kparam \<Rightarrow> nat \<Rightarrow> nat \<Rightarrow> 'z kfile_scheme \<Rightarrow> (nat option \<times> 'z kfile_scheme) result" where
  "sys_open_inode P path omode s =
     (if omode AND 0x200 \<noteq> 0 then create P path T_FILE 0 0 s
      else bindr (namei P path s) (\<lambda>(ipo, s).
           case ipo of None \<Rightarrow> Ok (None, s)
           | Some ip \<Rightarrow>
               bindr (ilock P ipo s) (\<lambda>s.
               if i_type (inodes s ip) = T_DIR \<and> omode \<noteq> 0
               then bindr (iunlockput P ip s) (\<lambda>s. Ok (None, s)) else Ok (ipo, s))))"

definition sys_open :: "'z kfile_scheme kparam \<Rightarrow> 'z kfile_scheme \<Rightarrow> (nat \<times> 'z kfile_scheme) result" where
  "sys_open P s =
     (let path = k_auto P ''sys_open.path''
      in bindr (argint 1 s) (\<lambda>(om, s).
         bindr (argstr 0 path MAXPATH s) (\<lambda>(n, s).
         if n < 0 then Ok (u64 (- 1), s)
         else let omode = u32 om
              in bindr (begin_op P s) (\<lambda>s.
                 bindr (sys_open_inode P path omode s) (\<lambda>(ipo, s).
                 case ipo of None \<Rightarrow> end_fail P s
                 | Some ip \<Rightarrow>
                     if i_type (inodes s ip) = T_DEVICE \<and> (i_major (inodes s ip) < 0 \<or> i_major (inodes s ip) \<ge> NDEV)
                     then bindr (iunlockput P ip s) (\<lambda>s. end_fail P s)
                     else bindr (filealloc s) (\<lambda>(fo, s).
                          case fo of None \<Rightarrow> bindr (iunlockput P ip s) (\<lambda>s. end_fail P s)
                          | Some f \<Rightarrow>
                              bindr (fdalloc f s) (\<lambda>(fd, s).
                              if fd < 0 then bindr (fileclose P f s) (\<lambda>s. bindr (iunlockput P ip s) (\<lambda>s. end_fail P s))
                              else
                                let s = (if i_type (inodes s ip) = T_DEVICE
                                         then upd_file f (\<lambda>x. x\<lparr>f_type := FD_DEVICE, f_major := i_major (inodes s ip)\<rparr>) s
                                         else upd_file f (\<lambda>x. x\<lparr>f_type := FD_INODE, f_off := 0\<rparr>) s);
                                    s = upd_file f (\<lambda>x. x\<lparr>f_ip := Some ip, f_readable := (omode AND 1 = 0),
                                          f_writable := (omode AND 1 \<noteq> 0 \<or> omode AND 2 \<noteq> 0)\<rparr>) s
                                in bindr (if omode AND 0x400 \<noteq> 0 \<and> i_type (inodes s ip) = T_FILE then itrunc P ip s else Ok s) (\<lambda>s.
                                   bindr (iunlock ipo s) (\<lambda>s.
                                   bindr (end_op P s) (\<lambda>s. Ok (u64 fd, s)))))))))))"

definition sys_mkdir :: "'z kfile_scheme kparam \<Rightarrow> 'z kfile_scheme \<Rightarrow> (nat \<times> 'z kfile_scheme) result" where
  "sys_mkdir P s =
     (let path = k_auto P ''sys_mkdir.path''
      in bindr (begin_op P s) (\<lambda>s.
         bindr (argstr 0 path MAXPATH s) (\<lambda>(n, s).
         bindr (if n < 0 then Ok (None, s) else create P path T_DIR 0 0 s) (\<lambda>(ipo, s).
         case ipo of None \<Rightarrow> end_fail P s
         | Some ip \<Rightarrow> bindr (iunlockput P ip s) (\<lambda>s. bindr (end_op P s) (\<lambda>s. Ok (0, s)))))))"

definition sys_mknod :: "'z kfile_scheme kparam \<Rightarrow> 'z kfile_scheme \<Rightarrow> (nat \<times> 'z kfile_scheme) result" where
  "sys_mknod P s =
     (let path = k_auto P ''sys_mknod.path''
      in bindr (begin_op P s) (\<lambda>s.
         bindr (argint 1 s) (\<lambda>(major, s).
         bindr (argint 2 s) (\<lambda>(minor, s).
         bindr (argstr 0 path MAXPATH s) (\<lambda>(n, s).
         bindr (if n < 0 then Ok (None, s) else create P path T_DEVICE (i16 major) (i16 minor) s) (\<lambda>(ipo, s).
         case ipo of None \<Rightarrow> end_fail P s
         | Some ip \<Rightarrow> bindr (iunlockput P ip s) (\<lambda>s. bindr (end_op P s) (\<lambda>s. Ok (0, s)))))))))"

definition sys_chdir :: "'z kfile_scheme kparam \<Rightarrow> 'z kfile_scheme \<Rightarrow> (nat \<times> 'z kfile_scheme) result" where
  "sys_chdir P s =
     (let path = k_auto P ''sys_chdir.path''
      in bindr (myproc_deref s) (\<lambda>(p, s).
         bindr (begin_op P s) (\<lambda>s.
         bindr (argstr 0 path MAXPATH s) (\<lambda>(n, s).
         bindr (if n < 0 then Ok (None, s) else namei P path s) (\<lambda>(ipo, s).
         case ipo of None \<Rightarrow> end_fail P s
         | Some ip \<Rightarrow>
             bindr (ilock P ipo s) (\<lambda>s.
             if i_type (inodes s ip) \<noteq> T_DIR then bindr (iunlockput P ip s) (\<lambda>s. end_fail P s)
             else bindr (iunlock ipo s) (\<lambda>s.
                  bindr (case p_cwd (procs s p) of None \<Rightarrow> Err (BadAddress 0) | Some cwd \<Rightarrow> iput P cwd s) (\<lambda>s.
                  bindr (end_op P s) (\<lambda>s.
                  Ok (0, upd_proc p (\<lambda>pr. pr\<lparr>p_cwd := ipo\<rparr>) s))))))))))"

text \<open>The array \<open>argv\<close> of \<open>sys_exec\<close> has 32 entries of 8 bytes. The loop fills it, and tells whether it succeeded.\<close>

partial_function (option) sys_exec_args ::
  "'z kfile_scheme kparam \<Rightarrow> nat \<Rightarrow> nat \<Rightarrow> nat \<Rightarrow> 'z kfile_scheme \<Rightarrow> (bool \<times> 'z kfile_scheme) result" where
  "sys_exec_args P argv uargv i s =
     (if i \<ge> 32 then Ok (False, s)
      else let uarg = k_auto P ''sys_exec.uarg''
           in bindr (fetchaddr P (add64 uargv (8 * i)) uarg s) (\<lambda>(r, s).
              if r < 0 then Ok (False, s)
              else let ua = ld64 (bytes s) uarg
                   in if ua = 0 then Ok (True, s\<lparr>bytes := st64 (argv + 8 * i) 0 (bytes s)\<rparr>)
                      else bindr (kalloc (hartid s) s) (\<lambda>(mem, s).
                           let s = s\<lparr>bytes := st64 (argv + 8 * i) mem (bytes s)\<rparr>
                           in if mem = 0 then Ok (False, s)
                              else bindr (fetchstr ua mem PGSIZE s) (\<lambda>(r, s).
                                   if r < 0 then Ok (False, s) else sys_exec_args P argv uargv (i + 1) s))))"

fun sys_exec_free :: "'z kfile_scheme kparam \<Rightarrow> nat \<Rightarrow> nat list \<Rightarrow> 'z kfile_scheme \<Rightarrow> 'z kfile_scheme result" where
  "sys_exec_free P argv [] s = Ok s"
| "sys_exec_free P argv (i # is) s =
     (let a = ld64 (bytes s) (argv + 8 * i)
      in if a \<noteq> 0 then bindr (kfree (hartid s) (k_end P) a s) (\<lambda>s. sys_exec_free P argv is s) else Ok s)"

definition sys_exec :: "'z kfile_scheme kparam \<Rightarrow> 'z kfile_scheme \<Rightarrow> (nat \<times> 'z kfile_scheme) result" where
  "sys_exec P s =
     (let path = k_auto P ''sys_exec.path''; argv = k_auto P ''sys_exec.argv''
      in bindr (argaddr 1 s) (\<lambda>(uargv, s).
         bindr (argstr 0 path MAXPATH s) (\<lambda>(n, s).
         if n < 0 then Ok (u64 (- 1), s)
         else bindr (kmemset argv 0 256 s) (\<lambda>s.
              bindr (sys_exec_args P argv uargv 0 s) (\<lambda>(ok, s).
              if \<not> ok then bindr (sys_exec_free P argv [0..<32] s) (\<lambda>s. Ok (u64 (- 1), s))
              else bindr (kexec P path argv s) (\<lambda>(ret, s).
                   bindr (sys_exec_free P argv [0..<32] s) (\<lambda>s. Ok (u64 ret, s))))))))"

definition sys_pipe_fail ::
  "'z kfile_scheme kparam \<Rightarrow> nat \<Rightarrow> nat \<Rightarrow> 'z kfile_scheme \<Rightarrow> (nat \<times> 'z kfile_scheme) result" where
  "sys_pipe_fail P rfile wfile s =
     bindr (fileclose P rfile s) (\<lambda>s. bindr (fileclose P wfile s) (\<lambda>s. Ok (u64 (- 1), s)))"

definition sys_pipe :: "'z kfile_scheme kparam \<Rightarrow> 'z kfile_scheme \<Rightarrow> (nat \<times> 'z kfile_scheme) result" where
  "sys_pipe P s =
     bindr (myproc_deref s) (\<lambda>(p, s).
     bindr (argaddr 0 s) (\<lambda>(fdarray, s).
     bindr (pipealloc P s) (\<lambda>((f0, f1, r), s).
     case (f0, f1) of
       (Some rfile, Some wfile) \<Rightarrow>
         if r < 0 then Ok (u64 (- 1), s)
         else
           bindr (fdalloc rfile s) (\<lambda>(fd0, s).
           if fd0 < 0 then sys_pipe_fail P rfile wfile s
           else
             bindr (fdalloc wfile s) (\<lambda>(fd1, s).
             let close0 = (\<lambda>pr. pr\<lparr>p_ofile := (p_ofile pr)(nat fd0 := None)\<rparr>);
                 close1 = (\<lambda>pr. pr\<lparr>p_ofile := (p_ofile pr)(nat fd1 := None)\<rparr>)
             in if fd1 < 0 then sys_pipe_fail P rfile wfile (upd_proc p close0 s)
                else
                  let a0 = k_auto P ''sys_pipe.fd0''; a1 = k_auto P ''sys_pipe.fd1'';
                      s = s\<lparr>bytes := st32 a1 (u32 fd1) (st32 a0 (u32 fd0) (bytes s))\<rparr>;
                      pt = p_pagetable (procs s p)
                  in bindr (copyout (hartid s) (k_end P) pt fdarray a0 4 s) (\<lambda>(r, s).
                     bindr (if r < 0 then Ok (r, s) else copyout (hartid s) (k_end P) pt (add64 fdarray 4) a1 4 s) (\<lambda>(r, s).
                     if r < 0 then sys_pipe_fail P rfile wfile (upd_proc p close1 (upd_proc p close0 s))
                     else Ok (0, s)))))
     | _ \<Rightarrow> Ok (u64 (- 1), s))))"

section \<open>Slab caches\<close>

definition sys_cache_init :: "'z kfile_scheme kenv \<Rightarrow> 'z kfile_scheme \<Rightarrow> (nat \<times> 'z kfile_scheme) result" where
  "sys_cache_init E s = bindr (cache_init (hartid s) E s) (\<lambda>s. Ok (0, s))"

text \<open>The name is a buffer of 30 bytes on the stack; \<open>str_at\<close> is the string there, for \<open>initlock\<close>.\<close>

definition str_at :: "nat \<Rightarrow> mem \<Rightarrow> string" where
  "str_at a m = map (\<lambda>b. char_of (unat b)) (takeWhile (\<lambda>b. b \<noteq> 0) (map (\<lambda>i. m (a + i)) [0..<30]))"

definition sys_cache_create ::
  "'z kfile_scheme kparam \<Rightarrow> 'z kfile_scheme kenv \<Rightarrow> 'z kfile_scheme \<Rightarrow> (nat \<times> 'z kfile_scheme) result" where
  "sys_cache_create P E s =
     (let name = k_auto P ''sys_cache_create.name''
      in bindr (argstr 0 name 30 s) (\<lambda>(len, s).
         if len = - 1 then Ok (u64 (- 1), s)
         else bindr (argaddr 1 s) (\<lambda>(sz, s).
              bindr (argaddr 2 s) (\<lambda>(ctor, s).
              bindr (argaddr 3 s) (\<lambda>(dtor, s).
              bindr (cache_create (hartid s) E name (str_at name (bytes s)) sz ctor dtor s) (\<lambda>(cache, s).
              bindr (cache_to_id cache s) (\<lambda>i. Ok (i, s))))))))"

definition sys_cache_shrink :: "'z kfile_scheme kenv \<Rightarrow> 'z kfile_scheme \<Rightarrow> (nat \<times> 'z kfile_scheme) result" where
  "sys_cache_shrink E s =
     bindr (argaddr 0 s) (\<lambda>(i, s).
     bindr (id_to_cache i s) (\<lambda>cache.
     bindr (cache_shrink (hartid s) E cache s) (\<lambda>(ret, s). Ok (u64 ret, s))))"

definition sys_cache_alloc :: "'z kfile_scheme kenv \<Rightarrow> 'z kfile_scheme \<Rightarrow> (nat \<times> 'z kfile_scheme) result" where
  "sys_cache_alloc E s =
     bindr (argaddr 0 s) (\<lambda>(i, s).
     bindr (id_to_cache i s) (\<lambda>cache.
     if cache = 0 then Ok (u64 (- 1), s)
     else bindr (myproc_deref s) (\<lambda>(p, s).
          bindr (cache_alloc (hartid s) E cache s) (\<lambda>(mem, s).
          if mem = 0 then Ok (u64 (- 1), s)
          else let old_size = PGROUNDUP (p_sz (procs s p))
               in bindr (rd64 (cache_size cache) s) (\<lambda>sz.
                  let new_space = PGROUNDUP sz
                  in bindr (mappages (hartid s) (p_pagetable (procs s p)) old_size new_space mem (PTE_R OR PTE_W OR PTE_U) s) (\<lambda>(ret, s).
                     if ret < 0 then Ok (u64 (- 1), s)
                     else bindr (rd64 (cache_size cache) s) (\<lambda>sz.
                          Ok (old_size, upd_proc p (\<lambda>pr. pr\<lparr>p_sz := add64 (p_sz pr) (PGROUNDUP sz)\<rparr>) s))))))))"

definition sys_cache_free ::
  "'z kfile_scheme kparam \<Rightarrow> 'z kfile_scheme kenv \<Rightarrow> 'z kfile_scheme \<Rightarrow> (nat \<times> 'z kfile_scheme) result" where
  "sys_cache_free P E s =
     bindr (argaddr 0 s) (\<lambda>(i, s).
     bindr (argaddr 1 s) (\<lambda>(ptr, s).
     bindr (id_to_cache i s) (\<lambda>cache.
     if cache = 0 then Ok (u64 (- 1), s)
     else bindr (myproc_deref s) (\<lambda>(p, s).
          bindr (walkaddr (hartid s) (p_pagetable (procs s p)) ptr s) (\<lambda>pa.
          if pa = 0 then Ok (u64 (- 1), s)
          else bindr (rd64 (cache_size cache) s) (\<lambda>sz.
               let npages = PGROUNDUP sz div PGSIZE
               in bindr (uvmunmap (hartid s) (k_end P) (p_pagetable (procs s p)) ptr npages False s) (\<lambda>s.
                  bindr (cache_free (hartid s) E cache pa s) (\<lambda>s. Ok (0, s)))))))))"

definition sys_cache_kalloc :: "'z kfile_scheme kenv \<Rightarrow> 'z kfile_scheme \<Rightarrow> (nat \<times> 'z kfile_scheme) result" where
  "sys_cache_kalloc E s = bindr (argaddr 0 s) (\<lambda>(sz, s). cache_kalloc (hartid s) E sz s)"

definition sys_cache_kfree :: "'z kfile_scheme \<Rightarrow> (nat \<times> 'z kfile_scheme) result" where
  "sys_cache_kfree s = bindr (argaddr 0 s) (\<lambda>(ptr, s). bindr (cache_kfree (hartid s) ptr s) (\<lambda>s. Ok (0, s)))"

definition sys_cache_destroy :: "'z kfile_scheme kenv \<Rightarrow> 'z kfile_scheme \<Rightarrow> (nat \<times> 'z kfile_scheme) result" where
  "sys_cache_destroy E s =
     bindr (argaddr 0 s) (\<lambda>(i, s).
     bindr (id_to_cache i s) (\<lambda>cache.
     if cache = 0 then Ok (u64 (- 1), s) else bindr (cache_destroy (hartid s) E cache s) (\<lambda>s. Ok (0, s))))"

definition sys_cache_info :: "'z kfile_scheme kenv \<Rightarrow> 'z kfile_scheme \<Rightarrow> (nat \<times> 'z kfile_scheme) result" where
  "sys_cache_info E s =
     bindr (argaddr 0 s) (\<lambda>(i, s).
     bindr (id_to_cache i s) (\<lambda>cache.
     if cache = 0 then Ok (u64 (- 1), s) else bindr (cache_info (hartid s) E cache s) (\<lambda>s. Ok (0, s))))"

definition sys_cache_error :: "'z kfile_scheme \<Rightarrow> (nat \<times> 'z kfile_scheme) result" where
  "sys_cache_error s =
     bindr (argaddr 0 s) (\<lambda>(i, s).
     bindr (id_to_cache i s) (\<lambda>cache.
     if cache = 0 then Ok (u64 (- 1), s) else cache_error cache s))"

section \<open>Dispatch\<close>

text \<open>\<open>syscalls[num]\<close>.\<close>

definition syscalls ::
  "'z kfile_scheme kparam \<Rightarrow> 'z kfile_scheme kenv \<Rightarrow> (nat \<times> ('z kfile_scheme \<Rightarrow> (nat \<times> 'z kfile_scheme) result)) list" where
  "syscalls P E =
     [(1, sys_fork P), (2, sys_exit P), (3, sys_wait P), (4, sys_pipe P), (5, sys_read P), (6, sys_kill),
      (7, sys_exec P), (8, sys_fstat P), (9, sys_chdir P), (10, sys_dup), (11, sys_getpid), (12, sys_sbrk P),
      (13, sys_pause P), (14, sys_uptime), (15, sys_open P), (16, sys_write P), (17, sys_mknod P),
      (18, sys_unlink P), (19, sys_link P), (20, sys_mkdir P), (21, sys_close P), (22, sys_cache_init E),
      (23, sys_cache_create P E), (24, sys_cache_shrink E), (25, sys_cache_alloc E), (26, sys_cache_free P E),
      (27, sys_cache_kalloc E), (28, sys_cache_kfree), (29, sys_cache_destroy E), (30, sys_cache_info E),
      (31, sys_cache_error)]"

text \<open>The trapframe has \<open>a0\<close> at 112 and \<open>a7\<close> at 168.\<close>

definition syscall ::
  "'z kfile_scheme kparam \<Rightarrow> 'z kfile_scheme kenv \<Rightarrow> 'z kfile_scheme \<Rightarrow> 'z kfile_scheme result" where
  "syscall P E s =
     bindr (myproc_deref s) (\<lambda>(p, s).
     bindr (rd64 (p_trapframe (procs s p) + 168) s) (\<lambda>a7.
     let num = i32 (int a7)
     in case (if num > 0 \<and> num < 32 then map_of (syscalls P E) (nat num) else None) of
          Some f \<Rightarrow> bindr (f s) (\<lambda>(v, s). wr64 (p_trapframe (procs s p) + 112) v s)
        | None \<Rightarrow>
            wr64 (p_trapframe (procs s p) + 112) (u64 (- 1))
              (kprintf ''%d %s: unknown sys call %d\<newline>''
                 [KInt (p_pid (procs s p)), KBytes (p_name (procs s p)), KInt num] s)))"

end
