(* ===== verification/Trap.thy ===== *)
theory Trap
  imports Syscall
begin

text \<open>
  Traps and interrupts (\<^verbatim>\<open>kernel/trap.c\<close>) and the interrupt controller (\<^verbatim>\<open>kernel/plic.c\<close>). The
  registers of the hart that runs the thread are a \<open>hart\<close> beside the kernel state; \<open>T\<close> holds the
  addresses of the assembly routines and the two devices the sources only talk to.
\<close>

record 's tparam =
  t_kernelvec :: nat
  t_uservec   :: nat
  t_usertrap  :: nat
  t_claim     :: "nat \<Rightarrow> 's \<Rightarrow> nat \<times> 's"      \<comment> \<open>a read of \<open>PLIC_SCLAIM(hart)\<close>\<close>
  t_plic_out  :: "nat \<Rightarrow> nat \<Rightarrow> 's \<Rightarrow> 's"      \<comment> \<open>a write of a PLIC register\<close>
  t_disk_intr :: "'s \<Rightarrow> 's result"           \<comment> \<open>\<open>virtio_disk_intr\<close>\<close>

section \<open>Interrupt controller\<close>

definition PLIC_SENABLE :: "nat \<Rightarrow> nat" where "PLIC_SENABLE hart_id = PLIC + 0x2080 + hart_id * 0x100"
definition PLIC_SPRIORITY :: "nat \<Rightarrow> nat" where "PLIC_SPRIORITY hart_id = PLIC + 0x201000 + hart_id * 0x2000"
definition PLIC_SCLAIM :: "nat \<Rightarrow> nat" where "PLIC_SCLAIM hart_id = PLIC + 0x201004 + hart_id * 0x2000"

definition plicinit :: "'z kernel_scheme tparam \<Rightarrow> 'z kernel_scheme \<Rightarrow> 'z kernel_scheme" where
  "plicinit T s = t_plic_out T (PLIC + 1 * 4) 1 (t_plic_out T (PLIC + 10 * 4) 1 s)"

definition plicinithart :: "'z kernel_scheme tparam \<Rightarrow> 'z kernel_scheme \<Rightarrow> 'z kernel_scheme" where
  "plicinithart T s =
     (let h = cpuid s;
          s = t_plic_out T (PLIC_SENABLE h) (push_bit 10 1 OR push_bit 1 1) s
      in t_plic_out T (PLIC_SPRIORITY h) 0 s)"

definition plic_claim :: "'z kernel_scheme tparam \<Rightarrow> 'z kernel_scheme \<Rightarrow> int \<times> 'z kernel_scheme" where
  "plic_claim T s = (let (irq, s) = t_claim T (PLIC_SCLAIM (cpuid s)) s in (i32 (int irq), s))"

definition plic_complete :: "'z kernel_scheme tparam \<Rightarrow> int \<Rightarrow> 'z kernel_scheme \<Rightarrow> 'z kernel_scheme" where
  "plic_complete T irq s = t_plic_out T (PLIC_SCLAIM (cpuid s)) (u32 irq) s"

section \<open>Traps\<close>

definition trapinit :: "'z kernel_scheme \<Rightarrow> 'z kernel_scheme" where
  "trapinit s = initlock TicksLock ''time'' s"

definition trapinithart :: "'s tparam \<Rightarrow> hart \<Rightarrow> hart" where
  "trapinithart T h = w_stvec (of_nat (t_kernelvec T)) h"

definition clockintr :: "'z kernel_scheme \<times> hart \<Rightarrow> ('z kernel_scheme \<times> hart) result" where
  "clockintr = (\<lambda>(s, h).
     bindr (if cpuid s = 0
            then bindr (acquire_k TicksLock s) (\<lambda>s.
                 bindr (wakeup (Some ChanTicks) (s\<lparr>ticks := (ticks s + 1) mod 2 ^ 32\<rparr>)) (\<lambda>s.
                 release_k TicksLock s))
            else Ok s) (\<lambda>s.
     Ok (s, w_stimecmp (r_time h + 1000000) h)))"

definition devintr ::
  "'z kfile_scheme kparam \<Rightarrow> 'z kfile_scheme tparam \<Rightarrow> 'z kfile_scheme \<times> hart
     \<Rightarrow> (int \<times> 'z kfile_scheme \<times> hart) result" where
  "devintr P T = (\<lambda>(s, h).
     let cause = r_scause h
     in if cause = 0x8000000000000009
        then let (irq, s) = plic_claim T s
             in bindr (if irq = 10 then uartintr P s
                       else if irq = 1 then t_disk_intr T s
                       else if irq \<noteq> 0 then Ok (kprintf ''unexpected interrupt irq=%d\<newline>'' [KInt irq] s)
                       else Ok s) (\<lambda>s.
                Ok (1, if irq \<noteq> 0 then plic_complete T irq s else s, h))
        else if cause = 0x8000000000000005
        then bindr (clockintr (s, h)) (\<lambda>(s, h). Ok (2, s, h))
        else Ok (0, s, h))"

definition prepare_return ::
  "'z kfile_scheme kparam \<Rightarrow> 'z kfile_scheme tparam \<Rightarrow> 'z kfile_scheme \<times> hart \<Rightarrow> ('z kfile_scheme \<times> hart) result" where
  "prepare_return P T = (\<lambda>(s, h).
     bindr (myproc_deref s) (\<lambda>(p, s).
     let s = intr_off (hartid s) s;
         h = csr_intr_off h;
         h = w_stvec (of_nat (add64 TRAMPOLINE (sub64 (t_uservec T) (k_trampoline P)))) h;
         tf = p_trapframe (procs s p)
     in bindr (wr64 tf (unat (r_satp h)) s) (\<lambda>s.
        bindr (wr64 (tf + 8) (add64 (p_kstack (procs s p)) PGSIZE) s) (\<lambda>s.
        bindr (wr64 (tf + 16) (t_usertrap T) s) (\<lambda>s.
        bindr (wr64 (tf + 32) (unat (r_tp h)) s) (\<lambda>s.
        let x = r_sstatus h;
            x = x AND NOT SSTATUS_SPP;
            x = x OR SSTATUS_SPIE;
            h = w_sstatus x h
        in bindr (rd64 (tf + 24) s) (\<lambda>epc. Ok (s, w_sepc (of_nat epc) h))))))))"

text \<open>The decision of \<open>usertrap\<close> by the cause of the trap: \<open>which_dev\<close>.\<close>

definition usertrap_cause ::
  "'z kfile_scheme kparam \<Rightarrow> 'z kfile_scheme kenv \<Rightarrow> 'z kfile_scheme tparam \<Rightarrow> nat \<Rightarrow> 'z kfile_scheme \<times> hart
     \<Rightarrow> (int \<times> 'z kfile_scheme \<times> hart) result" where
  "usertrap_cause P E T p = (\<lambda>(s, h).
     if r_scause h = 8
     then bindr (killed p s) (\<lambda>(k, s).
          bindr (if k \<noteq> 0 then kexit P (- 1) s else Ok s) (\<lambda>s.
          bindr (rd64 (p_trapframe (procs s p) + 24) s) (\<lambda>epc.
          bindr (wr64 (p_trapframe (procs s p) + 24) (add64 epc 4) s) (\<lambda>s.
          bindr (syscall P E (intr_on (hartid s) s)) (\<lambda>s. Ok (0, s, csr_intr_on h))))))
     else bindr (devintr P T (s, h)) (\<lambda>(which_dev, s, h).
          if which_dev \<noteq> 0 then Ok (which_dev, s, h)
          else bindr (if r_scause h = 15 \<or> r_scause h = 13
                      then vmfault (hartid s) (k_end P) (p_pagetable (procs s p)) (unat (r_stval h)) (r_scause h = 13) s
                      else Ok (0, s)) (\<lambda>(pa, s).
               if pa \<noteq> 0 then Ok (0, s, h)
               else let s = kprintf ''usertrap(): unexpected scause 0x%lx pid=%d\<newline>''
                              [KInt (uint (r_scause h)), KInt (p_pid (procs s p))] s;
                        s = kprintf ''            sepc=0x%lx stval=0x%lx\<newline>''
                              [KInt (uint (r_sepc h)), KInt (uint (r_stval h))] s
                    in bindr (setkilled p s) (\<lambda>s. Ok (0, s, h)))))"

definition usertrap ::
  "'z kfile_scheme kparam \<Rightarrow> 'z kfile_scheme kenv \<Rightarrow> 'z kfile_scheme tparam \<Rightarrow> 'z kfile_scheme \<times> hart
     \<Rightarrow> (64 word \<times> 'z kfile_scheme \<times> hart) result" where
  "usertrap P E T = (\<lambda>(s, h).
     if r_sstatus h AND SSTATUS_SPP \<noteq> 0 then Err (Panic ''usertrap: not from user mode'')
     else let h = w_stvec (of_nat (t_kernelvec T)) h
          in bindr (myproc_deref s) (\<lambda>(p, s).
             bindr (wr64 (p_trapframe (procs s p) + 24) (unat (r_sepc h)) s) (\<lambda>s.
             bindr (usertrap_cause P E T p (s, h)) (\<lambda>(which_dev, s, h).
             bindr (killed p s) (\<lambda>(k, s).
             bindr (if k \<noteq> 0 then kexit P (- 1) s else Ok s) (\<lambda>s.
             bindr (if which_dev = 2 then yield P s else Ok s) (\<lambda>s.
             bindr (prepare_return P T (s, h)) (\<lambda>(s, h).
             Ok (MAKE_SATP (p_pagetable (procs s p)), s, h))))))))) "

definition kerneltrap ::
  "'z kfile_scheme kparam \<Rightarrow> 'z kfile_scheme tparam \<Rightarrow> 'z kfile_scheme \<times> hart \<Rightarrow> ('z kfile_scheme \<times> hart) result" where
  "kerneltrap P T = (\<lambda>(s, h).
     let epc = r_sepc h; status = r_sstatus h; cause = r_scause h
     in if status AND SSTATUS_SPP = 0 then Err (Panic ''kerneltrap: not from supervisor mode'')
        else if csr_intr_get h then Err (Panic ''kerneltrap: interrupts enabled'')
        else bindr (devintr P T (s, h)) (\<lambda>(which_dev, s, h).
             if which_dev = 0 then Err (Panic ''kerneltrap'')
             else bindr (if which_dev = 2
                         then bindr (myproc s) (\<lambda>(p, s). if p \<noteq> None then yield P s else Ok s)
                         else Ok s) (\<lambda>s.
                  let h = w_sepc epc h
                  in Ok (s, w_sstatus status h))))"

end
