(* ===== verification/Grep.thy ===== *)
theory Grep
  imports Prelude
begin

text \<open>
  The pattern matcher of \<^verbatim>\<open>user/grep.c\<close> and its loop over the lines of the input. A C string is the
  list of its bytes before the NUL byte, so the end of a string is the empty list.
\<close>

type_synonym cstring = "8 word list"

abbreviation (input) ch_star :: "8 word" where "ch_star \<equiv> 42"
abbreviation (input) ch_dot :: "8 word" where "ch_dot \<equiv> 46"
abbreviation (input) ch_dollar :: "8 word" where "ch_dollar \<equiv> 36"
abbreviation (input) ch_caret :: "8 word" where "ch_caret \<equiv> 94"
abbreviation (input) ch_nl :: "8 word" where "ch_nl \<equiv> 10"

section \<open>The matcher\<close>

function matchhere :: "cstring \<Rightarrow> cstring \<Rightarrow> bool"
  and matchstar :: "8 word \<Rightarrow> cstring \<Rightarrow> cstring \<Rightarrow> bool" where
  "matchhere re str =
     (case re of
        [] \<Rightarrow> True
      | c # re1 \<Rightarrow>
          if re1 \<noteq> [] \<and> hd re1 = ch_star then matchstar c (tl re1) str
          else if c = ch_dollar \<and> re1 = [] then str = []
          else if str \<noteq> [] \<and> (c = ch_dot \<or> c = hd str) then matchhere re1 (tl str)
          else False)"
| "matchstar c re str =
     (if matchhere re str then True
      else if str \<noteq> [] \<and> (hd str = c \<or> c = ch_dot) then matchstar c re (tl str)
      else False)"
  by pat_completeness auto

termination
  by (relation "measure (\<lambda>x. case x of Inl (re, str) \<Rightarrow> 2 * (length re + length str)
        | Inr (c, re, str) \<Rightarrow> 2 * (length re + length str) + 1)")
     (auto simp: neq_Nil_conv)

declare matchhere.simps [simp del] matchstar.simps [simp del]

text \<open>The loop of \<open>match\<close>, which looks at the empty string too.\<close>

fun match_at :: "cstring \<Rightarrow> cstring \<Rightarrow> bool" where
  "match_at re [] = matchhere re []"
| "match_at re (t # str) = (if matchhere re (t # str) then True else match_at re str)"

definition match :: "cstring \<Rightarrow> cstring \<Rightarrow> bool" where
  "match re str = (if re \<noteq> [] \<and> hd re = ch_caret then matchhere (tl re) str else match_at re str)"

section \<open>The loop over the input\<close>

text \<open>The inner loop of \<open>grep\<close> on the bytes from \<open>p\<close> to the end of the buffer: the lines written
  and what is left from \<open>p\<close> on. \<open>strchr\<close> finds no newline behind a NUL byte.\<close>

function grep_lines :: "cstring \<Rightarrow> cstring \<Rightarrow> cstring list \<times> cstring" where
  "grep_lines pattern p =
     (let line = takeWhile (\<lambda>b. b \<noteq> ch_nl \<and> b \<noteq> 0) p; rest = dropWhile (\<lambda>b. b \<noteq> ch_nl \<and> b \<noteq> 0) p
      in if rest \<noteq> [] \<and> hd rest = ch_nl
         then let (out, left) = grep_lines pattern (tl rest)
              in (if match pattern line then (line @ [ch_nl]) # out else out, left)
         else ([], p))"
  by pat_completeness auto

termination
proof (relation "measure (\<lambda>(_, p). length p)", goal_cases)
  case (2 pattern p line rest)
  have "length (tl rest) < length rest" using 2(3) by (cases rest) auto
  also have "\<dots> \<le> length p" unfolding 2(2) by (rule length_dropWhile_le)
  finally show ?case by simp
qed simp

text \<open>\<open>rd n s\<close> is the system call \<open>read\<close> for at most \<open>n\<close> bytes: the bytes it delivers, none at the
  end of the input or on an error. The buffer holds 1024 bytes, the last one for the NUL byte.\<close>

partial_function (option) grep_loop ::
  "(nat \<Rightarrow> 's \<Rightarrow> cstring \<times> 's) \<Rightarrow> cstring \<Rightarrow> cstring \<Rightarrow> cstring list \<Rightarrow> 's \<Rightarrow> cstring list option" where
  "grep_loop rd pattern buf out s =
     (let (got, s) = rd (1024 - length buf - 1) s
      in if got = [] then Some out
         else let (o1, left) = grep_lines pattern (buf @ got)
              in grep_loop rd pattern left (out @ o1) s)"

definition grep :: "(nat \<Rightarrow> 's \<Rightarrow> cstring \<times> 's) \<Rightarrow> cstring \<Rightarrow> 's \<Rightarrow> cstring list option" where
  "grep rd pattern s = grep_loop rd pattern [] [] s"

section \<open>Patterns as languages\<close>

text \<open>A pattern is a sequence of items and an anchor at its end.\<close>

datatype item = One "8 word" | Many "8 word"

fun parse :: "cstring \<Rightarrow> item list \<times> bool" where
  "parse [] = ([], False)"
| "parse [c] = (if c = ch_dollar then ([], True) else ([One c], False))"
| "parse (c # d # re) =
     (if d = ch_star then (let (is, e) = parse re in (Many c # is, e))
      else (let (is, e) = parse (d # re) in (One c # is, e)))"

definition fits :: "8 word \<Rightarrow> 8 word \<Rightarrow> bool" where
  "fits c b = (c = ch_dot \<or> c = b)"

text \<open>The strings a sequence of items describes.\<close>

inductive describes :: "item list \<Rightarrow> cstring \<Rightarrow> bool" where
  nil: "describes [] []"
| one: "fits c b \<Longrightarrow> describes is w \<Longrightarrow> describes (One c # is) (b # w)"
| many0: "describes is w \<Longrightarrow> describes (Many c # is) w"
| many1: "fits c b \<Longrightarrow> describes (Many c # is) w \<Longrightarrow> describes (Many c # is) (b # w)"

inductive_simps describes_Nil [simp]: "describes [] w"
inductive_cases describes_One: "describes (One c # is) w"
inductive_cases describes_Many: "describes (Many c # is) w"

text \<open>The str starts with a string of the pattern, and ends with it if the pattern is anchored.\<close>

definition begins :: "item list \<Rightarrow> bool \<Rightarrow> cstring \<Rightarrow> bool" where
  "begins is e str = (\<exists>w v. str = w @ v \<and> describes is w \<and> (e \<longrightarrow> v = []))"

lemma begins_Nil: "begins [] e str = (e \<longrightarrow> str = [])"
  by (auto simp: begins_def)

lemma begins_One: "begins (One c # is) e str = (str \<noteq> [] \<and> fits c (hd str) \<and> begins is e (tl str))"
proof
  assume "begins (One c # is) e str"
  then obtain w v where w: "str = w @ v" "describes (One c # is) w" "e \<longrightarrow> v = []" unfolding begins_def by blast
  from w(2) obtain b w' where "w = b # w'" "fits c b" "describes is w'" by (rule describes_One)
  then show "str \<noteq> [] \<and> fits c (hd str) \<and> begins is e (tl str)"
    using w(1,3) unfolding begins_def by auto
next
  assume a: "str \<noteq> [] \<and> fits c (hd str) \<and> begins is e (tl str)"
  then obtain b t where str: "str = b # t" by (cases str) auto
  from a obtain w v where "t = w @ v" "describes is w" "e \<longrightarrow> v = []" unfolding str by (auto simp: begins_def)
  then show "begins (One c # is) e str"
    using a describes.one [of c b "is" w] unfolding begins_def str
    by (intro exI [of _ "b # w"] exI [of _ v]) simp
qed

lemma begins_Many:
  "begins (Many c # is) e str = (begins is e str \<or> str \<noteq> [] \<and> fits c (hd str) \<and> begins (Many c # is) e (tl str))"
proof
  assume "begins (Many c # is) e str"
  then obtain w v where w: "str = w @ v" "describes (Many c # is) w" "e \<longrightarrow> v = []" unfolding begins_def by blast
  show "begins is e str \<or> str \<noteq> [] \<and> fits c (hd str) \<and> begins (Many c # is) e (tl str)"
  proof (rule describes_Many [OF w(2)])
    assume "describes is w"
    then show ?thesis using w(1,3) unfolding begins_def by blast
  next
    fix b w'
    assume "w = b # w'" "fits c b" "describes (Many c # is) w'"
    then show ?thesis using w(1,3) unfolding begins_def by auto
  qed
next
  assume "begins is e str \<or> str \<noteq> [] \<and> fits c (hd str) \<and> begins (Many c # is) e (tl str)"
  then show "begins (Many c # is) e str"
  proof
    assume "begins is e str"
    then show ?thesis unfolding begins_def using describes.many0 by blast
  next
    assume a: "str \<noteq> [] \<and> fits c (hd str) \<and> begins (Many c # is) e (tl str)"
    then obtain b t where str: "str = b # t" by (cases str) auto
    from a obtain w v where "t = w @ v" "describes (Many c # is) w" "e \<longrightarrow> v = []" unfolding str by (auto simp: begins_def)
    then show ?thesis
      using a describes.many1 [of c b "is" w] unfolding begins_def str
      by (intro exI [of _ "b # w"] exI [of _ v]) simp
  qed
qed

lemma matchhere_begins:
  "matchhere re str = begins (fst (parse re)) (snd (parse re)) str"
  "matchstar c re str = begins (Many c # fst (parse re)) (snd (parse re)) str"
proof (induction re str and c re str rule: matchhere_matchstar.induct)
  case (1 re str)
  show ?case
  proof (cases re rule: parse.cases)
    case 1
    then show ?thesis by (simp add: matchhere.simps begins_Nil)
  next
    case (2 c)
    show ?thesis
    proof (cases "c = ch_dollar")
      case True
      then show ?thesis by (simp add: 2 matchhere.simps begins_Nil)
    next
      case False
      have "matchhere [] (tl str) = begins [] False (tl str)" by (simp add: matchhere.simps begins_Nil)
      then show ?thesis using False by (simp add: 2 matchhere.simps begins_One fits_def begins_Nil)
    qed
  next
    case (3 c d re')
    show ?thesis
    proof (cases "d = ch_star")
      case True
      have "matchstar c re' str = begins (Many c # fst (parse re')) (snd (parse re')) str"
        using 1(1) [of c "d # re'"] True 3 by simp
      then show ?thesis using True by (simp add: 3 matchhere.simps split: prod.split)
    next
      case False
      have IH: "matchhere (d # re') (tl str) = begins (fst (parse (d # re'))) (snd (parse (d # re'))) (tl str)"
        if "str \<noteq> []" "fits c (hd str)"
        using 1(2) [of c "d # re'"] that False 3 by (simp add: fits_def)
      have "matchhere re str = (str \<noteq> [] \<and> fits c (hd str) \<and> matchhere (d # re') (tl str))"
        using False by (simp add: 3 matchhere.simps [of "c # d # re'"] fits_def)
      also have "\<dots> = begins (One c # fst (parse (d # re'))) (snd (parse (d # re'))) str"
        using IH by (auto simp: begins_One)
      finally show ?thesis using False by (simp add: 3 split: prod.split)
    qed
  qed
next
  case (2 c re str)
  show ?case
  proof (cases "matchhere re str")
    case True
    then show ?thesis using 2(1) by (subst matchstar.simps, subst begins_Many) simp
  next
    case False
    then show ?thesis using 2 by (subst matchstar.simps, subst begins_Many) (auto simp: fits_def)
  qed
qed

lemma match_at_suffix: "match_at re str = (\<exists>u v. str = u @ v \<and> matchhere re v)"
proof (induction str)
  case Nil
  then show ?case by simp
next
  case (Cons t str)
  then show ?case by (auto simp: Cons_eq_append_conv)
qed

text \<open>C27. \<open>match\<close> decides the patterns of \<^verbatim>\<open>grep\<close>: a str matches when some part of it, its beginning
  if the pattern starts with \<^verbatim>\<open>^\<close> and its end if it ends with \<^verbatim>\<open>$\<close>, is a string the items of the
  pattern describe, where \<^verbatim>\<open>.\<close> stands for any byte and \<^verbatim>\<open>*\<close> repeats the byte before it.\<close>

theorem match_decides:
  "match re str =
     (if re \<noteq> [] \<and> hd re = ch_caret
      then begins (fst (parse (tl re))) (snd (parse (tl re))) str
      else (\<exists>u v. str = u @ v \<and> begins (fst (parse re)) (snd (parse re)) v))"
  by (simp add: match_def match_at_suffix matchhere_begins)

declare grep_lines.simps [simp del]

lemma grep_lines_plain:
  assumes "\<forall>l\<in>set ls. ch_nl \<notin> set l \<and> 0 \<notin> set l" and "ch_nl \<notin> set left"
  shows "grep_lines pattern (concat (map (\<lambda>l. l @ [ch_nl]) ls) @ left)
    = (map (\<lambda>l. l @ [ch_nl]) (filter (match pattern) ls), left)"
  using assms(1)
proof (induction ls)
  case Nil
  have "hd (dropWhile (\<lambda>b. b \<noteq> ch_nl \<and> b \<noteq> 0) left) \<noteq> ch_nl"
    if "dropWhile (\<lambda>b. b \<noteq> ch_nl \<and> b \<noteq> 0) left \<noteq> []"
    using set_dropWhileD [OF hd_in_set [OF that]] assms(2) by auto
  then have "\<not> (dropWhile (\<lambda>b. b \<noteq> ch_nl \<and> b \<noteq> 0) left \<noteq> [] \<and> hd (dropWhile (\<lambda>b. b \<noteq> ch_nl \<and> b \<noteq> 0) left) = ch_nl)"
    by blast
  then have "grep_lines pattern left = ([], left)" unfolding grep_lines.simps [of pattern left] Let_def by (rule if_not_P)
  then show ?case by simp
next
  case (Cons l ls)
  let ?r = "concat (map (\<lambda>l. l @ [ch_nl]) ls) @ left"
  have "\<forall>b\<in>set l. b \<noteq> ch_nl \<and> b \<noteq> 0" using Cons.prems by auto
  then have "takeWhile (\<lambda>b. b \<noteq> ch_nl \<and> b \<noteq> 0) (l @ ch_nl # ?r) = l"
    "dropWhile (\<lambda>b. b \<noteq> ch_nl \<and> b \<noteq> 0) (l @ ch_nl # ?r) = ch_nl # ?r"
    by (simp_all add: takeWhile_append2 dropWhile_append2)
  then show ?case using Cons by (subst grep_lines.simps) simp
qed

text \<open>C28. On a buffer without NUL bytes \<^verbatim>\<open>grep\<close> writes exactly the complete lines that match, in
  their order and with their newlines, and keeps the bytes behind the last newline for the next
  read; with one \<open>read\<close> that delivers the whole input, those are the lines the program prints.\<close>

theorem grep_prints:
  assumes "\<forall>l\<in>set ls. ch_nl \<notin> set l \<and> 0 \<notin> set l" and "ch_nl \<notin> set left"
    and "input = concat (map (\<lambda>l. l @ [ch_nl]) ls) @ left" and "length input < 1024"
    and "rd 1023 s = (input, s')" and "\<And>n. rd n s' = ([], s')"
  shows "grep_lines pattern input = (map (\<lambda>l. l @ [ch_nl]) (filter (match pattern) ls), left)
    \<and> grep rd pattern s = Some (map (\<lambda>l. l @ [ch_nl]) (filter (match pattern) ls))"
proof -
  have l: "grep_lines pattern input = (map (\<lambda>l. l @ [ch_nl]) (filter (match pattern) ls), left)"
    unfolding assms(3) by (rule grep_lines_plain [OF assms(1,2)])
  have again: "grep_loop rd pattern left out s' = Some out" for left out
    using assms(6) by (subst grep_loop.simps) simp
  have "grep rd pattern s = Some (map (\<lambda>l. l @ [ch_nl]) (filter (match pattern) ls))"
  proof (cases "input = []")
    case True
    then have "ls = []" using assms(3) by (cases ls) auto
    then show ?thesis using True assms(5) unfolding grep_def by (subst grep_loop.simps) simp
  next
    case False
    then show ?thesis using l assms(5) again unfolding grep_def by (subst grep_loop.simps) simp
  qed
  with l show ?thesis by blast
qed

text \<open>The witness reads the lines \<open>ab\<close> and \<open>b\<close> with the pattern \<open>^a\<close>.\<close>

definition demo_read :: "nat \<Rightarrow> bool \<Rightarrow> cstring \<times> bool" where
  "demo_read n s = (if s then ([97, 98, 10, 98, 10], False) else ([], False))"

theorem grep_prints_witness:
  "grep_lines [94, 97] [97, 98, 10, 98, 10] = ([[97, 98, 10]], [])
   \<and> grep demo_read [94, 97] True = Some [[97, 98, 10]]"
  using grep_prints [of "[[97, 98], [98]]" "[]" "[97, 98, 10, 98, 10]" demo_read True False "[94, 97]"]
  by (simp add: demo_read_def match_def matchhere.simps)

end
