(* ===== verification/Printf.thy ===== *)
theory Printf
  imports Prelude
begin

text \<open>
  Formatted output, of user programs (\<^verbatim>\<open>user/printf.c\<close>) and of the kernel (\<^verbatim>\<open>kernel/printf.c\<close>). Both
  are functions from the format, a list of bytes, and the variadic arguments to the bytes that go
  to \<open>putc\<close> or \<open>consputc\<close>. An argument is a 64-bit slot or a string; taking one that is missing
  or of the other kind is undefined in C and a fault here.
\<close>

datatype va = VInt "64 word" | VStr "8 word list option"

definition va_int :: "va list \<Rightarrow> (64 word \<times> va list) result" where
  "va_int ap = (case ap of VInt w # ap \<Rightarrow> Ok (w, ap) | _ \<Rightarrow> Err (OutOfBounds ''va_arg''))"

definition va_str :: "va list \<Rightarrow> (8 word list option \<times> va list) result" where
  "va_str ap = (case ap of VStr x # ap \<Rightarrow> Ok (x, ap) | _ \<Rightarrow> Err (OutOfBounds ''va_arg''))"

text \<open>The conversions of \<open>va_arg(ap, int)\<close>, \<open>va_arg(ap, uint32)\<close> and \<open>(long long) va_arg(ap, uint64)\<close>.\<close>

definition as_int :: "64 word \<Rightarrow> int" where "as_int w = sint (ucast w :: 32 word)"
definition as_uint :: "64 word \<Rightarrow> int" where "as_uint w = uint (ucast w :: 32 word)"
definition as_long :: "64 word \<Rightarrow> int" where "as_long w = sint w"

definition bytes_of :: "string \<Rightarrow> 8 word list" where "bytes_of = map of_char"

section \<open>Integers\<close>

text \<open>The loop that fills \<open>char buf[20]\<close>, and the reversal.\<close>

function print_buf :: "8 word list \<Rightarrow> nat \<Rightarrow> nat \<Rightarrow> 8 word list \<Rightarrow> (8 word list) result" where
  "print_buf digits base x buf =
     (if length buf \<ge> 20 then Err (OutOfBounds ''buf'')
      else let buf = buf @ [digits ! (x mod base)]; x = x div base
           in if x \<noteq> 0 then print_buf digits base x buf else Ok buf)"
  by pat_completeness auto

termination by (relation "measure (\<lambda>(_, _, _, buf). 20 - length buf)") auto

declare print_buf.simps [simp del]

definition u_digits :: "8 word list" where "u_digits = bytes_of ''0123456789ABCDEF''"
definition k_digits :: "8 word list" where "k_digits = bytes_of ''0123456789abcdef''"

text \<open>\<open>x = -xx\<close>, a signed negation, which overflows for the least \<open>long long\<close>.\<close>

definition neg_long :: "int \<Rightarrow> nat result" where
  "neg_long xx = (if xx = - (2 ^ 63) then Err Overflow else Ok (nat (- xx)))"

definition u_printint :: "8 word list \<Rightarrow> int \<Rightarrow> nat \<Rightarrow> bool \<Rightarrow> (8 word list) result" where
  "u_printint digits xx base sign =
     bindr (if sign \<and> xx < 0 then bindr (neg_long xx) (\<lambda>x. Ok (True, x)) else Ok (False, nat (xx mod 2 ^ 64))) (\<lambda>(neg, x).
     bindr (print_buf digits base x []) (\<lambda>buf.
     if neg then if length buf \<ge> 20 then Err (OutOfBounds ''buf'') else Ok (rev (buf @ [45]))
     else Ok (rev buf)))"

definition k_printint :: "8 word list \<Rightarrow> int \<Rightarrow> nat \<Rightarrow> bool \<Rightarrow> (8 word list) result" where
  "k_printint digits xx base sign =
     (let sign = (sign \<and> xx < 0)
      in bindr (if sign then neg_long xx else Ok (nat (xx mod 2 ^ 64))) (\<lambda>x.
         bindr (print_buf digits base x []) (\<lambda>buf.
         if sign then if length buf \<ge> 20 then Err (OutOfBounds ''buf'') else Ok (rev (buf @ [45]))
         else Ok (rev buf))))"

text \<open>The loop of \<open>printptr\<close>, with \<open>n\<close> turns left.\<close>

primrec printptr_loop :: "8 word list \<Rightarrow> nat \<Rightarrow> 64 word \<Rightarrow> 8 word list" where
  "printptr_loop digits 0 x = []"
| "printptr_loop digits (Suc n) x = digits ! unat (drop_bit 60 x) # printptr_loop digits n (push_bit 4 x)"

definition printptr :: "8 word list \<Rightarrow> 64 word \<Rightarrow> 8 word list" where
  "printptr digits x = [48, 120] @ printptr_loop digits 16 x"

section \<open>Formats\<close>

definition fmt_at :: "8 word list \<Rightarrow> nat \<Rightarrow> 8 word" where
  "fmt_at fmt i = (if i < length fmt then fmt ! i else 0)"

abbreviation (input) c_d :: "8 word" where "c_d \<equiv> 100"
abbreviation (input) c_l :: "8 word" where "c_l \<equiv> 108"
abbreviation (input) c_u :: "8 word" where "c_u \<equiv> 117"
abbreviation (input) c_x :: "8 word" where "c_x \<equiv> 120"
abbreviation (input) c_p :: "8 word" where "c_p \<equiv> 112"
abbreviation (input) c_c :: "8 word" where "c_c \<equiv> 99"
abbreviation (input) c_s :: "8 word" where "c_s \<equiv> 115"
abbreviation (input) c_pct :: "8 word" where "c_pct \<equiv> 37"

text \<open>The chain of conditions of \<open>vprintf\<close> behind a \<open>%\<close>: the bytes written, how many further
  bytes of the format it consumes, and the arguments left.\<close>

definition u_directive ::
  "8 word list \<Rightarrow> 8 word \<Rightarrow> 8 word \<Rightarrow> 8 word \<Rightarrow> va list \<Rightarrow> (8 word list \<times> nat \<times> va list) result" where
  "u_directive digits c0 c1 c2 ap =
     (let num = (\<lambda>conv base sign skip. bindr (va_int ap) (\<lambda>(w, ap).
                  bindr (u_printint digits (conv w) base sign) (\<lambda>out. Ok (out, skip, ap))))
      in if c0 = c_d then num as_int 10 True 0
         else if c0 = c_l \<and> c1 = c_d then num as_long 10 True 1
         else if c0 = c_l \<and> c1 = c_l \<and> c2 = c_d then num as_long 10 True 2
         else if c0 = c_u then num as_uint 10 False 0
         else if c0 = c_l \<and> c1 = c_u then num as_long 10 False 1
         else if c0 = c_l \<and> c1 = c_l \<and> c2 = c_u then num as_long 10 False 2
         else if c0 = c_x then num as_uint 16 False 0
         else if c0 = c_l \<and> c1 = c_x then num as_long 16 False 1
         else if c0 = c_l \<and> c1 = c_l \<and> c2 = c_x then num as_long 16 False 2
         else if c0 = c_p then bindr (va_int ap) (\<lambda>(w, ap). Ok (printptr digits w, 0, ap))
         else if c0 = c_c then bindr (va_int ap) (\<lambda>(w, ap). Ok ([ucast w], 0, ap))
         else if c0 = c_s then bindr (va_str ap) (\<lambda>(x, ap).
                Ok (case x of None \<Rightarrow> bytes_of ''(null)'' | Some x \<Rightarrow> takeWhile (\<lambda>b. b \<noteq> 0) x, 0, ap))
         else if c0 = c_pct then Ok ([c_pct], 0, ap)
         else Ok ([c_pct, c0], 0, ap))"

text \<open>The loop of \<open>vprintf\<close>; \<open>state\<close> tells whether the last byte was a \<open>%\<close>.\<close>

function vprintf_loop :: "8 word list \<Rightarrow> 8 word list \<Rightarrow> nat \<Rightarrow> bool \<Rightarrow> va list \<Rightarrow> (8 word list) result" where
  "vprintf_loop digits fmt i state ap =
     (let c0 = fmt_at fmt i
      in if c0 = 0 then Ok []
         else if \<not> state
         then if c0 = c_pct then vprintf_loop digits fmt (i + 1) True ap
              else bindr (vprintf_loop digits fmt (i + 1) False ap) (\<lambda>out. Ok (c0 # out))
         else let c1 = fmt_at fmt (i + 1);
                  c2 = (if c1 \<noteq> 0 then fmt_at fmt (i + 2) else 0)
              in bindr (u_directive digits c0 c1 c2 ap) (\<lambda>(out, skip, ap).
                 bindr (vprintf_loop digits fmt (i + skip + 1) False ap) (\<lambda>out'. Ok (out @ out'))))"
  by pat_completeness auto

termination
  by (relation "measure (\<lambda>(_, fmt, i, _, _). length fmt - i)") (auto simp: fmt_at_def split: if_splits)

definition vprintf :: "8 word list \<Rightarrow> va list \<Rightarrow> (8 word list) result" where
  "vprintf fmt ap = vprintf_loop u_digits fmt 0 False ap"

text \<open>The bytes \<open>consputc(c)\<close> sends.\<close>

definition cons_bytes :: "int \<Rightarrow> 8 word list" where
  "cons_bytes c = (if c = 0x100 then [8, 32, 8] else [of_int c])"

definition k_directive ::
  "8 word list \<Rightarrow> 8 word \<Rightarrow> 8 word \<Rightarrow> 8 word \<Rightarrow> va list \<Rightarrow> (8 word list \<times> nat \<times> va list) result" where
  "k_directive digits c0 c1 c2 ap =
     (let num = (\<lambda>conv base sign skip. bindr (va_int ap) (\<lambda>(w, ap).
                  bindr (k_printint digits (conv w) base sign) (\<lambda>out. Ok (out, skip, ap))))
      in if c0 = c_d then num as_int 10 True 0
         else if c0 = c_l \<and> c1 = c_d then num as_long 10 True 1
         else if c0 = c_l \<and> c1 = c_l \<and> c2 = c_d then num as_long 10 True 2
         else if c0 = c_u then num as_uint 10 False 0
         else if c0 = c_l \<and> c1 = c_u then num as_long 10 False 1
         else if c0 = c_l \<and> c1 = c_l \<and> c2 = c_u then num as_long 10 False 2
         else if c0 = c_x then num as_uint 16 False 0
         else if c0 = c_l \<and> c1 = c_x then num as_long 16 False 1
         else if c0 = c_l \<and> c1 = c_l \<and> c2 = c_x then num as_long 16 False 2
         else if c0 = c_p then bindr (va_int ap) (\<lambda>(w, ap). Ok (printptr digits w, 0, ap))
         else if c0 = c_c then bindr (va_int ap) (\<lambda>(w, ap). Ok (cons_bytes (as_uint w), 0, ap))
         else if c0 = c_s then bindr (va_str ap) (\<lambda>(x, ap).
                Ok (case x of None \<Rightarrow> bytes_of ''(null)'' | Some x \<Rightarrow> takeWhile (\<lambda>b. b \<noteq> 0) x, 0, ap))
         else if c0 = c_pct then Ok ([c_pct], 0, ap)
         else Ok ([c_pct, c0], 0, ap))"

text \<open>The loop of the kernel's \<open>printf\<close>. It stops at a \<open>%\<close> that ends the format.\<close>

function printf_loop :: "8 word list \<Rightarrow> 8 word list \<Rightarrow> nat \<Rightarrow> va list \<Rightarrow> (8 word list) result" where
  "printf_loop digits fmt i ap =
     (let cx = fmt_at fmt i
      in if cx = 0 then Ok []
         else if cx \<noteq> c_pct then bindr (printf_loop digits fmt (i + 1) ap) (\<lambda>out. Ok (cons_bytes (uint cx) @ out))
         else let c0 = fmt_at fmt (i + 1);
                  c1 = (if c0 \<noteq> 0 then fmt_at fmt (i + 2) else 0);
                  c2 = (if c1 \<noteq> 0 then fmt_at fmt (i + 3) else 0)
              in if c0 = 0 then Ok []
                 else bindr (k_directive digits c0 c1 c2 ap) (\<lambda>(out, skip, ap).
                      bindr (printf_loop digits fmt (i + skip + 2) ap) (\<lambda>out'. Ok (out @ out'))))"
  by pat_completeness auto

termination
  by (relation "measure (\<lambda>(_, fmt, i, _). length fmt - i)") (auto simp: fmt_at_def split: if_splits)

definition printf :: "8 word list \<Rightarrow> va list \<Rightarrow> (8 word list) result" where
  "printf fmt ap = printf_loop k_digits fmt 0 ap"

declare vprintf_loop.simps [simp del] printf_loop.simps [simp del]

section \<open>Printed numbers\<close>

text \<open>The number a list of digits stands for, least significant digit first.\<close>

fun value_of :: "nat \<Rightarrow> nat list \<Rightarrow> nat" where
  "value_of base [] = 0"
| "value_of base (d # ds) = d + base * value_of base ds"

lemma print_buf_digits:
  assumes "2 \<le> base" and "x < base ^ (20 - length buf)" and "length buf < 20"
  shows "\<exists>ds. print_buf digits base x buf = Ok (buf @ map ((!) digits) ds) \<and> value_of base ds = x
    \<and> (\<forall>d\<in>set ds. d < base) \<and> length buf + length ds \<le> 20 \<and> ds \<noteq> []
    \<and> (\<forall>k. x < base ^ k \<and> 0 < k \<longrightarrow> length ds \<le> k)"
  using assms(2,3)
proof (induction "20 - length buf" arbitrary: x buf)
  case 0
  then show ?case by simp
next
  case (Suc n)
  let ?b = "buf @ [digits ! (x mod base)]"
  show ?case
  proof (cases "x div base = 0")
    case True
    then have "x < base" using assms(1) by (simp add: div_eq_0_iff)
    then show ?thesis
      using True Suc.prems by (subst print_buf.simps) (auto simp: Let_def intro!: exI [of _ "[x]"])
  next
    case False
    have n: "n = 20 - length ?b" using Suc.hyps(2) by simp
    have n0: "0 < n"
    proof (rule ccontr)
      assume "\<not> 0 < n"
      then have "20 - length buf = 1" using Suc.hyps(2) by linarith
      then have "x < base" using Suc.prems(1) by (metis power_one_right)
      then show False using False by simp
    qed
    have "x < base ^ n * base" using Suc.prems(1) Suc.hyps(2) by (metis power_Suc2)
    then have lt: "x div base < base ^ (20 - length ?b)" unfolding n [symmetric] by (rule less_mult_imp_div_less)
    have lb: "length ?b < 20" using n n0 by simp
    from Suc.hyps(1) [OF n lt lb] obtain ds where ds:
      "print_buf digits base (x div base) ?b = Ok (?b @ map ((!) digits) ds)" "value_of base ds = x div base"
      "\<forall>d\<in>set ds. d < base" "length ?b + length ds \<le> 20" "ds \<noteq> []"
      "\<forall>k. x div base < base ^ k \<and> 0 < k \<longrightarrow> length ds \<le> k" by auto
    have "length (x mod base # ds) \<le> k" if "x < base ^ k \<and> 0 < k" for k
    proof (cases k)
      case 0
      then show ?thesis using that by simp
    next
      case (Suc j)
      have "x div base < base ^ j" using that Suc by (intro less_mult_imp_div_less) (simp add: mult.commute)
      moreover have "j \<noteq> 0"
      proof
        assume "j = 0"
        then have "x < base" using that Suc by simp
        then show False using False by simp
      qed
      ultimately show ?thesis using ds(6) Suc by auto
    qed
    moreover have "print_buf digits base x buf = Ok (buf @ map ((!) digits) (x mod base # ds))"
      using ds(1) False Suc.prems(2) by (subst print_buf.simps) (simp add: Let_def)
    ultimately show ?thesis
      using ds assms(1) by (intro exI [of _ "x mod base # ds"]) auto
  qed
qed

lemma printint_same: "k_printint digits xx base sign = u_printint digits xx base sign"
  by (auto simp: k_printint_def u_printint_def Let_def neg_long_def)

lemma printint_digits:
  assumes "base = 10 \<or> base = 16" and "- (2 ^ 63) \<le> xx" and "xx < 2 ^ 63" and "sign \<longrightarrow> xx \<noteq> - (2 ^ 63)"
  shows "\<exists>ds. u_printint digits xx base sign
        = Ok ((if sign \<and> xx < 0 then [45] else []) @ rev (map ((!) digits) ds))
    \<and> int (value_of base ds) = (if sign then \<bar>xx\<bar> else xx mod 2 ^ 64)
    \<and> (\<forall>d\<in>set ds. d < base) \<and> ds \<noteq> [] \<and> length ds \<le> 20"
proof -
  let ?neg = "sign \<and> xx < 0"
  define x where "x = (if ?neg then nat (- xx) else nat (xx mod 2 ^ 64))"
  have x: "int x = (if sign then \<bar>xx\<bar> else xx mod 2 ^ 64)"
    using assms(2,3) by (auto simp: x_def)
  have "x < 2 ^ 64"
    using assms(2) by (auto simp: x_def nat_less_iff)
  then have big: "x < base ^ 20" using assms(1) by auto
  then obtain ds where ds: "print_buf digits base x [] = Ok (map ((!) digits) ds)" "value_of base ds = x"
    "\<forall>d\<in>set ds. d < base" "length ds \<le> 20" "ds \<noteq> []" "\<And>k. x < base ^ k \<Longrightarrow> 0 < k \<Longrightarrow> length ds \<le> k"
    using print_buf_digits [of base x "[]" digits] assms(1) by auto
  have short: "length ds < 20" if ?neg
  proof -
    have "x < base ^ 19" using x that assms(1,2) by auto
    then have "length ds \<le> 19" by (rule ds(6)) simp
    then show ?thesis by simp
  qed
  have start: "(if ?neg then bindr (neg_long xx) (\<lambda>x. Ok (True, x)) else Ok (False, nat (xx mod 2 ^ 64))) = Ok (?neg, x)"
    using assms(4) by (simp add: neg_long_def x_def)
  have "u_printint digits xx base sign = Ok ((if ?neg then [45] else []) @ rev (map ((!) digits) ds))"
    unfolding u_printint_def start bindr_simps prod.case ds(1) using short by auto
  with ds x show ?thesis by (intro exI [of _ ds]) simp
qed

text \<open>C29. \<open>printint\<close> of the user library and of the kernel never overflow their 20-byte buffer and write the same
  bytes: for every \<open>long long\<close>, signed or not, in base 10 or 16, a minus sign for a
  negative signed number and then digits that stand for its absolute value (for its value
  modulo \<open>2^64\<close> when unsigned), most significant first. The one exception is the least \<open>long long\<close> as a signed number,
  whose negation is a signed overflow.\<close>

theorem printint_correct:
  assumes "base = 10 \<or> base = 16" and "- (2 ^ 63) \<le> xx" and "xx < 2 ^ 63"
  shows "k_printint digits xx base sign = u_printint digits xx base sign
    \<and> (if sign \<and> xx = - (2 ^ 63) then u_printint digits xx base sign = Err Overflow
       else \<exists>ds. u_printint digits xx base sign
           = Ok ((if sign \<and> xx < 0 then [45] else []) @ rev (map ((!) digits) ds))
         \<and> int (value_of base ds) = (if sign then \<bar>xx\<bar> else xx mod 2 ^ 64)
         \<and> (\<forall>d\<in>set ds. d < base) \<and> ds \<noteq> [] \<and> length ds \<le> 20)"
proof (cases "sign \<and> xx = - (2 ^ 63)")
  case True
  then have "u_printint digits xx base sign = Err Overflow" by (simp add: u_printint_def neg_long_def)
  then show ?thesis using True by (simp only: printint_same if_True simp_thms)
next
  case False
  then have "sign \<longrightarrow> xx \<noteq> - (2 ^ 63)" by blast
  from printint_digits [OF assms this] show ?thesis unfolding printint_same if_not_P [OF False] by (intro conjI refl)
qed

theorem printint_correct_witness:
  "(\<exists>ds. u_printint u_digits (- 9223372036854775807) 10 True = Ok ([45] @ rev (map ((!) u_digits) ds))
    \<and> int (value_of 10 ds) = 9223372036854775807 \<and> (\<forall>d\<in>set ds. d < 10) \<and> ds \<noteq> [] \<and> length ds \<le> 20)
   \<and> u_printint u_digits (- 9223372036854775808) 10 True = Err Overflow"
  using printint_correct [of 10 "- 9223372036854775807" u_digits True]
    printint_correct [of 10 "- 9223372036854775808" u_digits True] by simp

section \<open>The two printfs agree\<close>

definition no_backspace :: "va list \<Rightarrow> bool" where
  "no_backspace ap = (\<forall>a\<in>set ap. case a of VInt w \<Rightarrow> as_uint w \<noteq> 0x100 | VStr x \<Rightarrow> True)"

lemma of_int_as_uint: "(of_int (as_uint w) :: 8 word) = ucast w"
  unfolding as_uint_def by (rule bit_word_eqI) (simp add: bit_simps flip: unsigned_of_int)

lemma cons_bytes_uint: "cons_bytes (uint (c :: 8 word)) = [c]"
proof -
  have "uint c < 256" using uint_lt2p [of c] by simp
  then show ?thesis by (simp add: cons_bytes_def)
qed

lemma cons_bytes_char: "as_uint w \<noteq> 0x100 \<Longrightarrow> cons_bytes (as_uint w) = [ucast w]"
  by (simp add: cons_bytes_def of_int_as_uint)

lemma directive_same: "no_backspace ap \<Longrightarrow> k_directive digits c0 c1 c2 ap = u_directive digits c0 c1 c2 ap"
  unfolding k_directive_def u_directive_def Let_def printint_same
  by (cases ap) (auto simp: va_int_def no_backspace_def cons_bytes_char split: va.splits intro!: if_cong)

lemma va_set:
  "va_int ap = Ok (w, ap') \<Longrightarrow> set ap' \<subseteq> set ap"
  "va_str ap = Ok (x, ap') \<Longrightarrow> set ap' \<subseteq> set ap"
  by (auto simp: va_int_def va_str_def split: list.splits va.splits)

lemma directive_args: "u_directive digits c0 c1 c2 ap = Ok (out, skip, ap') \<Longrightarrow> set ap' \<subseteq> set ap"
  unfolding u_directive_def Let_def
  by (auto split: if_splits elim!: bindr_OkE dest: va_set [THEN subsetD])

lemma printf_loop_same:
  "no_backspace ap \<Longrightarrow> printf_loop digits fmt i ap = vprintf_loop digits fmt i False ap"
proof (induction digits fmt i ap rule: printf_loop.induct)
  case (1 digits fmt i ap)
  let ?c0 = "fmt_at fmt (i + 1)" and ?c1 = "fmt_at fmt (i + 2)" and ?c2 = "fmt_at fmt (i + 3)"
  consider (stop) "fmt_at fmt i = 0" | (plain) "fmt_at fmt i \<noteq> 0" "fmt_at fmt i \<noteq> c_pct"
    | (last) "fmt_at fmt i = c_pct" "?c0 = 0" | (dir) "fmt_at fmt i = c_pct" "?c0 \<noteq> 0" by auto
  then show ?case
  proof cases
    case stop
    then show ?thesis by (simp add: printf_loop.simps vprintf_loop.simps)
  next
    case plain
    then show ?thesis using 1(1) [OF refl plain] 1(3)
      by (simp add: printf_loop.simps [of digits fmt i] vprintf_loop.simps [of digits fmt i] cons_bytes_uint)
  next
    case last
    then show ?thesis
      by (simp add: printf_loop.simps [of digits fmt i] vprintf_loop.simps [of digits fmt i]
          vprintf_loop.simps [of digits fmt "Suc i"])
  next
    case dir
    let ?d = "u_directive digits ?c0 ?c1 (if ?c1 \<noteq> 0 then ?c2 else 0) ap"
    have k: "printf_loop digits fmt i ap = bindr (k_directive digits ?c0 ?c1 (if ?c1 \<noteq> 0 then ?c2 else 0) ap)
        (\<lambda>(out, skip, ap). bindr (printf_loop digits fmt (i + skip + 2) ap) (\<lambda>out'. Ok (out @ out')))"
      using dir by (subst printf_loop.simps) (simp add: Let_def)
    have "vprintf_loop digits fmt i False ap = vprintf_loop digits fmt (i + 1) True ap"
      using dir by (subst vprintf_loop.simps) simp
    also have "\<dots> = bindr ?d
        (\<lambda>(out, skip, ap). bindr (vprintf_loop digits fmt (i + 1 + skip + 1) False ap) (\<lambda>out'. Ok (out @ out')))"
      using dir by (subst vprintf_loop.simps) (simp add: Let_def numeral_eq_Suc)
    finally have u: "vprintf_loop digits fmt i False ap = bindr ?d
        (\<lambda>(out, skip, ap). bindr (vprintf_loop digits fmt (i + skip + 2) False ap) (\<lambda>out'. Ok (out @ out')))"
      by (simp add: ac_simps)
    have "printf_loop digits fmt (i + skip + 2) ap' = vprintf_loop digits fmt (i + skip + 2) False ap'"
      if d: "?d = Ok (out, skip, ap')" for out skip ap'
    proof -
      have "no_backspace ap'" using directive_args [OF d] 1(3) by (auto simp: no_backspace_def)
      then show ?thesis
        using 1(2) [of "fmt_at fmt i" ?c0 ?c1 "if ?c1 \<noteq> 0 then ?c2 else 0"] dir by simp
    qed
    then show ?thesis unfolding k u directive_same [OF 1(3)]
      by (auto simp: bindr_def split: option.splits sum.splits)
  qed
qed

text \<open>Output with digits \<open>d1\<close> and with digits \<open>d2\<close>, where corresponding digits are in \<open>R\<close>.\<close>

abbreviation rel_out :: "('a \<Rightarrow> 'b \<Rightarrow> bool) \<Rightarrow> 'a list result \<Rightarrow> 'b list result \<Rightarrow> bool" where
  "rel_out R \<equiv> rel_option (rel_sum (=) (list_all2 R))"

lemma rel_if: "(c \<Longrightarrow> P a b) \<Longrightarrow> (\<not> c \<Longrightarrow> P a' b') \<Longrightarrow> P (if c then a else a') (if c then b else b')"
  by simp

lemma rel_bindr:
  "rel_option (rel_sum (=) P) m m' \<Longrightarrow> (\<And>x y. P x y \<Longrightarrow> rel_option (rel_sum (=) Q) (f x) (g y))
   \<Longrightarrow> rel_option (rel_sum (=) Q) (bindr m f) (bindr m' g)"
  by (auto simp: bindr_def elim!: option.rel_cases rel_sum.cases)

lemma print_buf_rel:
  assumes "\<forall>i<base. R (d1 ! i) (d2 ! i)" and "0 < base" and "list_all2 R b1 b2"
  shows "rel_out R (print_buf d1 base x b1) (print_buf d2 base x b2)"
  using assms
proof (induction d1 base x b1 arbitrary: b2 rule: print_buf.induct)
  case (1 d1 base x b1)
  have len: "length b2 = length b1" using 1(4) by (simp add: list_all2_lengthD)
  have app: "list_all2 R (b1 @ [d1 ! (x mod base)]) (b2 @ [d2 ! (x mod base)])"
    using 1(2-4) by (simp add: list_all2_appendI)
  show ?case
  proof (cases "length b1 \<ge> 20 \<or> x div base = 0")
    case True
    then show ?thesis using app len by (subst (1 2) print_buf.simps) (auto simp: Let_def)
  next
    case False
    then have "rel_out R (print_buf d1 base (x div base) (b1 @ [d1 ! (x mod base)]))
        (print_buf d2 base (x div base) (b2 @ [d2 ! (x mod base)]))"
      using 1(1) [OF _ refl refl _ 1(2,3) app] by simp
    then show ?thesis using False len by (subst (1 2) print_buf.simps) (simp add: Let_def)
  qed
qed

lemma printint_rel:
  assumes "\<forall>i<base. R (d1 ! i) (d2 ! i)" and "0 < base" and "R 45 45"
  shows "rel_out R (u_printint d1 xx base sign) (u_printint d2 xx base sign)"
proof -
  have step: "rel_out R (bindr (print_buf d1 base x []) (\<lambda>buf. if neg then if length buf \<ge> 20 then Err e else Ok (rev (buf @ [45])) else Ok (rev buf)))
      (bindr (print_buf d2 base x []) (\<lambda>buf. if neg then if length buf \<ge> 20 then Err e else Ok (rev (buf @ [45])) else Ok (rev buf)))" for x neg e
    by (rule rel_bindr [OF print_buf_rel [of base R d1 d2, OF assms(1,2)]])
      (auto simp: assms(3) list_all2_rev dest: list_all2_lengthD)
  show ?thesis unfolding u_printint_def
  proof (rule rel_bindr [where P = "(=)"])
    fix p q :: "bool \<times> nat"
    assume "p = q"
    then show "rel_out R
        (case p of (neg, x) \<Rightarrow> bindr (print_buf d1 base x []) (\<lambda>buf. if neg then if length buf \<ge> 20 then Err (OutOfBounds ''buf'') else Ok (rev (buf @ [45])) else Ok (rev buf)))
        (case q of (neg, x) \<Rightarrow> bindr (print_buf d2 base x []) (\<lambda>buf. if neg then if length buf \<ge> 20 then Err (OutOfBounds ''buf'') else Ok (rev (buf @ [45])) else Ok (rev buf)))"
      by (cases q) (simp only: prod.case, rule step)
  qed (simp only: option.rel_eq sum.rel_eq)
qed

lemma printptr_rel: "\<forall>i<16. R (d1 ! i) (d2 ! i) \<Longrightarrow> list_all2 R (printptr_loop d1 n x) (printptr_loop d2 n x)"
proof (induction n arbitrary: x)
  case (Suc n)
  have "unat (drop_bit 60 x) = unat x div 2 ^ 60" using unat_drop_bit_eq [of 60 x] by (simp only: drop_bit_eq_div [of 60 "unat x"])
  moreover have "unat x < 2 ^ 64" using unsigned_less [of x] by simp
  ultimately have "unat (drop_bit 60 x) < 16" by (simp add: less_mult_imp_div_less)
  then show ?case using Suc by simp
qed simp

text \<open>Directives that print in base 16.\<close>

definition hex :: "8 word \<Rightarrow> bool" where "hex c = (c = c_x \<or> c = c_p)"

lemma directive_rel:
  assumes "\<forall>i<10. R (d1 ! i) (d2 ! i)" and "hex c0 \<or> hex c1 \<or> hex c2 \<longrightarrow> (\<forall>i<16. R (d1 ! i) (d2 ! i))" and "\<And>b. R b b"
  shows "rel_option (rel_sum (=) (rel_prod (list_all2 R) (=))) (u_directive d1 c0 c1 c2 ap) (u_directive d2 c0 c1 c2 ap)"
proof -
  have refl: "list_all2 R xs xs" for xs using assms(3) by (simp add: list_all2_refl)
  have num: "rel_option (rel_sum (=) (rel_prod (list_all2 R) (=)))
      (bindr (va_int ap) (\<lambda>(w, ap). bindr (u_printint d1 (conv w) base sign) (\<lambda>out. Ok (out, skip, ap))))
      (bindr (va_int ap) (\<lambda>(w, ap). bindr (u_printint d2 (conv w) base sign) (\<lambda>out. Ok (out, skip, ap))))"
    if "\<forall>i<base. R (d1 ! i) (d2 ! i)" "0 < base" for conv base sign skip
    by (rule rel_bindr [where P = "(=)"])
      (auto simp: option.rel_eq sum.rel_eq intro!: rel_bindr [OF printint_rel [of base R d1 d2, OF that assms(3)]])
  have ptr: "list_all2 R (printptr d1 w) (printptr d2 w)" if "\<forall>i<16. R (d1 ! i) (d2 ! i)" for w
    unfolding printptr_def using printptr_rel [of R d1 d2, OF that] refl by (intro list_all2_appendI)
  have chr: "rel_option (rel_sum (=) (rel_prod (list_all2 R) (=)))
      (bindr (va_int ap) (\<lambda>(w, ap). Ok (f w, 0, ap))) (bindr (va_int ap) (\<lambda>(w, ap). Ok (g w, 0, ap)))"
    if "\<And>w. list_all2 R (f w) (g w)" for f g :: "64 word \<Rightarrow> 8 word list"
    by (rule rel_bindr [where P = "(=)"]) (auto simp: option.rel_eq sum.rel_eq that)
  have str: "rel_option (rel_sum (=) (rel_prod (list_all2 R) (=)))
      (bindr (va_str ap) (\<lambda>(x, ap). Ok (f x, 0, ap))) (bindr (va_str ap) (\<lambda>(x, ap). Ok (f x, 0, ap)))" for f
    by (rule rel_bindr [where P = "(=)"]) (auto simp: option.rel_eq sum.rel_eq refl)
  have hx: "\<forall>i<16. R (d1 ! i) (d2 ! i)" if "c0 = c_x \<or> c0 = c_p \<or> c1 = c_x \<or> c2 = c_x"
    using assms(2) that by (auto simp: hex_def)
  show ?thesis unfolding u_directive_def Let_def
    by (intro rel_if [where P = "rel_option (rel_sum (=) (rel_prod (list_all2 R) (=)))"] num chr str ptr)
      (use assms(1,3) hx refl in simp_all)
qed

lemma hex_at: "hex (fmt_at fmt i) \<Longrightarrow> \<exists>b\<in>set fmt. hex b"
  by (auto simp: fmt_at_def hex_def split: if_splits) (metis nth_mem)+

lemma vprintf_loop_rel:
  assumes "\<forall>i<10. R (d1 ! i) (d2 ! i)" and "(\<exists>b\<in>set fmt. hex b) \<longrightarrow> (\<forall>i<16. R (d1 ! i) (d2 ! i))" and R: "\<And>b. R b b"
  shows "rel_out R (vprintf_loop d1 fmt i state ap) (vprintf_loop d2 fmt i state ap)"
  using assms(1,2)
proof (induction d1 fmt i state ap rule: vprintf_loop.induct)
  case (1 d1 fmt i state ap)
  let ?c0 = "fmt_at fmt i" and ?c1 = "fmt_at fmt (i + 1)"
  let ?c2 = "if ?c1 \<noteq> 0 then fmt_at fmt (i + 2) else 0"
  consider (stop) "?c0 = 0" | (percent) "?c0 \<noteq> 0" "\<not> state" "?c0 = c_pct" | (plain) "?c0 \<noteq> 0" "\<not> state" "?c0 \<noteq> c_pct"
    | (dir) "?c0 \<noteq> 0" "state" by blast
  then show ?case
  proof cases
    case stop
    then show ?thesis by (simp add: vprintf_loop.simps)
  next
    case percent
    then show ?thesis using 1(1) [OF refl percent 1(4,5)] by (simp add: vprintf_loop.simps [of _ fmt i False])
  next
    case plain
    have "rel_out R (bindr (vprintf_loop d1 fmt (i + 1) False ap) (\<lambda>out. Ok (?c0 # out)))
        (bindr (vprintf_loop d2 fmt (i + 1) False ap) (\<lambda>out. Ok (?c0 # out)))"
      by (rule rel_bindr [OF 1(2) [OF refl plain 1(4,5)]]) (simp add: R)
    then show ?thesis using plain by (simp add: vprintf_loop.simps [of _ fmt i False])
  next
    case dir
    have hx: "hex ?c0 \<or> hex ?c1 \<or> hex ?c2 \<longrightarrow> (\<forall>i<16. R (d1 ! i) (d2 ! i))"
    proof
      assume "hex ?c0 \<or> hex ?c1 \<or> hex ?c2"
      then have "\<exists>b\<in>set fmt. hex b"
        using hex_at [of fmt i] hex_at [of fmt "i + 1"] hex_at [of fmt "i + 2"] by (auto simp: hex_def split: if_splits)
      then show "\<forall>i<16. R (d1 ! i) (d2 ! i)" using 1(5) by blast
    qed
    have "rel_out R
        (bindr (u_directive d1 ?c0 ?c1 ?c2 ap) (\<lambda>(out, skip, ap). bindr (vprintf_loop d1 fmt (i + skip + 1) False ap) (\<lambda>out'. Ok (out @ out'))))
        (bindr (u_directive d2 ?c0 ?c1 ?c2 ap) (\<lambda>(out, skip, ap). bindr (vprintf_loop d2 fmt (i + skip + 1) False ap) (\<lambda>out'. Ok (out @ out'))))"
    proof (rule rel_bindr [OF directive_rel [of R d1 d2, OF 1(4) hx R]])
      fix x y :: "8 word list \<times> nat \<times> va list"
      assume xy: "rel_prod (list_all2 R) (=) x y"
      obtain o1 skip ap' o2 where e: "x = (o1, skip, ap')" "y = (o2, skip, ap')" "list_all2 R o1 o2"
        using xy by (cases x; cases y) auto
      have IH: "rel_out R (vprintf_loop d1 fmt (i + skip + 1) False ap') (vprintf_loop d2 fmt (i + skip + 1) False ap')"
        using 1(3) [OF refl _ _ refl refl 1(4,5)] dir by simp
      show "rel_out R (case x of (out, skip, ap) \<Rightarrow> bindr (vprintf_loop d1 fmt (i + skip + 1) False ap) (\<lambda>out'. Ok (out @ out')))
          (case y of (out, skip, ap) \<Rightarrow> bindr (vprintf_loop d2 fmt (i + skip + 1) False ap) (\<lambda>out'. Ok (out @ out')))"
        unfolding e prod.case by (rule rel_bindr [OF IH]) (simp add: e(3) list_all2_appendI)
    qed
    then show ?thesis using dir by (simp add: vprintf_loop.simps [of _ fmt i True] Let_def)
  qed
qed

text \<open>Bytes that are equal, or a lower-case digit and its upper-case form.\<close>

definition upto_case :: "8 word \<Rightarrow> 8 word \<Rightarrow> bool" where
  "upto_case k u = (k = u \<or> k \<in> set (bytes_of ''abcdef'') \<and> u = k - 32)"

text \<open>C30. The kernel's \<open>printf\<close> and the user library's \<open>vprintf\<close> write the same text up to the case of
  hexadecimal digits, for every format and every list of arguments, faults included: as many bytes, and at each
  position the same byte or a lower-case digit from the kernel and its upper-case form from the library; and
  the same bytes when the format has no \<open>x\<close> and no \<open>p\<close>. The exception is an argument that is \<open>BACKSPACE\<close>, which \<open>%c\<close>
  sends to the console as backspace, space, backspace and to a file as one byte.\<close>

theorem printf_agree:
  assumes "no_backspace ap"
  shows "rel_out upto_case (printf fmt ap) (vprintf fmt ap)
    \<and> (c_x \<notin> set fmt \<and> c_p \<notin> set fmt \<longrightarrow> printf fmt ap = vprintf fmt ap)
    \<and> printf [c_pct, c_x] [VInt 10] = Ok [97] \<and> vprintf [c_pct, c_x] [VInt 10] = Ok [65]
    \<and> printf [c_pct, c_c] [VInt 0x100] = Ok [8, 32, 8] \<and> vprintf [c_pct, c_c] [VInt 0x100] = Ok [0]"
proof -
  have p: "printf fmt ap = vprintf_loop k_digits fmt 0 False ap" using printf_loop_same [OF assms] by (simp add: printf_def)
  have k: "k_digits = [48, 49, 50, 51, 52, 53, 54, 55, 56, 57, 97, 98, 99, 100, 101, 102]"
    and u: "u_digits = [48, 49, 50, 51, 52, 53, 54, 55, 56, 57, 65, 66, 67, 68, 69, 70]"
    by (simp_all add: k_digits_def u_digits_def bytes_of_def)
  have all: "\<forall>i<16. upto_case (k_digits ! i) (u_digits ! i)"
    unfolding k u upto_case_def bytes_of_def by (simp add: numeral_eq_Suc All_less_Suc)
  have dec: "\<forall>i<10. k_digits ! i = u_digits ! i"
    unfolding k u by (simp add: numeral_eq_Suc All_less_Suc)
  have "rel_out upto_case (printf fmt ap) (vprintf fmt ap)"
    unfolding p vprintf_def using all by (intro vprintf_loop_rel) (auto simp: upto_case_def)
  moreover have "printf fmt ap = vprintf fmt ap" if "c_x \<notin> set fmt \<and> c_p \<notin> set fmt"
  proof -
    have "rel_out (=) (vprintf_loop k_digits fmt 0 False ap) (vprintf_loop u_digits fmt 0 False ap)"
      using dec that by (intro vprintf_loop_rel) (auto simp: hex_def)
    then show ?thesis unfolding p vprintf_def by (simp add: list.rel_eq sum.rel_eq option.rel_eq)
  qed
  moreover have "printf [c_pct, c_c] [VInt 0x100] = Ok [8, 32, 8]"
    by (simp add: printf_def printf_loop.simps fmt_at_def k_directive_def va_int_def cons_bytes_def as_uint_def)
  moreover have "vprintf [c_pct, c_c] [VInt 0x100] = Ok [0]"
    by (simp add: vprintf_def vprintf_loop.simps fmt_at_def u_directive_def va_int_def)
  moreover have "printf [c_pct, c_x] [VInt 10] = Ok [97]"
    by (simp add: printf_def printf_loop.simps fmt_at_def k_directive_def va_int_def as_uint_def k_printint_def print_buf.simps k)
  moreover have "vprintf [c_pct, c_x] [VInt 10] = Ok [65]"
    by (simp add: vprintf_def vprintf_loop.simps fmt_at_def u_directive_def va_int_def as_uint_def u_printint_def print_buf.simps u)
  ultimately show ?thesis by blast
qed

theorem printf_agree_witness:
  "no_backspace [VInt 0xbeef, VStr None]
   \<and> rel_out upto_case (printf (bytes_of ''%x %s'') [VInt 0xbeef, VStr None]) (vprintf (bytes_of ''%x %s'') [VInt 0xbeef, VStr None])
   \<and> printf (bytes_of ''%d %s'') [VInt 7, VStr None] = vprintf (bytes_of ''%d %s'') [VInt 7, VStr None]"
proof -
  have n: "no_backspace [VInt 0xbeef, VStr None]" "no_backspace [VInt 7, VStr None]" by (simp_all add: no_backspace_def as_uint_def)
  have "c_x \<notin> set (bytes_of ''%d %s'') \<and> c_p \<notin> set (bytes_of ''%d %s'')" by (simp add: bytes_of_def)
  then show ?thesis using n printf_agree [OF n(1)] printf_agree [OF n(2)] by blast
qed

end
