(* ===== verification/Proc_Props.thy ===== *)
theory Proc_Props
  imports Proc
begin

text \<open>
  Critical sections of the kernel proper, and what waking and killing do to the process table.
\<close>

section \<open>Critical sections\<close>

lemma enter_kernel [lock_simps]:
  "hartid (enter c lk s) = hartid s" "procs (enter c lk s) = procs s" "cpu_proc (enter c lk s) = cpu_proc s"
  "initproc (enter c lk s) = initproc s" "nextpid (enter c lk s) = nextpid s" "ticks (enter c lk s) = ticks s"
  by (simp_all add: enter_def push_off_def intr_off_def Let_def)

lemma note_intena_kernel [lock_simps]:
  "hartid (note_intena c s) = hartid s" "procs (note_intena c s) = procs s"
  "cpu_proc (note_intena c s) = cpu_proc s" "initproc (note_intena c s) = initproc s"
  by (simp_all add: note_intena_def)

lemma note_intena_locks [lock_simps]:
  "locks (note_intena c s) = locks s" "sie (note_intena c s) = sie s"
  "lock_free lk (note_intena c s) = lock_free lk s" "intr_ok d (note_intena c s) = intr_ok d s"
  "note_intena c (note_intena c s) = note_intena c s"
  by (simp_all add: note_intena_def lock_free_def intr_ok_def)

lemma upd_proc_kernel [lock_simps]:
  "hartid (upd_proc p f s) = hartid s" "procs (upd_proc p f s) = (procs s)(p := f (procs s p))"
  "cpu_proc (upd_proc p f s) = cpu_proc s" "locks (upd_proc p f s) = locks s"
  "cpus (upd_proc p f s) = cpus s" "sie (upd_proc p f s) = sie s"
  "lock_free lk (upd_proc p f s) = lock_free lk s" "intr_ok c (upd_proc p f s) = intr_ok c s"
  by (simp_all add: upd_proc_def lock_free_def intr_ok_def)

lemma enter_leave:
  assumes "lock_free lk s" and "intr_ok c s"
  shows "release c lk (enter c lk s) = Ok (note_intena c s)"
  using release_exit [OF assms, of "enter c lk s"]
  by (simp add: enter_def push_off_def intr_off_def Let_def note_intena_def)

lemma enter_upd_leave:
  assumes "lock_free lk s" and "intr_ok c s"
  shows "release c lk (upd_proc p f (enter c lk s)) = Ok (note_intena c (upd_proc p f s))"
  using release_exit [OF assms, of "upd_proc p f (enter c lk s)"]
  by (simp add: upd_proc_def enter_def push_off_def intr_off_def Let_def note_intena_def)

lemma myproc_eq [lock_simps]:
  "intr_ok (hartid s) s \<Longrightarrow> myproc s = Ok (cpu_proc s (hartid s), note_intena (hartid s) s)"
proof -
  have p: "cpu_proc (push_off (hartid s) s) = cpu_proc s" "hartid (push_off (hartid s) s) = hartid s"
    by (simp_all add: push_off_def intr_off_def Let_def)
  assume "intr_ok (hartid s) s"
  then show ?thesis by (simp add: myproc_def cpuid_def p pop_push_off Let_def)
qed

section \<open>Waking\<close>

text \<open>What a sleeper on \<open>ch\<close> becomes.\<close>

definition woken :: "chan option \<Rightarrow> proc \<Rightarrow> proc" where
  "woken ch pr = (if p_state pr = SLEEPING \<and> p_chan pr = ch then pr\<lparr>p_state := RUNNABLE\<rparr> else pr)"

definition wake_set :: "chan option \<Rightarrow> nat set \<Rightarrow> 'z kernel_scheme \<Rightarrow> 'z kernel_scheme" where
  "wake_set ch A s = s\<lparr>procs := (\<lambda>p. if p \<in> A then woken ch (procs s p) else procs s p)\<rparr>"

lemma woken_idem [simp]: "woken ch (woken ch pr) = woken ch pr"
  by (simp add: woken_def)

lemma wake_set_simps [lock_simps]:
  "wake_set ch {} s = s" "note_intena c (wake_set ch A (note_intena c s)) = note_intena c (wake_set ch A s)"
  by (simp_all add: wake_set_def note_intena_def cong: if_cong)

lemma wake_set_insert:
  "wake_set ch A (upd_proc p (woken ch) s) = wake_set ch (insert p A) s"
  by (auto simp: wake_set_def upd_proc_def fun_eq_iff)

lemma wakeup_loop_eq:
  fixes s :: "'z kernel_scheme"
  assumes "intr_ok (hartid s) s" and "\<forall>p\<in>set ps. Some p \<noteq> cpu_proc s (hartid s) \<longrightarrow> lock_free (ProcLock p) s"
    and "ps \<noteq> []"
  shows "wakeup_loop ch ps s
    = Ok (note_intena (hartid s) (wake_set ch {p \<in> set ps. Some p \<noteq> cpu_proc s (hartid s)} s))"
  using assms
proof (induction ps arbitrary: s)
  case Nil
  then show ?case by simp
next
  case (Cons p ps)
  let ?c = "hartid s" and ?N = "note_intena (hartid s)" and ?me = "cpu_proc s (hartid s)"
  have rest: "wakeup_loop ch ps (?N t) = Ok (?N (wake_set ch {p \<in> set ps. Some p \<noteq> ?me} t))"
    if t: "hartid t = ?c" "cpu_proc t = cpu_proc s" "locks t = locks s" "intr_ok ?c t" for t :: "'z kernel_scheme"
  proof (cases "ps = []")
    case True
    then show ?thesis by (simp add: lock_simps)
  next
    case False
    have "lock_free (ProcLock p) t" if "p \<in> set ps" "Some p \<noteq> ?me" for p
      using Cons.prems(2) that t(3) by (simp add: lock_free_def)
    then show ?thesis
      using Cons.IH [of "?N t"] False t by (simp add: lock_simps)
  qed
  show ?case
  proof (cases "Some p = ?me")
    case True
    then have "{q \<in> set (p # ps). Some q \<noteq> ?me} = {q \<in> set ps. Some q \<noteq> ?me}" by auto
    then show ?thesis using True rest [of s] Cons.prems(1) by (simp add: lock_simps)
  next
    case False
    then have free: "lock_free (ProcLock p) s" using Cons.prems(2) by simp
    let ?e = "enter ?c (ProcLock p) (?N s)"
    have w: "(if p_state (procs ?e p) = SLEEPING \<and> p_chan (procs ?e p) = ch
        then upd_proc p (\<lambda>pr. pr\<lparr>p_state := RUNNABLE\<rparr>) ?e else ?e) = upd_proc p (woken ch) ?e"
      by (auto simp: upd_proc_def woken_def fun_upd_idem)
    have "{q \<in> set (p # ps). Some q \<noteq> ?me} = insert p {q \<in> set ps. Some q \<noteq> ?me}" using False by auto
    moreover have "note_intena ?c (upd_proc p (woken ch) (?N s)) = ?N (upd_proc p (woken ch) s)"
      by (simp add: note_intena_def upd_proc_def)
    moreover have "wakeup_loop ch ps (?N (upd_proc p (woken ch) s))
        = Ok (?N (wake_set ch {p \<in> set ps. Some p \<noteq> ?me} (upd_proc p (woken ch) s)))"
      using rest [of "upd_proc p (woken ch) s"] Cons.prems(1) by (simp add: lock_simps)
    moreover have "wakeup_loop ch (p # ps) s
        = bindr (release ?c (ProcLock p) (upd_proc p (woken ch) ?e)) (wakeup_loop ch ps)"
      using False w myproc_eq [OF Cons.prems(1)] acquire_free [of "ProcLock p" "?N s" ?c] free
      by (simp only: wakeup_loop.simps bindr_simps prod.case if_True simp_thms Let_def lock_simps not_False_eq_True)
    ultimately show ?thesis
      using enter_upd_leave [of "ProcLock p" "?N s" ?c] free Cons.prems(1)
      by (simp add: lock_simps wake_set_insert)
  qed
qed

definition wake :: "chan option \<Rightarrow> 'z kernel_scheme \<Rightarrow> 'z kernel_scheme" where
  "wake ch s = wake_set ch {p. p < NPROC \<and> Some p \<noteq> cpu_proc s (hartid s)} s"

lemma wakeup_eq:
  assumes "intr_ok (hartid s) s"
    and "\<forall>p<NPROC. Some p \<noteq> cpu_proc s (hartid s) \<longrightarrow> lock_free (ProcLock p) s"
  shows "wakeup ch s = Ok (note_intena (hartid s) (wake ch s))"
proof -
  have "{p \<in> set [0..<NPROC]. Some p \<noteq> cpu_proc s (hartid s)} = {p. p < NPROC \<and> Some p \<noteq> cpu_proc s (hartid s)}"
    by auto
  then show ?thesis
    unfolding wakeup_def wake_def using wakeup_loop_eq [of s "[0..<NPROC]" ch] assms by simp
qed

text \<open>C36. \<open>wakeup\<close>, called with no process lock held by another hart, returns and makes runnable
  exactly the other processes that sleep on the channel; nothing else of the process table, no
  lock and no interrupt bit changes.\<close>

theorem wakeup_exact:
  assumes "intr_ok (hartid s) s"
    and "\<forall>p<NPROC. Some p \<noteq> cpu_proc s (hartid s) \<longrightarrow> lock_free (ProcLock p) s"
  shows "\<exists>s'. wakeup ch s = Ok s'
    \<and> (\<forall>p. procs s' p =
         (if p < NPROC \<and> Some p \<noteq> cpu_proc s (hartid s) \<and> p_state (procs s p) = SLEEPING \<and> p_chan (procs s p) = ch
          then (procs s p)\<lparr>p_state := RUNNABLE\<rparr> else procs s p))
    \<and> locks s' = locks s \<and> sie s' = sie s \<and> cpu_proc s' = cpu_proc s \<and> bytes s' = bytes s"
  unfolding wakeup_eq [OF assms]
  by (auto simp: wake_def wake_set_def note_intena_def woken_def)

section \<open>Killing\<close>

lemma find_upt_None: "find P [0..<n] = None \<Longrightarrow> q < n \<Longrightarrow> \<not> P q"
  by (simp add: find_None_iff)

lemma find_upt_Some: "find P [0..<n] = Some p \<Longrightarrow> p < n \<and> P p \<and> (\<forall>j<p. \<not> P j)"
  by (auto simp: find_Some_iff)

definition kill_proc :: "proc \<Rightarrow> proc" where
  "kill_proc pr = pr\<lparr>p_killed := 1, p_state := (if p_state pr = SLEEPING then RUNNABLE else p_state pr)\<rparr>"

lemma kkill_loop_eq:
  assumes "intr_ok (hartid s) s" and "\<forall>p\<in>set ps. lock_free (ProcLock p) s"
  shows "kkill_loop pid ps s =
    (case find (\<lambda>p. p_pid (procs s p) = pid) ps of
       None \<Rightarrow> Ok (- 1, if ps = [] then s else note_intena (hartid s) s)
     | Some p \<Rightarrow> Ok (0, note_intena (hartid s) (upd_proc p kill_proc s)))"
  using assms
proof (induction ps arbitrary: s)
  case Nil
  then show ?case by simp
next
  case (Cons p ps)
  let ?c = "hartid s" and ?N = "note_intena (hartid s)" and ?e = "enter (hartid s) (ProcLock p) s"
  have free: "lock_free (ProcLock p) s" and acq: "acquire ?c (ProcLock p) s = Ok ?e"
    using Cons.prems(2) by (simp_all add: acquire_free)
  show ?case
  proof (cases "p_pid (procs s p) = pid")
    case True
    let ?s1 = "upd_proc p (\<lambda>pr. pr\<lparr>p_killed := 1\<rparr>) ?e"
    have "(if p_state (procs ?s1 p) = SLEEPING then upd_proc p (\<lambda>pr. pr\<lparr>p_state := RUNNABLE\<rparr>) ?s1 else ?s1)
        = upd_proc p kill_proc ?e"
      by (auto simp: upd_proc_def kill_proc_def)
    then have "kkill_loop pid (p # ps) s = bindr (release ?c (ProcLock p) (upd_proc p kill_proc ?e)) (\<lambda>s. Ok (0, s))"
      using True by (simp only: kkill_loop.simps acq bindr_simps Let_def lock_simps if_True simp_thms)
    then show ?thesis using True enter_upd_leave [OF free Cons.prems(1)] by simp
  next
    case False
    have "kkill_loop pid (p # ps) s = kkill_loop pid ps (?N s)"
      using False enter_leave [OF free Cons.prems(1)] by (simp add: acq lock_simps)
    moreover have "note_intena ?c (upd_proc q kill_proc (?N s)) = ?N (upd_proc q kill_proc s)" for q
      by (simp add: note_intena_def upd_proc_def)
    ultimately show ?thesis
      using False Cons.IH [of "?N s"] Cons.prems by (simp add: lock_simps split: option.split)
  qed
qed

text \<open>C37. \<open>kkill\<close> marks the first process with the given id as killed, makes it runnable if it sleeps
  and returns 0; without such a process it changes no process and returns -1. It looks at unused
  slots too, whose id is 0: \<open>kkill(0)\<close> succeeds on one and leaves it killed.\<close>

theorem kkill_exact:
  assumes "intr_ok (hartid s) s" and "\<forall>p<NPROC. lock_free (ProcLock p) s"
  shows "\<exists>r s'. kkill pid s = Ok (r, s') \<and> locks s' = locks s \<and> sie s' = sie s
    \<and> (\<forall>q. q < NPROC \<and> p_pid (procs s q) = pid \<and> (\<forall>j<q. p_pid (procs s j) \<noteq> pid) \<longrightarrow>
         r = 0 \<and> procs s' = (procs s)(q := kill_proc (procs s q))
         \<and> (p_state (procs s q) = UNUSED \<longrightarrow> p_state (procs s' q) = UNUSED \<and> p_killed (procs s' q) = 1))
    \<and> ((\<forall>q<NPROC. p_pid (procs s q) \<noteq> pid) \<longrightarrow> r = - 1 \<and> procs s' = procs s)"
proof -
  let ?f = "find (\<lambda>p. p_pid (procs s p) = pid) [0..<NPROC]"
  have eq: "kkill pid s = (case ?f of None \<Rightarrow> Ok (- 1, note_intena (hartid s) s)
      | Some p \<Rightarrow> Ok (0, note_intena (hartid s) (upd_proc p kill_proc s)))"
    using kkill_loop_eq [OF assms(1), of "[0..<NPROC]" pid] assms(2) unfolding kkill_def by (simp only: set_upt) simp
  show ?thesis
  proof (cases ?f)
    case None
    have "p_pid (procs s q) \<noteq> pid" if "q < NPROC" for q
      using find_upt_None [OF None that] .
    then show ?thesis using eq None by (auto simp: lock_simps)
  next
    case (Some p)
    note p = find_upt_Some [OF Some]
    then have "q = p" if "p_pid (procs s q) = pid" "\<forall>j<q. p_pid (procs s j) \<noteq> pid" for q
      using that by (metis linorder_neqE_nat)
    then show ?thesis using p eq Some by (auto simp: lock_simps kill_proc_def)
  qed
qed

section \<open>An idle kernel\<close>

text \<open>A state with all locks free, process 0 running on hart 0 and process 1 asleep on \<open>ticks\<close>,
  for the witnesses; \<open>m\<close> holds the fields of later components.\<close>

definition idle_procs :: "nat \<Rightarrow> proc" where
  "idle_procs p = \<lparr>p_state = (if p = 0 then RUNNING else if p = 1 then SLEEPING else UNUSED),
     p_chan = (if p = 1 then Some ChanTicks else None), p_killed = 0, p_xstate = 0,
     p_pid = (if p < 2 then int p + 1 else 0), p_parent = None, p_kstack = KSTACK p, p_sz = 0,
     p_pagetable = 0, p_trapframe = 0, p_context = \<lparr>ctx_ra = 0, ctx_sp = 0, ctx_s = []\<rparr>,
     p_ofile = (\<lambda>_. None), p_cwd = None, p_name = []\<rparr>"

definition idle :: "'z \<Rightarrow> 'z kernel_scheme" where
  "idle m = \<lparr>locks = (\<lambda>_. \<lparr>lk_locked = 0, lk_name = [], lk_cpu = None\<rparr>),
     cpus = (\<lambda>_. \<lparr>noff = 0, intena = False\<rparr>), sie = (\<lambda>_. True), tree = (\<lambda>_. 0),
     bytes = (\<lambda>_. 0), printed = [], caches_head = 0, small_mem_caches = (\<lambda>_. 0),
     hartid = 0, kernel_pagetable = 0, procs = idle_procs,
     cpu_proc = (\<lambda>c. if c = 0 then Some 0 else None), initproc = Some 0, nextpid = 3, ticks = 0, \<dots> = m\<rparr>"

lemma idle_simps [simp]:
  "locks (idle m) lk = \<lparr>lk_locked = 0, lk_name = [], lk_cpu = None\<rparr>" "hartid (idle m) = 0"
  "cpus (idle m) c = \<lparr>noff = 0, intena = False\<rparr>" "cpu_proc (idle m) 0 = Some 0" "procs (idle m) = idle_procs"
  by (simp_all add: idle_def)

lemma idle_ok [simp]: "intr_ok c (idle m)" "lock_free lk (idle m)"
  by (simp_all add: intr_ok_def lock_free_def)

theorem wakeup_exact_witness:
  "\<exists>s'. wakeup (Some ChanTicks) (idle ()) = Ok s' \<and> p_state (procs s' 1) = RUNNABLE \<and> p_state (procs s' 0) = RUNNING"
  using wakeup_exact [of "idle ()" "Some ChanTicks"] by (auto simp: idle_procs_def)

theorem kkill_exact_witness:
  "\<exists>s'. kkill 2 (idle ()) = Ok (0, s') \<and> p_state (procs s' 1) = RUNNABLE \<and> p_killed (procs s' 1) = 1
    \<and> p_killed (procs s' 0) = 0"
proof -
  have "p_pid (idle_procs 1) = 2 \<and> (\<forall>j<1. p_pid (idle_procs j) \<noteq> 2)" by (simp add: idle_procs_def)
  with kkill_exact [of "idle ()" 2] show ?thesis
    by (auto simp: idle_procs_def kill_proc_def dest: spec [of _ 1])
qed

end
