(* ===== verification/Bio_Props.thy ===== *)
theory Bio_Props
  imports Bio Proc_Props
begin

text \<open>
  The buffer cache keeps its buffers in a doubly linked list in the order of their last use. The
  pointers of \<open>bufs\<close> are related to the list they stand for by \<open>lru\<close>; the searches, insertions
  and removals of \<^verbatim>\<open>bio.c\<close> are then operations on that list.
\<close>

section \<open>Updates inside a critical section\<close>

text \<open>\<open>g\<close> neither reads nor writes the locks, the depths and the interrupt bits.\<close>

definition lockless :: "('z klocks_scheme \<Rightarrow> 'z klocks_scheme) \<Rightarrow> bool" where
  "lockless g = (\<forall>s L C I. g (s\<lparr>locks := L, cpus := C, sie := I\<rparr>) = (g s)\<lparr>locks := L, cpus := C, sie := I\<rparr>)"

lemma locklessD: "lockless g \<Longrightarrow> g (s\<lparr>locks := L, cpus := C, sie := I\<rparr>) = (g s)\<lparr>locks := L, cpus := C, sie := I\<rparr>"
  by (simp add: lockless_def)

lemma lockless_id: "lockless (\<lambda>s. s)"
  by (simp add: lockless_def)

lemma lockless_comp: "lockless f \<Longrightarrow> lockless g \<Longrightarrow> lockless (\<lambda>s. f (g s))"
  by (simp add: lockless_def)

lemma enter_as_update:
  "enter c lk s = s\<lparr>locks := locks (enter c lk s), cpus := cpus (enter c lk s), sie := sie (enter c lk s)\<rparr>"
  by (simp add: enter_def push_off_def intr_off_def Let_def)

lemma note_as_update:
  "note_intena c s = s\<lparr>locks := locks s, cpus := cpus (note_intena c s), sie := sie s\<rparr>"
  by (simp add: note_intena_def)

lemma lockless_same:
  assumes "lockless g"
  shows "locks (g s) = locks s \<and> cpus (g s) = cpus s \<and> sie (g s) = sie s"
proof -
  have "g s = (g s)\<lparr>locks := locks s, cpus := cpus s, sie := sie s\<rparr>"
    using locklessD [OF assms, where s = s and L = "locks s" and C = "cpus s" and I = "sie s"] by simp
  then show ?thesis
    by (metis klocks.select_convs(1-3) klocks.update_convs(1-3) klocks.surjective)
qed

lemma release_lockless:
  assumes "lock_free lk s" and "intr_ok c s" and "lockless g"
  shows "release c lk (g (enter c lk s)) = Ok (note_intena c (g s))"
proof -
  let ?e = "enter c lk s"
  have same: "locks (g ?e) = locks ?e \<and> cpus (g ?e) = cpus ?e \<and> sie (g ?e) = sie ?e"
    by (rule lockless_same [OF assms(3)])
  have ge: "g ?e = (g s)\<lparr>locks := locks ?e, cpus := cpus ?e, sie := sie ?e\<rparr>"
    by (subst enter_as_update) (rule locklessD [OF assms(3)])
  have "release c lk (g ?e) = Ok ((g ?e)\<lparr>locks := locks s, cpus := cpus (note_intena c s), sie := sie s\<rparr>)"
    using same by (intro release_exit [OF assms(1,2)]) auto
  also have "(g ?e)\<lparr>locks := locks s, cpus := cpus (note_intena c s), sie := sie s\<rparr>
      = (g s)\<lparr>locks := locks s, cpus := cpus (note_intena c s), sie := sie s\<rparr>"
    by (simp add: ge)
  also have "\<dots> = note_intena c (g s)"
    using lockless_same [OF assms(3), of s] note_as_update [of c "g s"] by (simp add: note_intena_def)
  finally show ?thesis .
qed

lemma note_lockless: "lockless g \<Longrightarrow> note_intena c (g (note_intena c s)) = note_intena c (g s)"
proof -
  assume g: "lockless g"
  have "g (note_intena c s) = (g s)\<lparr>locks := locks s, cpus := cpus (note_intena c s), sie := sie s\<rparr>"
    by (subst note_as_update) (rule locklessD [OF g])
  then show ?thesis using lockless_same [OF g, of s] by (simp add: note_intena_def)
qed

lemma note_inside:
  assumes "lockless g" and "intr_ok c s"
  shows "note_intena c (g (enter c lk s)) = g (enter c lk s)"
  using note_intena_enter [OF assms(2), of lk] lockless_same [OF assms(1), of "enter c lk s"]
  by (simp add: note_intena_def enter_simps push_off_cpus intr_ok_def split: if_splits) (use assms(2) in \<open>simp add: intr_ok_def\<close>)

lemma lockless_free: "lockless g \<Longrightarrow> lock_free lk (g s) = lock_free lk s"
  using lockless_same [of g s] by (simp add: lock_free_def)

lemma lockless_intr: "lockless g \<Longrightarrow> intr_ok c (g s) = intr_ok c s"
  using lockless_same [of g s] by (simp add: intr_ok_def)

lemma lockless_updates:
  "lockless (upd_sleeplock lk f)" "lockless (upd_buf b h)" "lockless (upd_proc p k)"
  "lockless (wake ch)" "lockless (buf_push b)"
  by (simp_all add: lockless_def upd_sleeplock_def upd_buf_def upd_proc_def wake_def wake_set_def buf_push_def Let_def
      cong: if_cong)

section \<open>Sleep locks\<close>

lemma enter_bio [lock_simps]:
  "sleeplocks (enter c lk s) = sleeplocks s" "bufs (enter c lk s) = bufs s"
  by (simp_all add: enter_def push_off_def intr_off_def Let_def)

lemma note_intena_bio [lock_simps]:
  "sleeplocks (note_intena c s) = sleeplocks s" "bufs (note_intena c s) = bufs s"
  by (simp_all add: note_intena_def)

lemma upd_sleeplock_bio [lock_simps]:
  "hartid (upd_sleeplock lk f s) = hartid s" "procs (upd_sleeplock lk f s) = procs s"
  "cpu_proc (upd_sleeplock lk f s) = cpu_proc s" "bufs (upd_sleeplock lk f s) = bufs s"
  "sleeplocks (upd_sleeplock lk f s) = (sleeplocks s)(lk := f (sleeplocks s lk))"
  by (simp_all add: upd_sleeplock_def)

lemma upd_buf_bio [lock_simps]:
  "hartid (upd_buf b f s) = hartid s" "procs (upd_buf b f s) = procs s"
  "cpu_proc (upd_buf b f s) = cpu_proc s" "bufs (upd_buf b f s) = (bufs s)(b := f (bufs s b))"
  "sleeplocks (upd_buf b f s) = sleeplocks s"
  by (simp_all add: upd_buf_def)

lemma wake_bio [lock_simps]:
  "hartid (wake ch s) = hartid s" "cpu_proc (wake ch s) = cpu_proc s" "bufs (wake ch s) = bufs s"
  "sleeplocks (wake ch s) = sleeplocks s"
  by (simp_all add: wake_def wake_set_def)

lemmas lockless_lock [lock_simps] =
  lockless_updates [THEN lockless_free] lockless_updates [THEN lockless_intr]

text \<open>All spin locks are free, and process \<open>p\<close> runs on the current hart.\<close>

definition quiet :: "nat \<Rightarrow> 'z kernel_scheme \<Rightarrow> bool" where
  "quiet p s = ((\<forall>lk. lock_free lk s) \<and> intr_ok (hartid s) s \<and> cpu_proc s (hartid s) = Some p)"

lemma quiet_note [simp]: "quiet p (note_intena c s) = quiet p s"
  by (simp add: quiet_def lock_simps)

lemma holdingsleep_eq:
  assumes "quiet p s"
  shows "holdingsleep lk s = Ok (sl_locked (sleeplocks s lk) \<noteq> 0 \<and> sl_pid (sleeplocks s lk) = p_pid (procs s p),
    note_intena (hartid s) s)"
proof -
  let ?c = "hartid s" and ?e = "enter (hartid s) (SleepInnerLock lk) s"
  have q: "lock_free (SleepInnerLock lk) s" "intr_ok ?c s" "cpu_proc s ?c = Some p" using assms by (simp_all add: quiet_def)
  have my: "myproc_deref ?e = Ok (p, ?e)"
    using q myproc_eq [of ?e] by (simp add: myproc_deref_def lock_simps)
  show ?thesis
    using my enter_leave [OF q(1,2)] acquire_free [OF q(1), of ?c] by (simp add: holdingsleep_def lock_simps)
qed

lemma acquiresleep_eq:
  assumes "quiet p s" and "sl_locked (sleeplocks s lk) = 0"
  shows "acquiresleep P lk s
    = Ok (note_intena (hartid s) (upd_sleeplock lk (\<lambda>l. l\<lparr>sl_locked := 1, sl_pid := p_pid (procs s p)\<rparr>) s))"
proof -
  let ?c = "hartid s" and ?e = "enter (hartid s) (SleepInnerLock lk) s" and ?u = "upd_sleeplock lk (\<lambda>l. l\<lparr>sl_locked := 1\<rparr>)"
  have q: "lock_free (SleepInnerLock lk) s" "intr_ok ?c s" "cpu_proc s ?c = Some p" using assms by (simp_all add: quiet_def)
  have wait: "acquiresleep_wait P lk ?e = Ok ?e"
    using assms(2) by (subst acquiresleep_wait.simps) (simp add: lock_simps)
  have my: "myproc_deref (?u ?e) = Ok (p, ?u ?e)"
    using q myproc_eq [of "?u ?e"] note_inside [OF lockless_updates(1) q(2)]
    by (simp add: myproc_deref_def lock_simps)
  have two: "upd_sleeplock lk (\<lambda>l. l\<lparr>sl_pid := p_pid (procs (?u ?e) p)\<rparr>) (?u ?e)
      = upd_sleeplock lk (\<lambda>l. l\<lparr>sl_locked := 1, sl_pid := p_pid (procs s p)\<rparr>) ?e"
    by (simp add: upd_sleeplock_def lock_simps)
  have "acquiresleep P lk s = release ?c (SleepInnerLock lk)
      (upd_sleeplock lk (\<lambda>l. l\<lparr>sl_locked := 1, sl_pid := p_pid (procs s p)\<rparr>) ?e)"
    unfolding acquiresleep_def acquire_free [OF q(1)] bindr_simps wait Let_def my prod.case two
    by (simp add: lock_simps)
  then show ?thesis by (simp add: release_lockless [OF q(1,2) lockless_updates(1)])
qed

lemma release_bio:
  assumes "release c lk s = Ok s'"
  shows "hartid s' = hartid s" and "cpu_proc s' = cpu_proc s" and "procs s' = procs s"
    and "sleeplocks s' = sleeplocks s" and "bufs s' = bufs s"
  using assms by (auto simp: release_def pop_off_def set_cpu_def lock_release_def intr_on_def Let_def split: if_splits)

lemma myproc_bio:
  assumes "myproc_deref s = Ok (p, s')"
  shows "cpu_proc s (hartid s) = Some p" and "hartid s' = hartid s" and "cpu_proc s' = cpu_proc s" and "procs s' = procs s"
    and "sleeplocks s' = sleeplocks s" and "bufs s' = bufs s"
  using assms by (auto simp: myproc_deref_def myproc_def cpuid_def push_off_def pop_off_def intr_off_def intr_on_def intr_get_def
      Let_def elim!: bindr_OkE split: if_splits option.splits)

lemma acquire_bufs: "acquire c lk s = Ok s' \<Longrightarrow> bufs s' = bufs s"
proof -
  assume a: "acquire c lk s = Ok s'"
  then have "lk_locked (locks (push_off c s) lk) = 0"
    using spin_returns_free [of lk "push_off c s"] by (auto simp: acquire_def Let_def elim!: bindr_OkE split: if_splits)
  then have "s' = set_cpu lk (Some c) (snd (test_and_set lk (push_off c s)))"
    using a by (auto simp: acquire_def Let_def spin_free split: if_splits)
  then show ?thesis by (simp add: set_cpu_def test_and_set_def push_off_def intr_off_def Let_def)
qed

text \<open>The threads that run while this one waits for the lock of buffer \<open>b\<close> leave its block alone, as they must
  while the buffer has a reference.\<close>

definition keeps_block :: "'z kbio_scheme kparam \<Rightarrow> nat \<Rightarrow> bool" where
  "keeps_block P b = (\<forall>t t'. sleep P (ChanSleepLock (BufSleepLock b)) (SleepInnerLock (BufSleepLock b)) t = Ok t' \<longrightarrow>
     b_dev (bufs t' b) = b_dev (bufs t b) \<and> b_blockno (bufs t' b) = b_blockno (bufs t b))"

lemma wait_keeps_block:
  assumes "keeps_block P b" and "acquiresleep_wait P (BufSleepLock b) s = Ok s'"
  shows "b_dev (bufs s' b) = b_dev (bufs s b) \<and> b_blockno (bufs s' b) = b_blockno (bufs s b)"
proof -
  let ?same = "\<lambda>s s'. b_dev (bufs s' b) = b_dev (bufs s b) \<and> b_blockno (bufs s' b) = b_blockno (bufs s b)"
  let ?Q = "\<lambda>((P, lk), s) r. keeps_block P b \<longrightarrow> lk = BufSleepLock b \<longrightarrow> (\<forall>s'. r = Inr s' \<longrightarrow> ?same s s')"
  have "?Q ((P, lk), s) r" if "acquiresleep_wait P lk s = Some r" for lk r
  proof (rule acquiresleep_wait.raw_induct [of ?Q, OF _ that])
    fix f P lk s r
    assume IH: "\<And>P lk s r. f P lk s = Some r \<Longrightarrow> ?Q ((P, lk), s) r"
      and e: "(if sl_locked (sleeplocks s lk) \<noteq> 0 then bindr (sleep P (ChanSleepLock lk) (SleepInnerLock lk) s) (f P lk) else Ok s) = Some r"
    show "?Q ((P, lk), s) r"
    proof (cases "sl_locked (sleeplocks s lk) \<noteq> 0")
      case True
      have "?same s s'" if h: "keeps_block P b" "lk = BufSleepLock b" "r = Inr s'" for s'
      proof -
        obtain t where t: "sleep P (ChanSleepLock lk) (SleepInnerLock lk) s = Ok t" "f P lk t = Some (Inr s')"
          using e True h(3) by (auto elim!: bindr_OkE)
        have "?same s t" using t(1) h(1,2) by (simp add: keeps_block_def)
        moreover have "?same t s'" using IH [OF t(2)] h(1,2) by simp
        ultimately show ?thesis by simp
      qed
      then show ?thesis by simp
    qed (use e in auto)
  qed
  then show ?thesis using assms by simp
qed

text \<open>A call of \<open>acquiresleep\<close> that returns, however long it waited, returns with the lock held by the caller.\<close>

lemma acquiresleep_held:
  assumes "acquiresleep P lk s = Ok s'"
  shows "sl_locked (sleeplocks s' lk) = 1"
    and "\<exists>q. cpu_proc s' (hartid s') = Some q \<and> sl_pid (sleeplocks s' lk) = p_pid (procs s' q)"
    and "lk = BufSleepLock b \<Longrightarrow> keeps_block P b \<Longrightarrow> b_dev (bufs s' b) = b_dev (bufs s b) \<and> b_blockno (bufs s' b) = b_blockno (bufs s b)"
proof -
  obtain s1 s2 p s3 where a: "acquire_k (SleepInnerLock lk) s = Ok s1" "acquiresleep_wait P lk s1 = Ok s2"
    and m: "myproc_deref (upd_sleeplock lk (\<lambda>l. l\<lparr>sl_locked := 1\<rparr>) s2) = Ok (p, s3)"
    and r: "release_k (SleepInnerLock lk) (upd_sleeplock lk (\<lambda>l. l\<lparr>sl_pid := p_pid (procs s3 p)\<rparr>) s3) = Ok s'"
    using assms unfolding acquiresleep_def Let_def by (auto elim!: bindr_OkE)
  note m = myproc_bio [OF m] and r = release_bio [OF r]
  show "sl_locked (sleeplocks s' lk) = 1" using m r by (simp add: lock_simps)
  show "\<exists>q. cpu_proc s' (hartid s') = Some q \<and> sl_pid (sleeplocks s' lk) = p_pid (procs s' q)"
    using m r by (simp add: lock_simps)
  show "b_dev (bufs s' b) = b_dev (bufs s b) \<and> b_blockno (bufs s' b) = b_blockno (bufs s b)" if "lk = BufSleepLock b" "keeps_block P b"
    using m r acquire_bufs [OF a(1)] wait_keeps_block [OF that(2) a(2) [unfolded that(1)]] by (simp add: lock_simps)
qed

lemma releasesleep_eq:
  assumes "quiet p s"
  shows "releasesleep lk s = Ok (note_intena (hartid s)
    (wake (Some (ChanSleepLock lk)) (upd_sleeplock lk (\<lambda>l. l\<lparr>sl_locked := 0, sl_pid := 0\<rparr>) s)))"
proof -
  let ?c = "hartid s" and ?e = "enter (hartid s) (SleepInnerLock lk) s"
  let ?u = "upd_sleeplock lk (\<lambda>l. l\<lparr>sl_locked := 0, sl_pid := 0\<rparr>)" and ?ch = "Some (ChanSleepLock lk)"
  have q: "lock_free l s" "intr_ok ?c s" for l using assms by (simp_all add: quiet_def)
  have g: "lockless (\<lambda>s. wake ?ch (?u s))" by (rule lockless_comp [OF lockless_updates(4) lockless_updates(1)])
  have "wakeup ?ch (?u ?e) = Ok (note_intena ?c (wake ?ch (?u ?e)))"
    using wakeup_eq [of "?u ?e" ?ch] q by (simp add: lock_simps)
  also have "note_intena ?c (wake ?ch (?u ?e)) = wake ?ch (?u ?e)"
    by (rule note_inside [OF g q(2)])
  finally have "releasesleep lk s = release ?c (SleepInnerLock lk) (wake ?ch (?u ?e))"
    unfolding releasesleep_def acquire_free [OF q(1)] bindr_simps Let_def by (simp add: lock_simps)
  then show ?thesis using release_lockless [OF q g] by simp
qed

section \<open>The list of buffers\<close>

definition linked :: "(nat \<Rightarrow> buf) \<Rightarrow> nat list \<Rightarrow> bool" where
  "linked bf = successively (\<lambda>a b. b_next (bf a) = b \<and> b_prev (bf b) = a)"

text \<open>The pointers form the list \<open>bs\<close>, from the most recently used buffer to the least.\<close>

definition lru :: "'z kbio_scheme \<Rightarrow> nat list \<Rightarrow> bool" where
  "lru s bs = (distinct bs \<and> set bs \<subseteq> {..<NBUF} \<and> linked (bufs s) (bhead # bs @ [bhead]))"

lemma linked_simps [simp]:
  "linked bf []" "linked bf [a]"
  "linked bf (a # b # xs) = (b_next (bf a) = b \<and> b_prev (bf b) = a \<and> linked bf (b # xs))"
  by (simp_all add: linked_def)

lemma linked_append:
  "linked bf (xs @ ys) = (linked bf xs \<and> linked bf ys
     \<and> (xs \<noteq> [] \<and> ys \<noteq> [] \<longrightarrow> b_next (bf (last xs)) = hd ys \<and> b_prev (bf (hd ys)) = last xs))"
  by (auto simp: linked_def successively_append_iff)

lemma linked_cong:
  "\<forall>a\<in>set (butlast xs). b_next (bf' a) = b_next (bf a) \<Longrightarrow>
   \<forall>a\<in>set (tl xs). b_prev (bf' a) = b_prev (bf a) \<Longrightarrow> linked bf xs \<Longrightarrow> linked bf' xs"
proof (induction xs)
  case Nil
  then show ?case by simp
next
  case (Cons a xs)
  then show ?case by (cases xs) (auto split: if_splits dest: list.set_sel(2))
qed

lemma buf_push_bufs:
  "bufs (buf_push b s) = (let f = b_next (bufs s bhead);
      g = (bufs s)(b := (bufs s b)\<lparr>b_next := f, b_prev := bhead\<rparr>);
      f' = b_next (g bhead); h = g(f' := (g f')\<lparr>b_prev := b\<rparr>)
    in h(bhead := (h bhead)\<lparr>b_next := b\<rparr>))"
  by (simp add: buf_push_def upd_buf_def Let_def)

lemma buf_push_lru:
  assumes "lru s bs" and "b < NBUF" and "b \<notin> set bs"
  shows "lru (buf_push b s) (b # bs)"
proof -
  have l: "distinct bs" "set bs \<subseteq> {..<NBUF}" "linked (bufs s) (bhead # bs @ [bhead])"
    using assms(1) by (auto simp: lru_def)
  have nb: "b \<noteq> bhead" using assms(2) by simp
  have "linked (bufs (buf_push b s)) (bhead # b # bs @ [bhead])"
  proof (cases bs)
    case Nil
    then show ?thesis using l(3) nb by (simp add: buf_push_bufs Let_def)
  next
    case (Cons x xs)
    have x: "x \<noteq> bhead" "x \<noteq> b" "x \<notin> set xs" "bhead \<notin> set xs" "b \<notin> set xs" "b_next (bufs s bhead) = x"
      using Cons l assms(3) by auto
    have "linked (bufs (buf_push b s)) (x # xs @ [bhead])"
    proof (rule linked_cong)
      show "linked (bufs s) (x # xs @ [bhead])" using l(3) Cons by simp
      show "\<forall>a\<in>set (butlast (x # xs @ [bhead])). b_next (bufs (buf_push b s) a) = b_next (bufs s a)"
        using x nb by (auto simp: buf_push_bufs Let_def butlast_append)
      show "\<forall>a\<in>set (tl (x # xs @ [bhead])). b_prev (bufs (buf_push b s) a) = b_prev (bufs s a)"
        using x nb by (auto simp: buf_push_bufs Let_def)
    qed
    then show ?thesis using Cons x nb by (simp add: buf_push_bufs Let_def)
  qed
  then show ?thesis using l assms(2,3) by (auto simp: lru_def)
qed

text \<open>The two assignments of \<open>brelse\<close> that take \<open>b\<close> out of the list.\<close>

definition buf_unlink :: "nat \<Rightarrow> 'z kbio_scheme \<Rightarrow> 'z kbio_scheme" where
  "buf_unlink b s =
     (let s = upd_buf (b_next (bufs s b)) (\<lambda>x. x\<lparr>b_prev := b_prev (bufs s b)\<rparr>) s
      in upd_buf (b_prev (bufs s b)) (\<lambda>x. x\<lparr>b_next := b_next (bufs s b)\<rparr>) s)"

lemma buf_unlink_lru:
  assumes "lru s bs" and "b \<in> set bs"
  shows "lru (buf_unlink b s) (remove1 b bs)"
proof -
  obtain us vs where bs: "bs = us @ b # vs" "b \<notin> set us" using assms(2) split_list_first by fast
  have l: "distinct bs" "set bs \<subseteq> {..<NBUF}" "linked (bufs s) ((bhead # us) @ b # vs @ [bhead])"
    using assms(1) bs by (auto simp: lru_def)
  define p n where "p = last (bhead # us)" and "n = hd (vs @ [bhead])"
  have pn: "b_prev (bufs s b) = p" "b_next (bufs s b) = n"
    and li: "linked (bufs s) (bhead # us)" "linked (bufs s) (vs @ [bhead])"
    using l(3) unfolding linked_append [of _ "bhead # us"] linked_append [of _ "[b]" "vs @ [bhead]", simplified]
    by (auto simp: p_def n_def)
  have nb: "b \<noteq> bhead" "bhead \<notin> set us" "bhead \<notin> set vs" "b \<notin> set vs" using l(1,2) bs by auto
  have p: "p \<in> insert bhead (set us)" "p \<notin> set vs"
    using l(1) bs nb by (cases us rule: rev_cases; auto simp: p_def)+
  have n: "n \<in> insert bhead (set vs)" "n \<notin> set us"
    using l(1) bs nb by (cases vs; auto simp: n_def)+
  have pb: "p \<noteq> b" "n \<noteq> b" using p n nb bs by auto
  define bf where "bf = bufs (buf_unlink b s)"
  have bf: "b_next (bf a) = (if a = p then n else b_next (bufs s a))"
    "b_prev (bf a) = (if a = n then p else b_prev (bufs s a))" for a
    using pb by (auto simp: bf_def buf_unlink_def upd_buf_def pn Let_def)
  have "linked bf (bhead # us)"
  proof (rule linked_cong [OF _ _ li(1)])
    have "p \<notin> set (butlast (bhead # us))"
      using l(1) bs nb by (cases us rule: rev_cases) (auto simp: p_def)
    then show "\<forall>a\<in>set (butlast (bhead # us)). b_next (bf a) = b_next (bufs s a)" by (auto simp: bf)
    show "\<forall>a\<in>set (tl (bhead # us)). b_prev (bf a) = b_prev (bufs s a)" using n by (auto simp: bf)
  qed
  moreover have "linked bf (vs @ [bhead])"
  proof (rule linked_cong [OF _ _ li(2)])
    show "\<forall>a\<in>set (butlast (vs @ [bhead])). b_next (bf a) = b_next (bufs s a)" using p by (auto simp: bf)
    have "n \<notin> set (tl (vs @ [bhead]))" using l(1) bs nb by (cases vs) (auto simp: n_def)
    then show "\<forall>a\<in>set (tl (vs @ [bhead])). b_prev (bf a) = b_prev (bufs s a)" by (auto simp: bf)
  qed
  ultimately have "linked bf ((bhead # us) @ vs @ [bhead])"
    by (simp only: linked_append [of _ "bhead # us"] p_def [symmetric] n_def [symmetric] bf simp_thms if_True)
  moreover have "remove1 b bs = us @ vs" using bs by (simp add: remove1_append)
  ultimately show ?thesis using l(1,2) bs by (auto simp: lru_def bf_def)
qed

lemma bget_cached_find:
  "linked (bufs s) (x # bs @ [bhead]) \<Longrightarrow> bhead \<notin> set bs \<Longrightarrow> bget_cached dev blockno (b_next (bufs s x)) s
    = Ok (find (\<lambda>b. b_dev (bufs s b) = dev \<and> b_blockno (bufs s b) = blockno) bs)"
proof (induction bs arbitrary: x)
  case Nil
  then show ?case by (subst bget_cached.simps) simp
next
  case (Cons b bs)
  then show ?case by (subst bget_cached.simps) auto
qed

lemma bget_unused_find:
  "linked (bufs s) (bhead # bs @ [x]) \<Longrightarrow> bhead \<notin> set bs \<Longrightarrow> bget_unused (b_prev (bufs s x)) s
    = Ok (find (\<lambda>b. b_refcnt (bufs s b) = 0) (rev bs))"
proof (induction bs arbitrary: x rule: rev_induct)
  case Nil
  then show ?case by (subst bget_unused.simps) simp
next
  case (snoc b bs)
  have "linked (bufs s) ((bhead # bs @ [b]) @ [x])" using snoc.prems by simp
  then have "linked (bufs s) (bhead # bs @ [b])" "b_prev (bufs s x) = b"
    unfolding linked_append [of _ "bhead # bs @ [b]"] by auto
  then show ?case using snoc by (subst bget_unused.simps) auto
qed

section \<open>Properties\<close>

lemma binit_step:
  "lru s bs \<Longrightarrow> b < NBUF \<Longrightarrow> b \<notin> set bs \<Longrightarrow> lru (buf_push b (initsleeplock lk name s)) (b # bs)"
  by (rule buf_push_lru) (simp_all add: lru_def initsleeplock_def initlock_def upd_sleeplock_def)

lemma binit_fold:
  "n \<le> NBUF \<Longrightarrow> lru s [] \<Longrightarrow>
   lru (fold (\<lambda>b s. buf_push b (initsleeplock (BufSleepLock b) ''buffer'' s)) [0..<n] s) (rev [0..<n])"
  by (induction n) (simp_all add: binit_step)

lemma buf_push_keeps:
  "b_refcnt (bufs (buf_push b s) x) = b_refcnt (bufs s x)" "b_dev (bufs (buf_push b s) x) = b_dev (bufs s x)"
  "b_blockno (bufs (buf_push b s) x) = b_blockno (bufs s x)" "b_valid (bufs (buf_push b s) x) = b_valid (bufs s x)"
  by (simp_all add: buf_push_bufs Let_def)

lemma buf_unlink_keeps:
  "b_refcnt (bufs (buf_unlink b s) x) = b_refcnt (bufs s x)" "b_dev (bufs (buf_unlink b s) x) = b_dev (bufs s x)"
  "b_blockno (bufs (buf_unlink b s) x) = b_blockno (bufs s x)" "b_valid (bufs (buf_unlink b s) x) = b_valid (bufs s x)"
  by (simp_all add: buf_unlink_def upd_buf_def Let_def)

lemma buf_list_kernel [lock_simps]:
  "hartid (buf_push b s) = hartid s" "hartid (buf_unlink b s) = hartid s"
  "sleeplocks (buf_push b s) = sleeplocks s" "sleeplocks (buf_unlink b s) = sleeplocks s"
  by (simp_all add: buf_push_def buf_unlink_def upd_buf_def Let_def)

definition buf_release :: "nat \<Rightarrow> 'z kbio_scheme \<Rightarrow> 'z kbio_scheme" where
  "buf_release b s =
     (let s = upd_buf b (\<lambda>x. x\<lparr>b_refcnt := (b_refcnt x + 2 ^ 32 - 1) mod 2 ^ 32\<rparr>) s
      in if b_refcnt (bufs s b) = 0 then buf_push b (buf_unlink b s) else s)"

lemma buf_release_lockless: "lockless (buf_release b)"
  by (simp add: lockless_def buf_release_def buf_unlink_def buf_push_def upd_buf_def Let_def)

lemma brelse_eq:
  assumes "quiet p s" and "sl_locked (sleeplocks s (BufSleepLock b)) \<noteq> 0"
    and "sl_pid (sleeplocks s (BufSleepLock b)) = p_pid (procs s p)"
  shows "brelse b s = Ok (note_intena (hartid s) (buf_release b (wake (Some (ChanSleepLock (BufSleepLock b)))
    (upd_sleeplock (BufSleepLock b) (\<lambda>l. l\<lparr>sl_locked := 0, sl_pid := 0\<rparr>) s))))"
proof -
  let ?c = "hartid s" and ?N = "note_intena (hartid s)" and ?lk = "BufSleepLock b"
  let ?g = "\<lambda>s. wake (Some (ChanSleepLock ?lk)) (upd_sleeplock ?lk (\<lambda>l. l\<lparr>sl_locked := 0, sl_pid := 0\<rparr>) s)"
  have g: "lockless ?g" by (rule lockless_comp [OF lockless_updates(4) lockless_updates(1)])
  have q: "lock_free l (?g s)" "intr_ok ?c (?g s)" for l
    using assms(1) by (simp_all add: quiet_def lock_simps)
  have rel: "releasesleep ?lk (?N s) = Ok (?N (?g s))"
    using releasesleep_eq [of p "?N s" ?lk] assms(1) note_lockless [OF g] by (simp add: lock_simps)
  let ?e = "enter ?c BcacheLock (?N (?g s))"
  have "brelse b s = release ?c BcacheLock (buf_release b ?e)"
    unfolding brelse_def holdingsleep_eq [OF assms(1)] using assms(2,3) rel q
    by (simp add: lock_simps buf_release_def buf_unlink_def Let_def)
  also have "\<dots> = Ok (?N (buf_release b (?N (?g s))))"
    by (rule release_lockless [OF _ _ buf_release_lockless]) (use assms(1) in \<open>simp_all add: quiet_def lock_simps\<close>)
  finally show ?thesis by (simp only: note_lockless [OF buf_release_lockless])
qed

lemma buf_release_bufs:
  assumes "lru s bs" and "b \<in> set bs" and "0 < b_refcnt (bufs s b)" and "b_refcnt (bufs s b) < 2 ^ 32"
  shows "lru (buf_release b s) (if b_refcnt (bufs s b) = 1 then b # remove1 b bs else bs)"
    and "b_refcnt (bufs (buf_release b s) x) = (if x = b then b_refcnt (bufs s b) - 1 else b_refcnt (bufs s x))"
    and "b_dev (bufs (buf_release b s) x) = b_dev (bufs s x)"
    and "b_blockno (bufs (buf_release b s) x) = b_blockno (bufs s x)"
    and "b_valid (bufs (buf_release b s) x) = b_valid (bufs s x)"
proof -
  let ?r = "b_refcnt (bufs s b)"
  have "(?r + 2 ^ 32 - 1) mod 2 ^ 32 = ((?r - 1) + 2 ^ 32) mod 2 ^ 32" using assms(3) by simp
  then have m: "(?r + 2 ^ 32 - 1) mod 2 ^ 32 = ?r - 1" using assms(4) by simp
  define s1 where "s1 = upd_buf b (\<lambda>x. x\<lparr>b_refcnt := ?r - 1\<rparr>) s"
  have s1: "upd_buf b (\<lambda>x. x\<lparr>b_refcnt := (b_refcnt x + 2 ^ 32 - 1) mod 2 ^ 32\<rparr>) s = s1"
    by (simp only: s1_def upd_buf_def m)
  have ref: "b_refcnt (bufs s1 x) = (if x = b then ?r - 1 else b_refcnt (bufs s x))" for x
    by (simp add: s1_def lock_simps)
  have rel: "buf_release b s = (if ?r = 1 then buf_push b (buf_unlink b s1) else s1)"
    using assms(3) by (simp only: buf_release_def Let_def s1 ref) auto
  have "linked (bufs s1) (bhead # bs @ [bhead])"
    by (rule linked_cong [of _ _ "bufs s"]) (use assms(1) in \<open>auto simp: s1_def lock_simps lru_def\<close>)
  then have l: "lru s1 bs" using assms(1) by (simp add: lru_def)
  have "lru (buf_push b (buf_unlink b s1)) (b # remove1 b bs)"
    using buf_unlink_lru [OF l assms(2)] assms(1,2) by (intro buf_push_lru) (auto simp: lru_def)
  then show "lru (buf_release b s) (if ?r = 1 then b # remove1 b bs else bs)" using l by (simp add: rel)
  show "b_refcnt (bufs (buf_release b s) x) = (if x = b then ?r - 1 else b_refcnt (bufs s x))"
    "b_dev (bufs (buf_release b s) x) = b_dev (bufs s x)"
    "b_blockno (bufs (buf_release b s) x) = b_blockno (bufs s x)"
    "b_valid (bufs (buf_release b s) x) = b_valid (bufs s x)"
    by (simp_all add: rel buf_push_keeps buf_unlink_keeps ref) (simp_all add: s1_def lock_simps)
qed

lemma lru_bufs: "bufs s' = bufs s \<Longrightarrow> lru s' bs = lru s bs"
  by (simp add: lru_def)

text \<open>C31. The pointers of the buffer cache implement a list in the order of last use. \<open>binit\<close> links all
  30 buffers; \<open>brelse\<close> by the process that holds the buffer returns, unlocks it, drops one
  reference and, when that was the last, moves the buffer to the front of the list and changes
  nothing else of the buffers; by any other process it panics.\<close>

theorem brelse_lru:
  assumes "quiet p s" and "lru s bs" and "b \<in> set bs" and "0 < b_refcnt (bufs s b)" and "b_refcnt (bufs s b) < 2 ^ 32"
  shows "lru (binit t) (rev [0..<NBUF])
    \<and> (if sl_locked (sleeplocks s (BufSleepLock b)) \<noteq> 0 \<and> sl_pid (sleeplocks s (BufSleepLock b)) = p_pid (procs s p)
       then \<exists>s'. brelse b s = Ok s' \<and> sl_locked (sleeplocks s' (BufSleepLock b)) = 0 \<and> locks s' = locks s
         \<and> lru s' (if b_refcnt (bufs s b) = 1 then b # remove1 b bs else bs)
         \<and> (\<forall>x. b_refcnt (bufs s' x) = (if x = b then b_refcnt (bufs s b) - 1 else b_refcnt (bufs s x))
              \<and> b_dev (bufs s' x) = b_dev (bufs s x) \<and> b_blockno (bufs s' x) = b_blockno (bufs s x)
              \<and> b_valid (bufs s' x) = b_valid (bufs s x))
       else brelse b s = Err (Panic ''brelse''))"
proof (intro conjI)
  show "lru (binit t) (rev [0..<NBUF])"
    unfolding binit_def Let_def by (rule binit_fold) (simp_all add: lru_def lock_simps)
  let ?held = "sl_locked (sleeplocks s (BufSleepLock b)) \<noteq> 0 \<and> sl_pid (sleeplocks s (BufSleepLock b)) = p_pid (procs s p)"
  let ?u = "wake (Some (ChanSleepLock (BufSleepLock b)))
    (upd_sleeplock (BufSleepLock b) (\<lambda>l. l\<lparr>sl_locked := 0, sl_pid := 0\<rparr>) s)"
  let ?s' = "note_intena (hartid s) (buf_release b ?u)"
  have u: "bufs ?u = bufs s" by (simp add: lock_simps)
  then have lu: "lru ?u bs" using assms(2) lru_bufs by blast
  note rel = buf_release_bufs [OF lu assms(3), unfolded u, OF assms(4,5)]
  have sl: "sleeplocks (buf_release b ?u) = sleeplocks ?u"
    by (simp add: buf_release_def Let_def lock_simps)
  have lk: "locks ?s' = locks s"
    using lockless_same [OF buf_release_lockless, of b ?u] by (simp add: lock_simps lockless_updates [THEN lockless_same])
  have l': "lru ?s' (if b_refcnt (bufs s b) = 1 then b # remove1 b bs else bs)"
    using rel(1) by (simp only: lru_def note_intena_bio)
  show "if ?held then \<exists>s'. brelse b s = Ok s' \<and> sl_locked (sleeplocks s' (BufSleepLock b)) = 0 \<and> locks s' = locks s
         \<and> lru s' (if b_refcnt (bufs s b) = 1 then b # remove1 b bs else bs)
         \<and> (\<forall>x. b_refcnt (bufs s' x) = (if x = b then b_refcnt (bufs s b) - 1 else b_refcnt (bufs s x))
              \<and> b_dev (bufs s' x) = b_dev (bufs s x) \<and> b_blockno (bufs s' x) = b_blockno (bufs s x)
              \<and> b_valid (bufs s' x) = b_valid (bufs s x))
       else brelse b s = Err (Panic ''brelse'')"
  proof (cases ?held)
    case True
    have eq: "brelse b s = Ok ?s'" using brelse_eq [OF assms(1)] True by blast
    show ?thesis using True eq l' lk rel(2-5)
      by (simp only: if_True simp_thms) (intro exI [of _ ?s'], simp add: lock_simps sl)
  next
    case False
    then have "brelse b s = Err (Panic ''brelse'')"
      unfolding brelse_def holdingsleep_eq [OF assms(1)] by auto
    then show ?thesis using False by (simp only: if_False)
  qed
qed

lemma find_in_set: "find P xs = Some x \<Longrightarrow> x \<in> set xs \<and> P x"
  by (induction xs) (auto split: if_splits)

text \<open>Each block of a device has at most one buffer. The buffers of device 0 are those never used.\<close>

definition one_buffer :: "'z kbio_scheme \<Rightarrow> nat list \<Rightarrow> bool" where
  "one_buffer s bs = inj_on (\<lambda>b. (b_dev (bufs s b), b_blockno (bufs s b))) {b \<in> set bs. b_dev (bufs s b) \<noteq> 0}"

definition cached :: "nat \<Rightarrow> nat \<Rightarrow> 'z kbio_scheme \<Rightarrow> nat list \<Rightarrow> nat option" where
  "cached dev blockno s bs = find (\<lambda>b. b_dev (bufs s b) = dev \<and> b_blockno (bufs s b) = blockno) bs"

definition recyclable :: "'z kbio_scheme \<Rightarrow> nat list \<Rightarrow> nat option" where
  "recyclable s bs = find (\<lambda>b. b_refcnt (bufs s b) = 0) (rev bs)"

text \<open>What \<open>bget\<close> does to the buffer it returns.\<close>

definition bget_update :: "nat \<Rightarrow> nat \<Rightarrow> nat \<Rightarrow> bool \<Rightarrow> 'z kbio_scheme \<Rightarrow> 'z kbio_scheme" where
  "bget_update dev blockno b hit s =
     (if hit then upd_buf b (\<lambda>x. x\<lparr>b_refcnt := (b_refcnt x + 1) mod 2 ^ 32\<rparr>) s
      else upd_buf b (\<lambda>x. x\<lparr>b_dev := dev, b_blockno := blockno, b_valid := 0, b_refcnt := 1\<rparr>) s)"

lemma bget_update_lockless: "lockless (bget_update dev blockno b hit)"
  by (simp add: lockless_def bget_update_def upd_buf_def)

lemma bget_update_bio [lock_simps]:
  "hartid (bget_update dev blockno b hit s) = hartid s" "cpu_proc (bget_update dev blockno b hit s) = cpu_proc s"
  "procs (bget_update dev blockno b hit s) = procs s" "sleeplocks (bget_update dev blockno b hit s) = sleeplocks s"
  by (simp_all add: bget_update_def upd_buf_def)

lemma bget_waits:
  assumes "quiet p s" and "lru s bs"
  shows "bget P dev blockno s =
    (case (case cached dev blockno s bs of Some b \<Rightarrow> Some (b, True)
           | None \<Rightarrow> map_option (\<lambda>b. (b, False)) (recyclable s bs)) of
       None \<Rightarrow> Err (Panic ''bget: no buffers'')
     | Some (b, hit) \<Rightarrow> bindr (acquiresleep P (BufSleepLock b) (note_intena (hartid s) (bget_update dev blockno b hit s)))
         (\<lambda>s. Ok (b, s)))"
proof -
  let ?c = "hartid s" and ?N = "note_intena (hartid s)" and ?e = "enter (hartid s) BcacheLock s"
  have q: "lock_free l s" "intr_ok ?c s" for l using assms(1) by (simp_all add: quiet_def)
  have l: "linked (bufs ?e) (bhead # bs @ [bhead])" "bhead \<notin> set bs"
    using assms(2) by (auto simp: lru_def lock_simps)
  have c: "bget_cached dev blockno (b_next (bufs ?e bhead)) ?e = Ok (cached dev blockno s bs)"
    using bget_cached_find [OF l] by (simp add: cached_def lock_simps)
  have r: "bget_unused (b_prev (bufs ?e bhead)) ?e = Ok (recyclable s bs)"
    using bget_unused_find [OF l] by (simp add: recyclable_def lock_simps)
  have fin: "bindr (release (hartid (bget_update dev blockno b hit ?e)) BcacheLock (bget_update dev blockno b hit ?e))
        (\<lambda>s. bindr (acquiresleep P (BufSleepLock b) s) (\<lambda>s. Ok (b, s)))
      = bindr (acquiresleep P (BufSleepLock b) (?N (bget_update dev blockno b hit s))) (\<lambda>s. Ok (b, s))" for b hit
    using release_lockless [OF q bget_update_lockless] by (simp add: lock_simps)
  show ?thesis
  proof (cases "cached dev blockno s bs")
    case (Some b)
    then show ?thesis
      using fin [of b True] unfolding bget_def acquire_free [OF q(1)] bindr_simps c
      by (simp add: bget_update_def Let_def)
  next
    case None
    then show ?thesis
      using fin [of "the (recyclable s bs)" False] unfolding bget_def acquire_free [OF q(1)] bindr_simps c
      by (cases "recyclable s bs") (simp_all add: bget_update_def Let_def r)
  qed
qed

lemma bget_update_quiet: "quiet p s \<Longrightarrow> quiet p (note_intena (hartid s) (bget_update dev blockno b hit s))"
  by (simp add: quiet_def lock_simps lockless_free [OF bget_update_lockless] lockless_intr [OF bget_update_lockless])

text \<open>With the lock of the buffer free, \<open>bget\<close> does not wait.\<close>

lemma bget_at_once:
  assumes "quiet p s" and "sl_locked (sleeplocks s (BufSleepLock b)) = 0"
  shows "acquiresleep P (BufSleepLock b) (note_intena (hartid s) (bget_update dev blockno b hit s))
    = Ok (note_intena (hartid s) (upd_sleeplock (BufSleepLock b)
        (\<lambda>l. l\<lparr>sl_locked := 1, sl_pid := p_pid (procs s p)\<rparr>) (bget_update dev blockno b hit s)))"
proof -
  have "sl_locked (sleeplocks (note_intena (hartid s) (bget_update dev blockno b hit s)) (BufSleepLock b)) = 0"
    using assms(2) by (simp add: lock_simps)
  then show ?thesis
    using acquiresleep_eq [OF bget_update_quiet [OF assms(1)]] note_lockless [OF lockless_updates(1)]
    by (simp add: lock_simps)
qed

lemma bget_update_lru: "lru s bs \<Longrightarrow> lru (bget_update dev blockno b hit s) bs"
  by (auto simp: lru_def bget_update_def upd_buf_def intro: linked_cong [rotated 2])

lemma bget_update_one:
  assumes "one_buffer s bs" and "b \<in> set bs"
    and "if hit then b_dev (bufs s b) = dev \<and> b_blockno (bufs s b) = blockno else cached dev blockno s bs = None"
  shows "one_buffer (bget_update dev blockno b hit s) bs"
proof (cases hit)
  case True
  then show ?thesis using assms(1) by (auto simp: one_buffer_def bget_update_def upd_buf_def inj_on_def split: if_splits)
next
  case False
  then have "\<forall>x\<in>set bs. \<not> (b_dev (bufs s x) = dev \<and> b_blockno (bufs s x) = blockno)"
    using assms(3) by (simp add: cached_def find_None_iff)
  then show ?thesis using False assms(1)
    by (auto simp: one_buffer_def bget_update_def upd_buf_def inj_on_def split: if_splits)
qed

text \<open>The state between the two halves of \<open>bget\<close>, when \<open>bcache.lock\<close> has been released: buffer \<open>b\<close> is chosen
  for the block and referenced, and no lock and no other buffer has changed.\<close>

definition bget_chosen :: "nat \<Rightarrow> nat \<Rightarrow> nat list \<Rightarrow> nat \<Rightarrow> 'z kbio_scheme \<Rightarrow> 'z kbio_scheme \<Rightarrow> bool" where
  "bget_chosen dev blockno bs b s s' =
    (b \<in> set bs \<and> lru s' bs \<and> one_buffer s' bs \<and> b_dev (bufs s' b) = dev \<and> b_blockno (bufs s' b) = blockno
     \<and> (case cached dev blockno s bs of
          Some b' \<Rightarrow> b = b' \<and> b_refcnt (bufs s' b) = (b_refcnt (bufs s b) + 1) mod 2 ^ 32 \<and> b_valid (bufs s' b) = b_valid (bufs s b)
        | None \<Rightarrow> recyclable s bs = Some b \<and> b_refcnt (bufs s b) = 0 \<and> b_refcnt (bufs s' b) = 1 \<and> b_valid (bufs s' b) = 0)
     \<and> (\<forall>x. x \<noteq> b \<longrightarrow> bufs s' x = bufs s x \<and> sleeplocks s' (BufSleepLock x) = sleeplocks s (BufSleepLock x)))"

lemma bget_chosen_update:
  assumes "lru s bs" and "one_buffer s bs"
    and "cached dev blockno s bs = (if hit then Some b else None)" and "hit \<or> recyclable s bs = Some b"
  shows "bget_chosen dev blockno bs b s (bget_update dev blockno b hit s)"
proof -
  have b: "b \<in> set bs" "hit \<Longrightarrow> b_dev (bufs s b) = dev \<and> b_blockno (bufs s b) = blockno" "\<not> hit \<Longrightarrow> b_refcnt (bufs s b) = 0"
    using assms(3,4) by (auto simp: cached_def recyclable_def dest: find_in_set split: if_splits)
  have "one_buffer (bget_update dev blockno b hit s) bs"
    using assms(3) b by (intro bget_update_one [OF assms(2)]) auto
  then show ?thesis
    using assms(3,4) b bget_update_lru [OF assms(1)]
    by (cases hit) (simp_all add: bget_chosen_def, simp_all add: bget_update_def lock_simps)
qed

lemma bget_chosen_same:
  "bufs t = bufs s' \<Longrightarrow> \<forall>x. x \<noteq> b \<longrightarrow> sleeplocks t (BufSleepLock x) = sleeplocks s' (BufSleepLock x) \<Longrightarrow>
   bget_chosen dev blockno bs b s s' \<Longrightarrow> bget_chosen dev blockno bs b s t"
  by (simp add: bget_chosen_def lru_def one_buffer_def split: option.splits)

text \<open>C32. \<open>bget\<close> of a block panics exactly when no buffer caches the block and every buffer has a
  reference. Otherwise it chooses the buffer that caches the block, with one more reference, or
  else the least recently used buffer without references, marked invalid, for the block; the
  order of the list does not change, a block never gets two buffers, and no other buffer or
  lock changes. Then it takes the sleep lock of the chosen buffer: at once when that is free,
  whatever other buffers are locked, and with the lock held by the caller. When it is not free
  the call waits in \<open>acquiresleep\<close>, in a state where the buffer is already chosen and
  referenced; and however long it waits, a call that returns returns the chosen buffer, with its
  sleep lock held by the process that runs, and with the block it was asked for as long as the
  threads that ran meanwhile leave the block of a referenced buffer alone.\<close>

theorem bget_one_buffer:
  assumes "quiet p s" and "lru s bs" and "one_buffer s bs"
  shows "if cached dev blockno s bs = None \<and> recyclable s bs = None
    then bget P dev blockno s = Err (Panic ''bget: no buffers'')
    else \<exists>b. (if sl_locked (sleeplocks s (BufSleepLock b)) = 0
        then \<exists>s'. bget P dev blockno s = Ok (b, s') \<and> bget_chosen dev blockno bs b s s'
          \<and> sleeplocks s' (BufSleepLock b) = (sleeplocks s (BufSleepLock b))\<lparr>sl_locked := 1, sl_pid := p_pid (procs s p)\<rparr>
        else \<exists>s1. bget_chosen dev blockno bs b s s1 \<and> sleeplocks s1 = sleeplocks s
          \<and> bget P dev blockno s = bindr (acquiresleep P (BufSleepLock b) s1) (\<lambda>s. Ok (b, s)))
      \<and> (\<forall>b' s'. bget P dev blockno s = Ok (b', s') \<longrightarrow> b' = b \<and> sl_locked (sleeplocks s' (BufSleepLock b)) = 1
          \<and> (\<exists>q. cpu_proc s' (hartid s') = Some q \<and> sl_pid (sleeplocks s' (BufSleepLock b)) = p_pid (procs s' q))
          \<and> (keeps_block P b \<longrightarrow> b_dev (bufs s' b) = dev \<and> b_blockno (bufs s' b) = blockno))"
proof (cases "cached dev blockno s bs = None \<and> recyclable s bs = None")
  case True
  then show ?thesis using bget_waits [OF assms(1,2)] by simp
next
  case False
  obtain hit b where c: "cached dev blockno s bs = (if hit then Some b else None)" "hit \<or> recyclable s bs = Some b"
  proof (cases "cached dev blockno s bs")
    case (Some b)
    then show ?thesis using that [of True b] by simp
  next
    case None
    then show ?thesis using that [of False "the (recyclable s bs)"] False by auto
  qed
  let ?s1 = "note_intena (hartid s) (bget_update dev blockno b hit s)"
  have w: "bget P dev blockno s = bindr (acquiresleep P (BufSleepLock b) ?s1) (\<lambda>s. Ok (b, s))"
    using bget_waits [OF assms(1,2), of P dev blockno] c by (cases hit) simp_all
  have ch: "bget_chosen dev blockno bs b s ?s1"
    by (rule bget_chosen_same [OF _ _ bget_chosen_update [OF assms(2,3) c]]) (simp_all add: lock_simps)
  have returns: "b' = b \<and> sl_locked (sleeplocks s' (BufSleepLock b)) = 1
      \<and> (\<exists>q. cpu_proc s' (hartid s') = Some q \<and> sl_pid (sleeplocks s' (BufSleepLock b)) = p_pid (procs s' q))
      \<and> (keeps_block P b \<longrightarrow> b_dev (bufs s' b) = dev \<and> b_blockno (bufs s' b) = blockno)"
    if "bget P dev blockno s = Ok (b', s')" for b' s'
  proof -
    have a: "acquiresleep P (BufSleepLock b) ?s1 = Ok s'" "b' = b" using that w by (auto elim!: bindr_OkE)
    show ?thesis using acquiresleep_held [OF a(1)] a(2) ch by (simp add: bget_chosen_def)
  qed
  have "if sl_locked (sleeplocks s (BufSleepLock b)) = 0
      then \<exists>s'. bget P dev blockno s = Ok (b, s') \<and> bget_chosen dev blockno bs b s s'
        \<and> sleeplocks s' (BufSleepLock b) = (sleeplocks s (BufSleepLock b))\<lparr>sl_locked := 1, sl_pid := p_pid (procs s p)\<rparr>
      else \<exists>s1. bget_chosen dev blockno bs b s s1 \<and> sleeplocks s1 = sleeplocks s
        \<and> bget P dev blockno s = bindr (acquiresleep P (BufSleepLock b) s1) (\<lambda>s. Ok (b, s))"
  proof (cases "sl_locked (sleeplocks s (BufSleepLock b)) = 0")
    case True
    let ?s' = "note_intena (hartid s) (upd_sleeplock (BufSleepLock b)
        (\<lambda>l. l\<lparr>sl_locked := 1, sl_pid := p_pid (procs s p)\<rparr>) (bget_update dev blockno b hit s))"
    have "bget_chosen dev blockno bs b s ?s'"
      by (rule bget_chosen_same [OF _ _ ch]) (simp_all add: lock_simps)
    then have "\<exists>s'. bget P dev blockno s = Ok (b, s') \<and> bget_chosen dev blockno bs b s s'
        \<and> sleeplocks s' (BufSleepLock b) = (sleeplocks s (BufSleepLock b))\<lparr>sl_locked := 1, sl_pid := p_pid (procs s p)\<rparr>"
      using w bget_at_once [OF assms(1) True, of P dev blockno hit]
      by (intro exI [of _ ?s']) (simp add: lock_simps)
    then show ?thesis by (simp only: if_P [OF True])
  next
    case False
    then show ?thesis using w ch by (auto simp: lock_simps)
  qed
  then show ?thesis using returns by (simp only: if_not_P [OF False]) blast
qed

text \<open>For the witnesses: a cache of one buffer, of block 7 of device 1, with one reference; \<open>l\<close> tells
  whether its sleep lock is held, by the process with id 1.\<close>

definition one_buf :: "nat \<Rightarrow> kbio" where
  "one_buf l = idle (kbio.fields (\<lambda>_. \<lparr>sl_locked = l, sl_name = [], sl_pid = 1\<rparr>)
     (\<lambda>b. \<lparr>b_valid = 1, b_disk = 0, b_dev = 1, b_blockno = 7, b_refcnt = 1,
           b_prev = (if b = bhead then 0 else bhead), b_next = (if b = bhead then 0 else bhead)\<rparr>))"

lemma one_buf_simps [simp]:
  "sleeplocks (one_buf l) lk = \<lparr>sl_locked = l, sl_name = [], sl_pid = 1\<rparr>"
  "bufs (one_buf l) b = \<lparr>b_valid = 1, b_disk = 0, b_dev = 1, b_blockno = 7, b_refcnt = 1,
           b_prev = (if b = bhead then 0 else bhead), b_next = (if b = bhead then 0 else bhead)\<rparr>"
  "procs (one_buf l) = idle_procs" "hartid (one_buf l) = 0"
  by (simp_all add: one_buf_def idle_def kbio.defs)

lemma one_buf_ok: "quiet 0 (one_buf l)" "lru (one_buf l) [0]" "one_buffer (one_buf l) [0]"
  by (simp_all add: quiet_def lru_def one_buffer_def) (simp_all add: one_buf_def)

theorem brelse_lru_witness:
  "\<exists>s'. brelse 0 (one_buf 1) = Ok s' \<and> lru s' [0] \<and> b_refcnt (bufs s' 0) = 0
    \<and> sl_locked (sleeplocks s' (BufSleepLock 0)) = 0"
  using brelse_lru [of 0 "one_buf 1" "[0]" 0 "one_buf 1"] by (auto simp: one_buf_ok idle_procs_def)

theorem bget_one_buffer_witness:
  "\<forall>P. (\<exists>s'. bget P 1 7 (one_buf 0) = Ok (0, s') \<and> b_refcnt (bufs s' 0) = 2
      \<and> sl_locked (sleeplocks s' (BufSleepLock 0)) = 1)
    \<and> (\<exists>s1. bget P 1 7 (one_buf 1) = bindr (acquiresleep P (BufSleepLock 0) s1) (\<lambda>s. Ok (0, s)) \<and> b_refcnt (bufs s1 0) = 2)
    \<and> bget P 1 8 (one_buf 1) = Err (Panic ''bget: no buffers'')"
proof
  fix P
  have c: "cached 1 7 (one_buf l) [0] = Some 0" "cached 1 8 (one_buf l) [0] = None" "recyclable (one_buf l) [0] = None" for l
    by (simp_all add: cached_def recyclable_def)
  have ch: "b = 0 \<and> b_refcnt (bufs s' 0) = 2" if "bget_chosen 1 7 [0] b (one_buf l) s'" for b l s'
    using that unfolding bget_chosen_def c by auto
  note get = bget_one_buffer [OF one_buf_ok, where P = P]
  have "\<exists>s'. bget P 1 7 (one_buf 0) = Ok (0, s') \<and> b_refcnt (bufs s' 0) = 2 \<and> sl_locked (sleeplocks s' (BufSleepLock 0)) = 1"
    using get [of 1 7 0] ch [of _ 0] unfolding c by (fastforce simp del: One_nat_def)
  moreover have "\<exists>s1. bget P 1 7 (one_buf 1) = bindr (acquiresleep P (BufSleepLock 0) s1) (\<lambda>s. Ok (0, s)) \<and> b_refcnt (bufs s1 0) = 2"
    using get [of 1 7 1] ch [of _ 1] unfolding c by (fastforce simp del: One_nat_def)
  moreover have "bget P 1 8 (one_buf 1) = Err (Panic ''bget: no buffers'')"
    using get [of 1 8 1] unfolding c by simp
  ultimately show "(\<exists>s'. bget P 1 7 (one_buf 0) = Ok (0, s') \<and> b_refcnt (bufs s' 0) = 2
      \<and> sl_locked (sleeplocks s' (BufSleepLock 0)) = 1)
    \<and> (\<exists>s1. bget P 1 7 (one_buf 1) = bindr (acquiresleep P (BufSleepLock 0) s1) (\<lambda>s. Ok (0, s)) \<and> b_refcnt (bufs s1 0) = 2)
    \<and> bget P 1 8 (one_buf 1) = Err (Panic ''bget: no buffers'')" by blast
qed

end
