(* ===== verification/Log_Props.thy ===== *)
theory Log_Props
  imports Log Bio_Props
begin

text \<open>
  The bookkeeping of the redo log: \<open>begin_op\<close> reserves room for a transaction, and \<open>log_write\<close>
  records a block once, however often it is written.
\<close>

lemma enter_log [lock_simps]:
  "lh_n (enter c lk s) = lh_n s" "lh_block (enter c lk s) = lh_block s"
  "log_outstanding (enter c lk s) = log_outstanding s" "log_committing (enter c lk s) = log_committing s"
  by (simp_all add: enter_def push_off_def intr_off_def Let_def)

lemma note_intena_log [lock_simps]:
  "lh_n (note_intena c s) = lh_n s" "lh_block (note_intena c s) = lh_block s"
  "log_outstanding (note_intena c s) = log_outstanding s" "log_committing (note_intena c s) = log_committing s"
  by (simp_all add: note_intena_def)

lemma upd_buf_log [lock_simps]:
  "lh_n (upd_buf b f s) = lh_n s" "lh_block (upd_buf b f s) = lh_block s"
  "log_outstanding (upd_buf b f s) = log_outstanding s" "log_committing (upd_buf b f s) = log_committing s"
  by (simp_all add: upd_buf_def)

section \<open>Writing\<close>

text \<open>The numbers of the blocks in the log.\<close>

definition logged :: "'z klog_scheme \<Rightarrow> nat list" where
  "logged s = map (\<lambda>i. u32 (lh_block s i)) [0..<nat (lh_n s)]"

lemma u32_i32: "n < 2 ^ 32 \<Longrightarrow> u32 (i32 (int n)) = n"
  by (simp add: u32_def i32_def mod_diff_left_eq)

lemma log_find_eq:
  assumes "int i \<le> lh_n s" and "lh_n s \<le> LOGBLOCKS"
  shows "\<exists>j. log_find bno i s = Ok j \<and> i \<le> j \<and> int j \<le> lh_n s \<and> (\<forall>k. i \<le> k \<and> k < j \<longrightarrow> u32 (lh_block s k) \<noteq> bno)
    \<and> (int j < lh_n s \<longrightarrow> u32 (lh_block s j) = bno)"
  using assms(1)
proof (induction "nat (lh_n s - int i)" arbitrary: i)
  case 0
  then show ?case by (subst log_find.simps) auto
next
  case (Suc d)
  then have lt: "int i < lh_n s" by simp
  then have get: "lh_get i s = Ok (lh_block s i)" using assms(2) by (simp add: lh_get_def)
  show ?case
  proof (cases "u32 (lh_block s i) = bno")
    case True
    then show ?thesis using lt get by (subst log_find.simps) auto
  next
    case False
    have "d = nat (lh_n s - int (i + 1))" "int (i + 1) \<le> lh_n s" using Suc.hyps(2) lt by auto
    from Suc.hyps(1) [OF this] obtain j where j: "log_find bno (i + 1) s = Ok j" "i + 1 \<le> j" "int j \<le> lh_n s"
      "\<forall>k. i + 1 \<le> k \<and> k < j \<longrightarrow> u32 (lh_block s k) \<noteq> bno" "int j < lh_n s \<longrightarrow> u32 (lh_block s j) = bno" by blast
    have "log_find bno i s = Ok j" using lt get False j(1) by (subst log_find.simps) simp
    moreover have "u32 (lh_block s k) \<noteq> bno" if "i \<le> k" "k < j" for k
      using that False j(4) by (cases "k = i") auto
    ultimately show ?thesis using j by auto
  qed
qed

text \<open>What \<open>log_write\<close> does with the entry \<open>i\<close> it found for the block of \<open>b\<close>.\<close>

definition log_record :: "nat \<Rightarrow> nat \<Rightarrow> 'z klog_scheme \<Rightarrow> 'z klog_scheme" where
  "log_record b i s =
     (let s1 = s\<lparr>lh_block := (lh_block s)(i := i32 (int (b_blockno (bufs s b))))\<rparr>
      in if int i = lh_n s
         then (upd_buf b (\<lambda>x. x\<lparr>b_refcnt := (b_refcnt x + 1) mod 2 ^ 32\<rparr>) s1)\<lparr>lh_n := lh_n s + 1\<rparr>
         else s1)"

lemma log_record_lockless: "lockless (log_record b i)"
  by (simp add: lockless_def log_record_def upd_buf_def Let_def)

lemma bpin_inside:
  assumes "lock_free BcacheLock s" and "lock_free lk s" and "lk \<noteq> BcacheLock" and "intr_ok (hartid s) s"
    and "lockless g" and "\<And>s. hartid (g s) = hartid s"
  shows "bpin b (g (enter (hartid s) lk s))
    = Ok (upd_buf b (\<lambda>x. x\<lparr>b_refcnt := (b_refcnt x + 1) mod 2 ^ 32\<rparr>) (g (enter (hartid s) lk s)))"
proof -
  let ?c = "hartid s" and ?e = "g (enter (hartid s) lk s)" and ?u = "upd_buf b (\<lambda>x. x\<lparr>b_refcnt := (b_refcnt x + 1) mod 2 ^ 32\<rparr>)"
  have h: "hartid ?e = ?c" using assms(6) by (simp add: lock_simps)
  have f: "lock_free BcacheLock ?e" using assms(1,3) by (simp add: lockless_free [OF assms(5)] lock_simps)
  have i: "intr_ok ?c ?e" using assms(4) by (simp add: lockless_intr [OF assms(5)] lock_simps)
  have "note_intena ?c (?u ?e) = ?u ?e"
    using note_inside [OF lockless_comp [OF lockless_updates(2) assms(5)] assms(4)] .
  then show ?thesis
    using release_lockless [OF f i lockless_updates(2)] acquire_free [OF f, of ?c] by (simp add: bpin_def h lock_simps)
qed

lemma log_write_eq:
  assumes "quiet p s" and "0 \<le> lh_n s" and "lh_n s < LOGBLOCKS" and "1 \<le> log_outstanding s"
    and "log_find (b_blockno (bufs s b)) 0 (enter (hartid s) LogLock s) = Ok i" and "int i \<le> lh_n s"
  shows "log_write b s = Ok (note_intena (hartid s) (log_record b i s))"
proof -
  let ?c = "hartid s" and ?e = "enter (hartid s) LogLock s"
  let ?g = "\<lambda>s. s\<lparr>lh_block := (lh_block s)(i := i32 (int (b_blockno (bufs s b))))\<rparr>"
  have q: "lock_free l s" "intr_ok ?c s" for l using assms(1) by (simp_all add: quiet_def)
  have g: "lockless ?g" by (simp add: lockless_def)
  have pin: "bpin b (?g ?e) = Ok (upd_buf b (\<lambda>x. x\<lparr>b_refcnt := (b_refcnt x + 1) mod 2 ^ 32\<rparr>) (?g ?e))"
    by (rule bpin_inside [OF q(1) q(1) _ q(2) g]) simp_all
  have set: "lh_set i v ?e = Ok (?e\<lparr>lh_block := (lh_block ?e)(i := v)\<rparr>)" for v
    using assms(3,6) by (simp add: lh_set_def)
  have "log_write b s = release ?c LogLock (log_record b i ?e)"
    using assms pin unfolding log_write_def acquire_free [OF q(1)] bindr_simps
    by (simp add: lock_simps set log_record_def Let_def)
  then show ?thesis by (simp add: release_lockless [OF q log_record_lockless])
qed

lemma logged_record:
  assumes "0 \<le> lh_n s" and "int i \<le> lh_n s" and "b_blockno (bufs s b) < 2 ^ 32"
    and "int i < lh_n s \<Longrightarrow> u32 (lh_block s i) = b_blockno (bufs s b)"
  shows "logged (log_record b i s) = (if int i = lh_n s then logged s @ [b_blockno (bufs s b)] else logged s)"
proof (cases "int i = lh_n s")
  case True
  then have "nat (lh_n s) = i" by linarith
  moreover have "nat (lh_n s + 1) = Suc (nat (lh_n s))" using assms(1) by (simp add: nat_add_distrib)
  ultimately show ?thesis using True assms(3)
    by (auto simp: logged_def log_record_def upd_buf_def Let_def u32_i32 intro!: map_cong)
next
  case False
  then show ?thesis using assms(2,3) assms(4)
    by (auto simp: logged_def log_record_def Let_def u32_i32 intro!: map_cong)
qed

text \<open>C33. \<open>log_write\<close> outside a transaction, or with the log full, panics. Otherwise it returns; the block
  is in the log afterwards, a block already there is absorbed, a new one is appended and its
  buffer pinned, and no block is ever in the log twice.\<close>

theorem log_write_absorbs:
  assumes "quiet p s" and "0 \<le> lh_n s" and "b_blockno (bufs s b) < 2 ^ 32"
  shows "if LOGBLOCKS \<le> lh_n s then log_write b s = Err (Panic ''too big a transaction'')
    else if log_outstanding s < 1 then log_write b s = Err (Panic ''log_write outside of trans'')
    else \<exists>s'. log_write b s = Ok s' \<and> locks s' = locks s \<and> log_outstanding s' = log_outstanding s
      \<and> (let bno = b_blockno (bufs s b); absorbed = (bno \<in> set (logged s)) in
           logged s' = (if absorbed then logged s else logged s @ [bno])
           \<and> b_refcnt (bufs s' b) = (if absorbed then b_refcnt (bufs s b) else (b_refcnt (bufs s b) + 1) mod 2 ^ 32)
           \<and> (distinct (logged s) \<longrightarrow> distinct (logged s')))"
proof -
  let ?e = "enter (hartid s) LogLock s" and ?bno = "b_blockno (bufs s b)"
  have acq: "acquire (hartid s) LogLock s = Ok ?e" using assms(1) by (simp add: quiet_def acquire_free)
  consider (full) "LOGBLOCKS \<le> lh_n s" | (out) "lh_n s < LOGBLOCKS" "log_outstanding s < 1"
    | (ok) "lh_n s < LOGBLOCKS" "1 \<le> log_outstanding s" by linarith
  then show ?thesis
  proof cases
    case full
    then show ?thesis by (simp add: log_write_def acq lock_simps)
  next
    case out
    then show ?thesis by (simp add: log_write_def acq lock_simps)
  next
    case ok
    obtain i where i: "log_find ?bno 0 ?e = Ok i" "int i \<le> lh_n s" "\<forall>k<i. u32 (lh_block s k) \<noteq> ?bno"
      "int i < lh_n s \<longrightarrow> u32 (lh_block s i) = ?bno"
      using log_find_eq [of 0 ?e ?bno] assms(2) ok(1) by (auto simp: lock_simps)
    have abs: "?bno \<in> set (logged s) \<longleftrightarrow> int i \<noteq> lh_n s"
    proof
      assume "?bno \<in> set (logged s)"
      then obtain k where "int k < lh_n s" "u32 (lh_block s k) = ?bno"
        by (auto simp: logged_def zless_nat_eq_int_zless)
      then show "int i \<noteq> lh_n s" using i(3) by auto
    qed (use i(2,4) in \<open>auto simp: logged_def intro!: image_eqI [of _ _ i]\<close>)
    note eq = log_write_eq [OF assms(1,2) ok i(1,2)]
    have n: "logged (note_intena (hartid s) t) = logged t" for t :: "'a klog_scheme" by (simp add: logged_def lock_simps)
    have keep: "locks (note_intena (hartid s) (log_record b i s)) = locks s"
      "log_outstanding (note_intena (hartid s) (log_record b i s)) = log_outstanding s"
      "b_refcnt (bufs (note_intena (hartid s) (log_record b i s)) b)
        = (if int i = lh_n s then (b_refcnt (bufs s b) + 1) mod 2 ^ 32 else b_refcnt (bufs s b))"
      by (simp_all add: lock_simps log_record_def Let_def) (simp add: upd_buf_def)
    show ?thesis using ok eq keep logged_record [OF assms(2) i(2) assms(3)] i(4) abs
      by (auto simp: Let_def n)
  qed
qed

section \<open>Reserving\<close>

lemma release_keeps:
  "release c lk s = Ok s' \<Longrightarrow> lh_n s' = lh_n s \<and> log_outstanding s' = log_outstanding s \<and> log_committing s' = log_committing s"
  by (auto simp: release_def pop_off_def set_cpu_def lock_release_def intr_on_def Let_def split: if_splits)

lemma begin_op_loop_reserves:
  assumes "begin_op_loop P s = Some (Inr s')"
  shows "lh_n s' + log_outstanding s' * MAXOPBLOCKS \<le> LOGBLOCKS \<and> \<not> log_committing s'"
proof -
  have "\<forall>s'. r = Inr s' \<longrightarrow> lh_n s' + log_outstanding s' * MAXOPBLOCKS \<le> LOGBLOCKS \<and> \<not> log_committing s'"
    if "begin_op_loop P s = Some r" for r
  proof (rule begin_op_loop.raw_induct [of "\<lambda>_ r. \<forall>s'. r = Inr s' \<longrightarrow>
      lh_n s' + log_outstanding s' * MAXOPBLOCKS \<le> LOGBLOCKS \<and> \<not> log_committing s'", OF _ that])
    fix f P s r
    assume "\<And>P s r. f P s = Some r \<Longrightarrow>
        \<forall>s'. r = Inr s' \<longrightarrow> lh_n s' + log_outstanding s' * MAXOPBLOCKS \<le> LOGBLOCKS \<and> \<not> log_committing s'"
      and "(if log_committing s then bindr (sleep P ChanLog LogLock s) (f P)
        else if lh_n s + (log_outstanding s + 1) * MAXOPBLOCKS > LOGBLOCKS
        then bindr (sleep P ChanLog LogLock s) (f P)
        else release_k LogLock (s\<lparr>log_outstanding := log_outstanding s + 1\<rparr>)) = Some r"
    then show "\<forall>s'. r = Inr s' \<longrightarrow> lh_n s' + log_outstanding s' * MAXOPBLOCKS \<le> LOGBLOCKS \<and> \<not> log_committing s'"
      by (auto simp: bindr_def dest: release_keeps split: if_splits option.splits sum.splits)
  qed
  with assms show ?thesis by blast
qed

text \<open>C34. Whatever other threads do while it sleeps, \<open>begin_op\<close> returns only with room in the log for
  this and every other running transaction, each at \<open>MAXOPBLOCKS\<close> blocks, and not while a commit
  runs; and it returns at once, counting the transaction, when there is room.\<close>

theorem begin_op_reserves:
  "(begin_op P s = Ok s' \<longrightarrow> lh_n s' + log_outstanding s' * MAXOPBLOCKS \<le> LOGBLOCKS \<and> \<not> log_committing s')
   \<and> (quiet p s \<and> \<not> log_committing s \<and> lh_n s + (log_outstanding s + 1) * MAXOPBLOCKS \<le> LOGBLOCKS \<longrightarrow>
      (\<exists>t. begin_op P s = Ok t \<and> log_outstanding t = log_outstanding s + 1 \<and> lh_n t = lh_n s \<and> locks t = locks s))"
proof (intro conjI impI)
  assume "begin_op P s = Ok s'"
  then show "lh_n s' + log_outstanding s' * MAXOPBLOCKS \<le> LOGBLOCKS" "\<not> log_committing s'"
    using begin_op_loop_reserves by (auto simp: begin_op_def elim!: bindr_OkE)
next
  assume room: "quiet p s \<and> \<not> log_committing s \<and> lh_n s + (log_outstanding s + 1) * MAXOPBLOCKS \<le> LOGBLOCKS"
  let ?g = "\<lambda>s. s\<lparr>log_outstanding := log_outstanding s + 1\<rparr>" and ?e = "enter (hartid s) LogLock s"
  have q: "lock_free LogLock s" "intr_ok (hartid s) s" using room by (simp_all add: quiet_def)
  have g: "lockless ?g" by (simp add: lockless_def)
  have "begin_op P s = release (hartid s) LogLock (?g ?e)"
    using room by (simp add: begin_op_def acquire_free [OF q(1)] begin_op_loop.simps [of P ?e] lock_simps)
  also have "\<dots> = Ok (note_intena (hartid s) (?g s))" by (rule release_lockless [OF q g])
  finally show "\<exists>t. begin_op P s = Ok t \<and> log_outstanding t = log_outstanding s + 1 \<and> lh_n t = lh_n s \<and> locks t = locks s"
    by (auto simp: lock_simps)
qed

text \<open>For the witnesses: a running transaction that has logged block 3, and one buffer, of block 7.\<close>

definition one_log :: klog where
  "one_log = kbio.extend (one_buf 0) (klog.fields 2 1 False 1 1 (\<lambda>_. 3))"

lemma one_log_simps [simp]:
  "lh_n one_log = 1" "lh_block one_log i = 3" "log_outstanding one_log = 1" "\<not> log_committing one_log"
  "b_blockno (bufs one_log b) = 7" "b_refcnt (bufs one_log b) = 1"
  by (simp_all add: one_log_def one_buf_def idle_def kbio.defs klog.defs)

lemma one_log_ok: "quiet 0 one_log" "logged one_log = [3]"
  by (simp_all add: quiet_def lock_free_def intr_ok_def one_log_def one_buf_def idle_def kbio.defs klog.defs logged_def u32_def)

theorem log_write_absorbs_witness:
  "\<exists>s'. log_write 0 one_log = Ok s' \<and> logged s' = [3, 7] \<and> b_refcnt (bufs s' 0) = 2"
  using log_write_absorbs [of 0 one_log 0] by (auto simp: one_log_ok Let_def)

theorem begin_op_reserves_witness:
  "\<forall>P. \<exists>t. begin_op P one_log = Ok t \<and> log_outstanding t = 2 \<and> lh_n t + log_outstanding t * 10 \<le> 30"
proof
  fix P
  show "\<exists>t. begin_op P one_log = Ok t \<and> log_outstanding t = 2 \<and> lh_n t + log_outstanding t * 10 \<le> 30"
    using begin_op_reserves [of P one_log one_log 0] by (auto simp: one_log_ok)
qed

end
