(* ===== verification/Pipe_Queue.thy ===== *)
theory Pipe_Queue
  imports File
begin

text \<open>
  The ring buffer of a pipe is a bounded queue of bytes. The interface \<open>byte_queue\<close> says what
  \<open>pipewrite\<close> and \<open>piperead\<close> rely on: the tests for full and empty, the append of a byte and the
  removal of the first. Its client is any sequence of attempts to write and to read a byte.
\<close>

section \<open>Bounded queues\<close>

datatype qop = Put "8 word" | Get

text \<open>A sequence of operations, each guarded by the test its caller makes: a byte is written unless
  the queue is full, and read unless it is empty. A read gives the byte or nothing.\<close>

fun queue_run ::
  "('s \<Rightarrow> bool result) \<Rightarrow> ('s \<Rightarrow> bool result) \<Rightarrow> (8 word \<Rightarrow> 's \<Rightarrow> 's result) \<Rightarrow> ('s \<Rightarrow> 8 word result) \<Rightarrow> ('s \<Rightarrow> 's result)
     \<Rightarrow> qop list \<Rightarrow> 's \<Rightarrow> (8 word option list \<times> 's) result" where
  "queue_run full empt put peek advance [] s = Ok ([], s)"
| "queue_run full empt put peek advance (Put b # ops) s =
     bindr (full s) (\<lambda>f. bindr (if f then Ok s else put b s) (\<lambda>s. queue_run full empt put peek advance ops s))"
| "queue_run full empt put peek advance (Get # ops) s =
     bindr (empt s) (\<lambda>e.
     bindr (if e then Ok (None, s) else bindr (peek s) (\<lambda>b. bindr (advance s) (\<lambda>s. Ok (Some b, s)))) (\<lambda>(r, s).
     bindr (queue_run full empt put peek advance ops s) (\<lambda>(rs, s). Ok (r # rs, s))))"

text \<open>The same operations on a list.\<close>

fun spec_run :: "nat \<Rightarrow> qop list \<Rightarrow> 8 word list \<Rightarrow> 8 word option list \<times> 8 word list" where
  "spec_run cap [] q = ([], q)"
| "spec_run cap (Put b # ops) q = spec_run cap ops (if length q < cap then q @ [b] else q)"
| "spec_run cap (Get # ops) q =
     (case q of [] \<Rightarrow> let (rs, q) = spec_run cap ops [] in (None # rs, q)
      | b # q \<Rightarrow> let (rs, q) = spec_run cap ops q in (Some b # rs, q))"

locale byte_queue =
  fixes inv :: "'s \<Rightarrow> bool" and content :: "'s \<Rightarrow> 8 word list" and cap :: nat
    and full :: "'s \<Rightarrow> bool result" and empt :: "'s \<Rightarrow> bool result" and put :: "8 word \<Rightarrow> 's \<Rightarrow> 's result"
    and peek :: "'s \<Rightarrow> 8 word result" and advance :: "'s \<Rightarrow> 's result"
  assumes bounded: "inv s \<Longrightarrow> length (content s) \<le> cap"
    and full: "inv s \<Longrightarrow> full s = Ok (length (content s) = cap)"
    and empt: "inv s \<Longrightarrow> empt s = Ok (content s = [])"
    and put: "inv s \<Longrightarrow> length (content s) < cap \<Longrightarrow> \<exists>s'. put b s = Ok s' \<and> inv s' \<and> content s' = content s @ [b]"
    and peek: "inv s \<Longrightarrow> content s \<noteq> [] \<Longrightarrow> peek s = Ok (hd (content s))"
    and advance: "inv s \<Longrightarrow> content s \<noteq> [] \<Longrightarrow> \<exists>s'. advance s = Ok s' \<and> inv s' \<and> content s' = tl (content s)"
begin

lemma run_refines:
  "inv s \<Longrightarrow> \<exists>s'. queue_run full empt put peek advance ops s = Ok (fst (spec_run cap ops (content s)), s')
     \<and> inv s' \<and> content s' = snd (spec_run cap ops (content s))"
proof (induction ops arbitrary: s)
  case Nil
  then show ?case by simp
next
  case (Cons op ops)
  show ?case
  proof (cases op)
    case (Put b)
    show ?thesis
    proof (cases "length (content s) < cap")
      case True
      then obtain t where "put b s = Ok t" "inv t" "content t = content s @ [b]" using put Cons.prems by blast
      then show ?thesis using Cons.IH [of t] True Put full [OF Cons.prems] by simp
    next
      case False
      then have "length (content s) = cap" using bounded [OF Cons.prems] by simp
      then show ?thesis using Cons.IH [OF Cons.prems] Put full [OF Cons.prems] by simp
    qed
  next
    case Get
    show ?thesis
    proof (cases "content s")
      case Nil
      then show ?thesis using Cons.IH [OF Cons.prems] Get empt [OF Cons.prems]
        by (auto simp: split: prod.splits)
    next
      case (Cons x xs)
      then obtain t where "advance s = Ok t" "inv t" "content t = xs" using advance Cons.prems by fastforce
      then show ?thesis using Cons.IH [of t] Get Cons empt [OF Cons.prems] peek [OF Cons.prems]
        by (auto split: prod.splits)
    qed
  qed
qed

end

section \<open>The ring buffer\<close>

definition nread_of :: "nat \<Rightarrow> 'z kmem_scheme \<Rightarrow> nat" where "nread_of pi s = ld32 (bytes s) (pipe_nread pi)"
definition nwrite_of :: "nat \<Rightarrow> 'z kmem_scheme \<Rightarrow> nat" where "nwrite_of pi s = ld32 (bytes s) (pipe_nwrite pi)"

definition pipe_len :: "nat \<Rightarrow> 'z kmem_scheme \<Rightarrow> nat" where
  "pipe_len pi s = (nwrite_of pi s + 2 ^ 32 - nread_of pi s) mod 2 ^ 32"

definition pipe_bytes :: "nat \<Rightarrow> 'z kmem_scheme \<Rightarrow> 8 word list" where
  "pipe_bytes pi s = map (\<lambda>i. bytes s (pipe_data pi + (nread_of pi s + i) mod PIPESIZE)) [0..<pipe_len pi s]"

definition pipe_ok :: "nat \<Rightarrow> 'z kmem_scheme \<Rightarrow> bool" where
  "pipe_ok pi s = (ram pi 552 \<and> pipe_len pi s \<le> PIPESIZE)"

lemma length_pipe_bytes [simp]: "length (pipe_bytes pi s) = pipe_len pi s"
  by (simp add: pipe_bytes_def)

lemma mod_below_twice: "x < M + M \<Longrightarrow> x mod M = (if x < M then x else x - M)" for x M :: nat
  by (simp add: le_mod_geq)

lemma ring_len:
  fixes r w M :: nat
  assumes "r < M" and "w < M"
  shows "(w + M - r) mod M = l \<longleftrightarrow> l < M \<and> w = (r + l) mod M"
proof -
  have "(w + M - r) mod M = (if w + M - r < M then w + M - r else w + M - r - M)"
    using assms by (intro mod_below_twice) linarith
  moreover have "(r + l) mod M = (if r + l < M then r + l else r + l - M)" if "l < M"
    using assms that by (intro mod_below_twice) linarith
  ultimately show ?thesis using assms by (cases "l < M") auto
qed

lemma counters_bound: "nread_of pi s < 2 ^ 32" "nwrite_of pi s < 2 ^ 32"
  using ld_bytes_bound [of 4 "bytes s"] by (simp_all add: nread_of_def nwrite_of_def)

lemma nwrite_eq: "nwrite_of pi s = (nread_of pi s + pipe_len pi s) mod 2 ^ 32"
  using ring_len [OF counters_bound(1) [of pi s] counters_bound(2) [of pi s], of "pipe_len pi s"]
  unfolding pipe_len_def by blast

lemma pipe_ram:
  "ram pi 552 \<Longrightarrow> rd32 (pipe_nread pi) s = Ok (nread_of pi s) \<and> rd32 (pipe_nwrite pi) s = Ok (nwrite_of pi s)
    \<and> wr32 (pipe_nread pi) v s = Ok (s\<lparr>bytes := st32 (pipe_nread pi) v (bytes s)\<rparr>)
    \<and> wr32 (pipe_nwrite pi) v s = Ok (s\<lparr>bytes := st32 (pipe_nwrite pi) v (bytes s)\<rparr>)"
  by (simp add: ram_def rd32_def wr32_def nread_of_def nwrite_of_def)

lemma pipe_ram8:
  "ram pi 552 \<Longrightarrow> rd8 (pipe_data pi + i mod PIPESIZE) s = Ok (bytes s (pipe_data pi + i mod PIPESIZE))
    \<and> wr8 (pipe_data pi + i mod PIPESIZE) b s = Ok (s\<lparr>bytes := (bytes s)(pipe_data pi + i mod PIPESIZE := b)\<rparr>)"
proof -
  assume "ram pi 552"
  moreover have "i mod PIPESIZE < PIPESIZE" by simp
  ultimately have "ram (pipe_data pi + i mod PIPESIZE) 1" by (simp only: ram_def) linarith
  then show ?thesis by (simp add: rd8_def wr8_def kptr_def)
qed

lemma ring_distinct:
  fixes r i l :: nat
  assumes "i < l" and "l < PIPESIZE"
  shows "(r + i) mod PIPESIZE \<noteq> (r + l) mod PIPESIZE"
proof
  assume "(r + i) mod PIPESIZE = (r + l) mod PIPESIZE"
  then have "PIPESIZE dvd (r + l) - (r + i)" using mod_eq_dvd_iff_nat [of "r + i" "r + l" PIPESIZE] assms(1) by (simp add: eq_commute)
  then have "PIPESIZE dvd l - i" by simp
  then show False using assms by (simp add: nat_dvd_not_less)
qed

lemma ring_mod: "(n mod 2 ^ 32) mod PIPESIZE = n mod (PIPESIZE :: nat)"
  by (rule mod_mod_cancel) simp

lemma data_index: "pipe_data pi + i mod PIPESIZE < pipe_nread pi"
  using mod_less_divisor [of PIPESIZE i] by linarith

lemma ld_upd_other: "x < a \<or> a + k \<le> x \<Longrightarrow> ld_bytes k (m(x := v)) a = ld_bytes k m a"
  by (intro ld_agree) (auto simp: agree_def)

lemma pipe_len_iff:
  "pipe_len pi s = l \<longleftrightarrow> l < 2 ^ 32 \<and> nwrite_of pi s = (nread_of pi s + l) mod 2 ^ 32"
  unfolding pipe_len_def by (rule ring_len) (rule counters_bound)+

lemma pipe_put_law:
  assumes "pipe_ok pi s" and "pipe_len pi s < PIPESIZE"
  shows "\<exists>s'. pipe_put pi b s = Ok s' \<and> pipe_ok pi s' \<and> pipe_bytes pi s' = pipe_bytes pi s @ [b]"
proof -
  let ?r = "nread_of pi s" and ?w = "nwrite_of pi s" and ?l = "pipe_len pi s"
  have ram: "ram pi 552" using assms(1) by (simp add: pipe_ok_def)
  have w: "?w = (?r + ?l) mod 2 ^ 32" by (rule nwrite_eq)
  then have idx: "?w mod PIPESIZE = (?r + ?l) mod PIPESIZE" by (simp only: ring_mod)
  define d where "d = pipe_data pi + ?w mod PIPESIZE"
  have d: "d < pipe_nread pi" unfolding d_def by (rule data_index)
  define s' where "s' = s\<lparr>bytes := (st32 (pipe_nwrite pi) ((?w + 1) mod 2 ^ 32) (bytes s))(d := b)\<rparr>"
  have run: "pipe_put pi b s = Ok s'"
    by (simp add: pipe_put_def pipe_ram [OF ram] pipe_ram8 [OF ram] s'_def d_def)
  have r': "nread_of pi s' = ?r" using d by (simp add: nread_of_def s'_def ld_upd_other ld_st_other)
  have w': "nwrite_of pi s' = (?w + 1) mod 2 ^ 32" using d by (simp add: nwrite_of_def s'_def ld_upd_other ld_st_same)
  have "(?w + 1) mod 2 ^ 32 = (?r + (?l + 1)) mod 2 ^ 32" by (subst w) (simp add: mod_Suc_eq)
  then have l': "pipe_len pi s' = Suc ?l"
    using assms(2) unfolding pipe_len_iff r' w' by simp
  have old: "bytes s' (pipe_data pi + (?r + i) mod PIPESIZE) = bytes s (pipe_data pi + (?r + i) mod PIPESIZE)" if "i < ?l" for i
  proof -
    have "pipe_data pi + (?r + i) mod PIPESIZE \<noteq> d"
      using ring_distinct [OF that assms(2), of ?r] unfolding d_def idx by (metis add_left_cancel)
    moreover have "pipe_data pi + (?r + i) mod PIPESIZE < pipe_nwrite pi"
      using data_index [of pi "?r + i"] by linarith
    ultimately show ?thesis by (simp add: s'_def st_outside)
  qed
  have new: "bytes s' (pipe_data pi + (?r + ?l) mod PIPESIZE) = b"
    unfolding s'_def d_def idx by simp
  have "pipe_bytes pi s' = pipe_bytes pi s @ [b]"
    using old new by (simp add: pipe_bytes_def l' r')
  then show ?thesis using run ram l' assms(2) by (simp add: pipe_ok_def)
qed

lemma pipe_advance_law:
  assumes "pipe_ok pi s" and "pipe_bytes pi s \<noteq> []"
  shows "\<exists>s'. pipe_advance pi s = Ok s' \<and> pipe_ok pi s' \<and> pipe_bytes pi s' = tl (pipe_bytes pi s)"
proof -
  let ?r = "nread_of pi s" and ?w = "nwrite_of pi s"
  have ram: "ram pi 552" using assms(1) by (simp add: pipe_ok_def)
  obtain l where l: "pipe_len pi s = Suc l" using assms(2) by (cases "pipe_len pi s") (auto simp: pipe_bytes_def)
  define s' where "s' = s\<lparr>bytes := st32 (pipe_nread pi) ((?r + 1) mod 2 ^ 32) (bytes s)\<rparr>"
  have run: "pipe_advance pi s = Ok s'"
    by (simp add: pipe_advance_def pipe_ram [OF ram] s'_def)
  have w': "nwrite_of pi s' = ?w" by (simp add: nwrite_of_def s'_def ld_st_other)
  have r': "nread_of pi s' = (?r + 1) mod 2 ^ 32" by (simp add: nread_of_def s'_def ld_st_same)
  have "?w = (?r + 1 + l) mod 2 ^ 32" using nwrite_eq [of pi s] l by simp
  then have l': "pipe_len pi s' = l"
    using assms(1) l unfolding pipe_len_iff r' w' by (simp add: pipe_ok_def mod_add_left_eq)
  have "bytes s' (pipe_data pi + (nread_of pi s' + i) mod PIPESIZE) = bytes s (pipe_data pi + (?r + Suc i) mod PIPESIZE)" for i
  proof -
    have "(nread_of pi s' + i) mod PIPESIZE = ((?r + 1) mod 2 ^ 32 mod PIPESIZE + i) mod PIPESIZE"
      unfolding r' by (simp only: mod_add_left_eq)
    also have "\<dots> = (?r + Suc i) mod PIPESIZE" unfolding ring_mod by (simp add: mod_add_left_eq)
    finally have e: "(nread_of pi s' + i) mod PIPESIZE = (?r + Suc i) mod PIPESIZE" .
    have "pipe_data pi + (?r + Suc i) mod PIPESIZE < pipe_nread pi" by (rule data_index)
    then show ?thesis unfolding e by (simp add: s'_def st_outside)
  qed
  then have "pipe_bytes pi s' = tl (pipe_bytes pi s)"
    unfolding pipe_bytes_def l l' by (simp add: upt_conv_Cons map_Suc_upt [symmetric] del: upt_Suc)
  then show ?thesis using run ram l l' assms(1) by (simp add: pipe_ok_def)
qed

lemma pipe_full_law: "pipe_ok pi s \<Longrightarrow> pipe_full pi s = Ok (length (pipe_bytes pi s) = PIPESIZE)"
  by (simp add: pipe_full_def pipe_ok_def pipe_ram) (simp add: pipe_len_iff [of pi s PIPESIZE])

lemma pipe_empty_law: "pipe_ok pi s \<Longrightarrow> pipe_empty pi s = Ok (pipe_bytes pi s = [])"
proof -
  assume "pipe_ok pi s"
  moreover have "pipe_bytes pi s = [] \<longleftrightarrow> pipe_len pi s = 0" using length_pipe_bytes [of pi s] by (metis length_0_conv)
  moreover have "pipe_len pi s = 0 \<longleftrightarrow> nread_of pi s = nwrite_of pi s"
    using counters_bound [of pi s] by (auto simp: pipe_len_iff)
  ultimately show ?thesis by (simp add: pipe_empty_def pipe_ok_def pipe_ram)
qed

lemma pipe_peek_law: "pipe_ok pi s \<Longrightarrow> pipe_bytes pi s \<noteq> [] \<Longrightarrow> pipe_peek pi s = Ok (hd (pipe_bytes pi s))"
  by (cases "pipe_len pi s")
    (auto simp: pipe_peek_def pipe_ok_def pipe_ram pipe_ram8 pipe_bytes_def hd_map upt_conv_Cons simp del: upt_Suc)

interpretation pq: byte_queue "pipe_ok pi :: 'z kmem_scheme \<Rightarrow> bool" "pipe_bytes pi" PIPESIZE
  "pipe_full pi" "pipe_empty pi" "pipe_put pi" "pipe_peek pi" "pipe_advance pi" for pi
proof
  fix s :: "'z kmem_scheme" and b
  assume ok: "pipe_ok pi s"
  then show "length (pipe_bytes pi s) \<le> PIPESIZE" by (simp add: pipe_ok_def)
  show "pipe_full pi s = Ok (length (pipe_bytes pi s) = PIPESIZE)" by (rule pipe_full_law [OF ok])
  show "pipe_empty pi s = Ok (pipe_bytes pi s = [])" by (rule pipe_empty_law [OF ok])
  show "\<exists>s'. pipe_put pi b s = Ok s' \<and> pipe_ok pi s' \<and> pipe_bytes pi s' = pipe_bytes pi s @ [b]"
    if "length (pipe_bytes pi s) < PIPESIZE"
    using pipe_put_law [OF ok] that by simp
  show "pipe_peek pi s = Ok (hd (pipe_bytes pi s))" if "pipe_bytes pi s \<noteq> []" by (rule pipe_peek_law [OF ok that])
  show "\<exists>s'. pipe_advance pi s = Ok s' \<and> pipe_ok pi s' \<and> pipe_bytes pi s' = tl (pipe_bytes pi s)"
    if "pipe_bytes pi s \<noteq> []" by (rule pipe_advance_law [OF ok that])
qed

text \<open>C35. A pipe is a first-in first-out queue of at most 512 bytes: any sequence of attempts to write
  and to read a byte, each behind the test for full or empty that \<open>pipewrite\<close> and \<open>piperead\<close> make,
  runs without a fault, across every wrap-around of the two 32-bit counters, and reads the bytes a
  bounded list would give; the bytes left are the rest of that list.\<close>

theorem pipe_fifo:
  fixes s :: "'z kmem_scheme"
  assumes "pipe_ok pi s"
  shows "\<exists>s'. queue_run (pipe_full pi) (pipe_empty pi) (pipe_put pi) (pipe_peek pi) (pipe_advance pi) ops s
      = Ok (fst (spec_run PIPESIZE ops (pipe_bytes pi s)), s')
    \<and> pipe_ok pi s' \<and> pipe_bytes pi s' = snd (spec_run PIPESIZE ops (pipe_bytes pi s))"
  using assms by (rule pq.run_refines)

text \<open>The witness starts from an empty pipe whose counters are about to wrap around.\<close>

definition wrap_mem :: kmem where
  "wrap_mem = \<lparr>locks = (\<lambda>_. \<lparr>lk_locked = 0, lk_name = [], lk_cpu = None\<rparr>),
     cpus = (\<lambda>_. \<lparr>noff = 0, intena = False\<rparr>), sie = (\<lambda>_. False), tree = (\<lambda>_. 0),
     bytes = (\<lambda>_. - 1), printed = []\<rparr>"

lemma ld_const: "ld_bytes k (\<lambda>_. v) a = ld_bytes k (\<lambda>_. v) b"
proof (induction k arbitrary: a b)
  case (Suc k)
  then show ?case using Suc.IH [of "a + 1" "b + 1"] by simp
qed simp

lemma wrap_mem_ok: "pipe_ok KERNBASE wrap_mem" "pipe_bytes KERNBASE wrap_mem = []"
proof -
  have "nwrite_of KERNBASE wrap_mem = nread_of KERNBASE wrap_mem"
    unfolding nwrite_of_def nread_of_def wrap_mem_def by (simp only: kmem.simps) (rule ld_const)
  then have "pipe_len KERNBASE wrap_mem = 0" by (simp add: pipe_len_def)
  then show "pipe_ok KERNBASE wrap_mem" "pipe_bytes KERNBASE wrap_mem = []"
    by (simp_all add: pipe_ok_def pipe_bytes_def ram_def)
qed

theorem pipe_fifo_witness:
  "\<exists>s'. queue_run (pipe_full KERNBASE) (pipe_empty KERNBASE) (pipe_put KERNBASE) (pipe_peek KERNBASE)
      (pipe_advance KERNBASE) [Put 5, Put 6, Get, Get, Get] wrap_mem = Ok ([Some 5, Some 6, None], s')
    \<and> pipe_bytes KERNBASE s' = []"
  using pipe_fifo [of KERNBASE wrap_mem "[Put 5, Put 6, Get, Get, Get]"] wrap_mem_ok by auto

end
