(* ===== verification/Shell.thy ===== *)
theory Shell
  imports Prelude
begin

text \<open>
  The parser of the shell (\<^verbatim>\<open>user/sh.c\<close>). The command line is the list of its bytes up to the NUL;
  a pointer into it is an offset, \<open>es\<close> the length of the list, where a read gives the NUL. A node of
  the command tree that \<open>malloc\<close> would return is a value of \<open>cmd\<close>; memory is never exhausted.
  \<open>panic\<close> ends the process and is the fault \<open>Panic\<close>.
\<close>

type_synonym line = "8 word list"

text \<open>An argument is the pair of \<open>argv[i]\<close> and \<open>eargv[i]\<close>.\<close>

datatype cmd =
    ExecC "(nat \<times> nat) list"
  | RedirC cmd nat nat nat int     \<comment> \<open>\<open>cmd\<close>, \<open>file\<close>, \<open>efile\<close>, \<open>mode\<close>, \<open>fd\<close>\<close>
  | PipeC cmd cmd
  | ListC cmd cmd
  | BackC cmd

abbreviation (input) MAXARGS :: nat where "MAXARGS \<equiv> 10"
abbreviation (input) O_RDONLY :: nat where "O_RDONLY \<equiv> 0"
abbreviation (input) O_WRONLY_CREATE_TRUNC :: nat where "O_WRONLY_CREATE_TRUNC \<equiv> 0x601"
abbreviation (input) O_WRONLY_CREATE :: nat where "O_WRONLY_CREATE \<equiv> 0x201"

abbreviation (input) ch_lt :: "8 word" where "ch_lt \<equiv> 60"
abbreviation (input) ch_gt :: "8 word" where "ch_gt \<equiv> 62"
abbreviation (input) ch_bar :: "8 word" where "ch_bar \<equiv> 124"
abbreviation (input) ch_amp :: "8 word" where "ch_amp \<equiv> 38"
abbreviation (input) ch_semi :: "8 word" where "ch_semi \<equiv> 59"
abbreviation (input) ch_open :: "8 word" where "ch_open \<equiv> 40"
abbreviation (input) ch_close :: "8 word" where "ch_close \<equiv> 41"
abbreviation (input) tok_word :: "8 word" where "tok_word \<equiv> 97"
abbreviation (input) tok_append :: "8 word" where "tok_append \<equiv> 43"

definition whitespace :: "8 word list" where "whitespace = [32, 9, 13, 10, 11]"
definition symbols :: "8 word list" where
  "symbols = [ch_lt, ch_bar, ch_gt, ch_amp, ch_semi, ch_open, ch_close]"

definition char_at :: "line \<Rightarrow> nat \<Rightarrow> 8 word" where
  "char_at buf s = (if s < length buf then buf ! s else 0)"

section \<open>Tokens\<close>

function skip_white :: "line \<Rightarrow> nat \<Rightarrow> nat" where
  "skip_white buf s = (if s < length buf \<and> char_at buf s \<in> set whitespace then skip_white buf (s + 1) else s)"
  by pat_completeness auto

termination by (relation "measure (\<lambda>(buf, s). length buf - s)") auto

function skip_word :: "line \<Rightarrow> nat \<Rightarrow> nat" where
  "skip_word buf s =
     (if s < length buf \<and> char_at buf s \<notin> set whitespace \<and> char_at buf s \<notin> set symbols
      then skip_word buf (s + 1) else s)"
  by pat_completeness auto

termination by (relation "measure (\<lambda>(buf, s). length buf - s)") auto

declare skip_white.simps [simp del] skip_word.simps [simp del]

text \<open>The value returned, \<open>*q\<close>, \<open>*eq\<close> and \<open>*ps\<close>.\<close>

definition gettoken :: "line \<Rightarrow> nat \<Rightarrow> 8 word \<times> nat \<times> nat \<times> nat" where
  "gettoken buf s =
     (let s = skip_white buf s;
          q = s;
          c = char_at buf s;
          (ret, s) = (if c = 0 then (c, s)
                      else if c \<in> {ch_bar, ch_open, ch_close, ch_semi, ch_amp, ch_lt} then (c, s + 1)
                      else if c = ch_gt
                      then if char_at buf (s + 1) = ch_gt then (tok_append, s + 2) else (c, s + 1)
                      else (tok_word, skip_word buf s))
      in (ret, q, s, skip_white buf s))"

definition peek :: "line \<Rightarrow> nat \<Rightarrow> 8 word list \<Rightarrow> bool \<times> nat" where
  "peek buf s toks =
     (let s = skip_white buf s in (char_at buf s \<noteq> 0 \<and> char_at buf s \<in> set toks, s))"

lemma skip_white_bounds: "s \<le> skip_white buf s \<and> (s \<le> length buf \<longrightarrow> skip_white buf s \<le> length buf)"
proof (induction buf s rule: skip_white.induct)
  case (1 buf s)
  then show ?case by (auto simp: skip_white.simps [of buf s])
qed

lemma skip_word_bounds: "s \<le> skip_word buf s \<and> (s \<le> length buf \<longrightarrow> skip_word buf s \<le> length buf)"
proof (induction buf s rule: skip_word.induct)
  case (1 buf s)
  then show ?case by (auto simp: skip_word.simps [of buf s])
qed

lemma skip_white_stops: "char_at buf (skip_white buf s) \<notin> set whitespace"
proof (induction buf s rule: skip_white.induct)
  case (1 buf s)
  show ?case
  proof (cases "s < length buf \<and> char_at buf s \<in> set whitespace")
    case True
    then show ?thesis using 1 by (subst skip_white.simps) simp
  next
    case False
    moreover have "char_at buf s = 0" if "\<not> s < length buf" using that by (simp add: char_at_def)
    moreover have "0 \<notin> set whitespace" by (simp add: whitespace_def)
    ultimately show ?thesis by (subst skip_white.simps) auto
  qed
qed

lemma char_at_less: "char_at buf s \<noteq> 0 \<Longrightarrow> s < length buf"
  by (auto simp: char_at_def split: if_splits)

text \<open>A token other than the end of the line takes at least one byte.\<close>

lemma gettoken_bounds:
  assumes "gettoken buf s = (ret, q, e, s')" and "s \<le> length buf"
  shows "s \<le> q \<and> q \<le> e \<and> e \<le> s' \<and> s' \<le> length buf \<and> (ret \<noteq> 0 \<longrightarrow> q < e)"
proof -
  let ?w = "skip_white buf s"
  have w: "s \<le> ?w" "?w \<le> length buf" using skip_white_bounds [of s buf] assms(2) by auto
  have sw: "e \<le> skip_white buf e" "e \<le> length buf \<Longrightarrow> skip_white buf e \<le> length buf"
    using skip_white_bounds [of e buf] by auto
  show ?thesis
  proof (cases "char_at buf ?w = 0")
    case True
    then show ?thesis using assms(1) w sw by (auto simp: gettoken_def Let_def)
  next
    case False
    then have lt: "?w < length buf" by (rule char_at_less)
    have more: "Suc ?w < length buf" if "char_at buf (Suc ?w) = ch_gt"
      using that by (intro char_at_less) simp
    have word: "?w < skip_word buf ?w \<and> skip_word buf ?w \<le> length buf" if "char_at buf ?w \<notin> set symbols"
      using that lt skip_white_stops [of buf s] skip_word_bounds [of "Suc ?w" buf] by (auto simp: skip_word.simps [of buf ?w])
    have "q = ?w \<and> ?w < e \<and> e \<le> length buf \<and> s' = skip_white buf e"
      using assms(1) False lt more word
      by (auto simp: gettoken_def Let_def symbols_def split: if_splits)
    then show ?thesis using w sw by auto
  qed
qed

lemma peek_bounds:
  assumes "peek buf s toks = (p, s')"
  shows "s \<le> s' \<and> (s \<le> length buf \<longrightarrow> s' \<le> length buf) \<and> (p \<longrightarrow> s' < length buf \<and> char_at buf s' \<noteq> 0 \<and> char_at buf s' \<in> set toks)
    \<and> char_at buf s' \<notin> set whitespace"
  using assms skip_white_bounds [of s buf] skip_white_stops [of buf s] char_at_less [of buf "skip_white buf s"]
  by (auto simp: peek_def Let_def)

lemma gettoken_after_peek:
  assumes "(p, s1) = peek buf s toks" and p and "(ret, q, e, s2) = gettoken buf s1"
  shows "s1 < s2 \<and> s \<le> s1 \<and> s2 \<le> length buf"
proof -
  have p: "s \<le> s1" "s1 < length buf" "char_at buf s1 \<noteq> 0" "char_at buf s1 \<notin> set whitespace"
    using peek_bounds [OF assms(1) [symmetric]] assms(2) by auto
  then have "skip_white buf s1 = s1" by (subst skip_white.simps) simp
  then have "ret \<noteq> 0" using p(3) assms(3) by (auto simp: gettoken_def Let_def split: if_splits)
  then show ?thesis using gettoken_bounds [OF assms(3) [symmetric]] p by auto
qed

section \<open>The parser\<close>

function parseredirs :: "line \<Rightarrow> cmd \<Rightarrow> nat \<Rightarrow> (cmd \<times> nat) result" where
  "parseredirs buf cmd s =
     (let (p, s) = peek buf s [ch_lt, ch_gt]
      in if p
         then let (tok, _, _, s) = gettoken buf s;
                  (t, q, e, s) = gettoken buf s
              in if t \<noteq> tok_word then Err (Panic ''missing file for redirection'')
                 else parseredirs buf
                        (if tok = ch_lt then RedirC cmd q e O_RDONLY 0
                         else if tok = ch_gt then RedirC cmd q e O_WRONLY_CREATE_TRUNC 1
                         else if tok = tok_append then RedirC cmd q e O_WRONLY_CREATE 1
                         else cmd) s
         else Ok (cmd, s))"
  by pat_completeness auto

termination
proof (relation "measure (\<lambda>(buf, cmd, s). length buf - s)", goal_cases)
  case (2 buf cmd s x p s1 y tok a q1 b e1 s2 z t c q d e s3)
  then have "s1 < s2 \<and> s \<le> s1 \<and> s2 \<le> length buf" using gettoken_after_peek [of p s1 buf s "[ch_lt, ch_gt]" tok q1 e1 s2] by auto
  moreover from this have "s2 \<le> s3 \<and> s3 \<le> length buf" using 2 gettoken_bounds [of buf s2 t q e s3] by auto
  ultimately show ?case by auto
qed simp

text \<open>The command that \<open>parseexec\<close> fills is the innermost one of those its redirections wrap.\<close>

fun add_arg :: "nat \<Rightarrow> nat \<Rightarrow> cmd \<Rightarrow> cmd" where
  "add_arg q e (ExecC args) = ExecC (args @ [(q, e)])"
| "add_arg q e (RedirC c f ef m fd) = RedirC (add_arg q e c) f ef m fd"
| "add_arg q e c = c"

declare parseredirs.simps [simp del]

text \<open>The loop of \<open>parseexec\<close>.\<close>

function parse_args :: "line \<Rightarrow> cmd \<Rightarrow> nat \<Rightarrow> nat \<Rightarrow> (cmd \<times> nat) result" where
  "parse_args buf ret argc s =
     (let (p, s) = peek buf s [ch_bar, ch_close, ch_amp, ch_semi]
      in if p then Ok (ret, s)
         else let (tok, q, e, s) = gettoken buf s
              in if tok = 0 then Ok (ret, s)
                 else if tok \<noteq> tok_word then Err (Panic ''syntax'')
                 else let ret = add_arg q e ret; argc = argc + 1
                      in if argc \<ge> MAXARGS then Err (Panic ''too many args'')
                         else bindr (parseredirs buf ret s) (\<lambda>(ret, s). parse_args buf ret argc s))"
  by pat_completeness auto


termination by (relation "measure (\<lambda>(buf, ret, argc, s). MAXARGS - argc)") auto

text \<open>The loop of \<open>parseline\<close> over \<open>&\<close>.\<close>

function parse_back :: "line \<Rightarrow> cmd \<Rightarrow> nat \<Rightarrow> cmd \<times> nat" where
  "parse_back buf cmd s =
     (let (p, s) = peek buf s [ch_amp]
      in if p then let (_, _, _, s) = gettoken buf s in parse_back buf (BackC cmd) s else (cmd, s))"
  by pat_completeness auto

termination
proof (relation "measure (\<lambda>(buf, cmd, s). length buf - s)", goal_cases)
  case (2 buf cmd s x p s1 y tok a q b e s2)
  then show ?case using gettoken_after_peek [of p s1 buf s "[ch_amp]" tok q e s2] by auto
qed simp

declare parse_args.simps [simp del] parse_back.simps [simp del]

text \<open>\<open>parseline\<close>, \<open>parsepipe\<close>, \<open>parseblock\<close> and \<open>parseexec\<close>, which call one another.\<close>

datatype nonterm = PLine | PPipe | PBlock | PExec

partial_function (option) parse_nt :: "nonterm \<Rightarrow> line \<Rightarrow> nat \<Rightarrow> (cmd \<times> nat) result" where
  "parse_nt nt buf s =
     (case nt of
        PLine \<Rightarrow>
          bindr (parse_nt PPipe buf s) (\<lambda>(cmd, s).
          let (cmd, s) = parse_back buf cmd s;
              (p, s) = peek buf s [ch_semi]
          in if p
             then let (_, _, _, s) = gettoken buf s
                  in bindr (parse_nt PLine buf s) (\<lambda>(right, s). Ok (ListC cmd right, s))
             else Ok (cmd, s))
      | PPipe \<Rightarrow>
          bindr (parse_nt PExec buf s) (\<lambda>(cmd, s).
          let (p, s) = peek buf s [ch_bar]
          in if p
             then let (_, _, _, s) = gettoken buf s
                  in bindr (parse_nt PPipe buf s) (\<lambda>(right, s). Ok (PipeC cmd right, s))
             else Ok (cmd, s))
      | PBlock \<Rightarrow>
          let (p, s) = peek buf s [ch_open]
          in if \<not> p then Err (Panic ''parseblock'')
             else let (_, _, _, s) = gettoken buf s
                  in bindr (parse_nt PLine buf s) (\<lambda>(cmd, s).
                     let (p, s) = peek buf s [ch_close]
                     in if \<not> p then Err (Panic ''syntax - missing )'')
                        else let (_, _, _, s) = gettoken buf s in parseredirs buf cmd s)
      | PExec \<Rightarrow>
          let (p, s) = peek buf s [ch_open]
          in if p then parse_nt PBlock buf s
             else bindr (parseredirs buf (ExecC []) s) (\<lambda>(ret, s). parse_args buf ret 0 s))"

text \<open>The writes of \<open>nulterminate\<close>, to the memory that holds the line.\<close>

fun nulterminate :: "cmd \<Rightarrow> (nat \<Rightarrow> 8 word) \<Rightarrow> (nat \<Rightarrow> 8 word)" where
  "nulterminate (ExecC args) m = fold (\<lambda>(q, e) m. m(e := 0)) args m"
| "nulterminate (RedirC c f ef mode fd) m = (nulterminate c m)(ef := 0)"
| "nulterminate (PipeC l r) m = nulterminate r (nulterminate l m)"
| "nulterminate (ListC l r) m = nulterminate r (nulterminate l m)"
| "nulterminate (BackC c) m = nulterminate c m"

text \<open>The command and the line afterwards.\<close>

definition parsecmd :: "line \<Rightarrow> (cmd \<times> (nat \<Rightarrow> 8 word)) result" where
  "parsecmd buf =
     bindr (parse_nt PLine buf 0) (\<lambda>(cmd, s).
     let (_, s) = peek buf s []
     in if s \<noteq> length buf then Err (Panic ''syntax'')
        else Ok (cmd, nulterminate cmd (char_at buf)))"

section \<open>Well-formed commands\<close>

text \<open>A word of the line, as long as it can be.\<close>

definition word_ok :: "line \<Rightarrow> nat \<Rightarrow> nat \<Rightarrow> bool" where
  "word_ok buf q e = (q < e \<and> e \<le> length buf
     \<and> (\<forall>i. q \<le> i \<and> i < e \<longrightarrow> buf ! i \<notin> set whitespace \<and> buf ! i \<notin> set symbols)
     \<and> (e < length buf \<longrightarrow> buf ! e \<in> set whitespace \<or> buf ! e \<in> set symbols))"

fun wf_cmd :: "line \<Rightarrow> cmd \<Rightarrow> bool" where
  "wf_cmd buf (ExecC args) = (length args < MAXARGS \<and> (\<forall>(q, e)\<in>set args. word_ok buf q e))"
| "wf_cmd buf (RedirC c f ef mode fd) = (wf_cmd buf c \<and> word_ok buf f ef
     \<and> (fd = 0 \<and> mode = O_RDONLY \<or> fd = 1 \<and> mode \<in> {O_WRONLY_CREATE_TRUNC, O_WRONLY_CREATE}))"
| "wf_cmd buf (PipeC l r) = (wf_cmd buf l \<and> wf_cmd buf r)"
| "wf_cmd buf (ListC l r) = (wf_cmd buf l \<and> wf_cmd buf r)"
| "wf_cmd buf (BackC c) = wf_cmd buf c"

lemma skip_word_word:
  "s \<le> length buf \<Longrightarrow> (\<forall>i. s \<le> i \<and> i < skip_word buf s \<longrightarrow> buf ! i \<notin> set whitespace \<and> buf ! i \<notin> set symbols)
     \<and> (skip_word buf s < length buf \<longrightarrow> buf ! skip_word buf s \<in> set whitespace \<or> buf ! skip_word buf s \<in> set symbols)"
proof (induction buf s rule: skip_word.induct)
  case (1 buf s)
  show ?case
  proof (cases "s < length buf \<and> char_at buf s \<notin> set whitespace \<and> char_at buf s \<notin> set symbols")
    case True
    then have eq: "skip_word buf s = skip_word buf (s + 1)" by (simp add: skip_word.simps [of buf s])
    from 1 True have IH: "\<forall>i. s + 1 \<le> i \<and> i < skip_word buf (s + 1) \<longrightarrow> buf ! i \<notin> set whitespace \<and> buf ! i \<notin> set symbols"
      "skip_word buf (s + 1) < length buf \<longrightarrow> buf ! skip_word buf (s + 1) \<in> set whitespace \<or> buf ! skip_word buf (s + 1) \<in> set symbols"
      by auto
    have "buf ! i \<notin> set whitespace \<and> buf ! i \<notin> set symbols" if "s \<le> i" "i < skip_word buf (s + 1)" for i
      using IH(1) that True by (cases "i = s") (auto simp: char_at_def)
    then show ?thesis using IH(2) unfolding eq by blast
  next
    case False
    then have "skip_word buf s = s" by (subst skip_word.simps) auto
    then show ?thesis using False by (auto simp: char_at_def)
  qed
qed

lemma gettoken_word:
  assumes "gettoken buf s = (tok_word, q, e, s')" and "s \<le> length buf"
  shows "word_ok buf q e"
proof -
  let ?w = "skip_white buf s"
  have b: "q < e \<and> e \<le> length buf" using gettoken_bounds [OF assms] by auto
  have "q = ?w \<and> e = skip_word buf ?w"
    using assms(1) by (auto simp: gettoken_def Let_def split: if_splits)
  then show ?thesis using b skip_word_word [of ?w buf] by (auto simp: word_ok_def)
qed

text \<open>How a parser called at \<open>s\<close> ends: in \<open>panic\<close>, or with a well-formed command and a position behind \<open>s\<close>.\<close>

definition parsed :: "line \<Rightarrow> nat \<Rightarrow> (cmd \<times> nat) result \<Rightarrow> bool" where
  "parsed buf s r = ((\<exists>m. r = Err (Panic m))
     \<or> (\<exists>c s'. r = Ok (c, s') \<and> s \<le> s' \<and> s' \<le> length buf \<and> wf_cmd buf c))"

lemma parsedE:
  assumes "parsed buf s r"
  obtains (fault) m where "r = Err (Panic m)"
  | (ok) c s' where "r = Ok (c, s')" and "s \<le> s'" and "s' \<le> length buf" and "wf_cmd buf c"
  using assms unfolding parsed_def by blast

lemma parsed_Err [simp]: "parsed buf s (Err (Panic m))"
  by (simp add: parsed_def)

lemma parsed_Ok [simp]: "parsed buf s (Ok (c, s')) = (s \<le> s' \<and> s' \<le> length buf \<and> wf_cmd buf c)"
  by (simp add: parsed_def)

lemma parsed_mono: "parsed buf t r \<Longrightarrow> s \<le> t \<Longrightarrow> parsed buf s r"
  by (auto simp: parsed_def)

lemma parsed_bind:
  assumes "parsed buf s r" and "\<And>c t. s \<le> t \<Longrightarrow> t \<le> length buf \<Longrightarrow> wf_cmd buf c \<Longrightarrow> parsed buf s (f (c, t))"
  shows "parsed buf s (bindr r f)"
  using assms(1) by (cases rule: parsedE) (simp_all add: assms(2))

text \<open>The number of arguments of the command inside the redirections.\<close>

fun nargs :: "cmd \<Rightarrow> nat" where
  "nargs (ExecC args) = length args"
| "nargs (RedirC c f ef m fd) = nargs c"
| "nargs c = 0"

lemma parseredirs_parsed:
  "s \<le> length buf \<Longrightarrow> wf_cmd buf cmd \<Longrightarrow> parsed buf s (parseredirs buf cmd s)
     \<and> (\<forall>c s'. parseredirs buf cmd s = Ok (c, s') \<longrightarrow> nargs c = nargs cmd)"
proof (induction buf cmd s rule: parseredirs.induct)
  case (1 buf cmd s)
  obtain p s1 where p: "(p, s1) = peek buf s [ch_lt, ch_gt]" by (metis surj_pair)
  show ?case
  proof (cases p)
    case False
    then show ?thesis
      using "1.prems" peek_bounds [OF p [symmetric]] p [symmetric] by (auto simp: parseredirs.simps [of buf cmd s])
  next
    case True
    obtain tok a b s2 where g1: "(tok, a, b, s2) = gettoken buf s1" by (metis surj_pair)
    obtain t q e s3 where g2: "(t, q, e, s3) = gettoken buf s2" by (metis surj_pair)
    have b: "s1 < s2 \<and> s \<le> s1 \<and> s2 \<le> length buf" using gettoken_after_peek [OF p True g1] .
    then have b3: "s2 \<le> s3 \<and> s3 \<le> length buf" using gettoken_bounds [OF g2 [symmetric]] by auto
    define c where "c = (if tok = ch_lt then RedirC cmd q e O_RDONLY 0
       else if tok = ch_gt then RedirC cmd q e O_WRONLY_CREATE_TRUNC 1
       else if tok = tok_append then RedirC cmd q e O_WRONLY_CREATE 1 else cmd)"
    have eq: "parseredirs buf cmd s = (if t \<noteq> tok_word then Err (Panic ''missing file for redirection'') else parseredirs buf c s3)"
      using True p [symmetric] g1 [symmetric] g2 [symmetric] by (simp add: parseredirs.simps [of buf cmd s] c_def)
    show ?thesis
    proof (cases "t = tok_word")
      case word: True
      then have "word_ok buf q e" using gettoken_word [of buf s2 q e s3] g2 b by simp
      then have wf: "wf_cmd buf c" "nargs c = nargs cmd" using "1.prems" by (auto simp: c_def)
      have "parsed buf s3 (parseredirs buf c s3) \<and> (\<forall>d s'. parseredirs buf c s3 = Ok (d, s') \<longrightarrow> nargs d = nargs c)"
        using "1.IH" [OF p refl True g1 refl refl refl g2 refl refl refl] word b3 wf(1) by (simp only: c_def) blast
      then show ?thesis using word eq wf(2) parsed_mono [of buf s3 _ s] b b3 by simp
    qed (simp add: eq)
  qed
qed

lemma add_arg_wf:
  "wf_cmd buf c \<Longrightarrow> word_ok buf q e \<Longrightarrow> nargs c + 1 < MAXARGS \<Longrightarrow> wf_cmd buf (add_arg q e c)"
  by (induction c) auto

lemma nargs_add_arg: "nargs (add_arg q e c) \<le> nargs c + 1"
  by (induction c) auto

lemma parse_args_parsed:
  "s \<le> length buf \<Longrightarrow> wf_cmd buf ret \<Longrightarrow> nargs ret \<le> argc \<Longrightarrow> parsed buf s (parse_args buf ret argc s)"
proof (induction buf ret argc s rule: parse_args.induct)
  case (1 buf ret argc s)
  obtain p s1 where p: "(p, s1) = peek buf s [ch_bar, ch_close, ch_amp, ch_semi]" by (metis surj_pair)
  obtain tok q e s2 where g: "(tok, q, e, s2) = gettoken buf s1" by (metis surj_pair)
  have b: "s \<le> s1 \<and> s1 \<le> length buf" using peek_bounds [OF p [symmetric]] "1.prems"(1) by auto
  then have b2: "s1 \<le> s2 \<and> s2 \<le> length buf" using gettoken_bounds [OF g [symmetric]] by auto
  show ?case
  proof (cases "p \<or> tok = 0 \<or> tok \<noteq> tok_word \<or> MAXARGS \<le> argc + 1")
    case True
    then show ?thesis using b b2 "1.prems" p [symmetric] g [symmetric]
      by (auto simp: parse_args.simps [of buf ret argc s])
  next
    case False
    then have w: "word_ok buf q e" using gettoken_word [of buf s1 q e s2] g b by simp
    let ?r = "add_arg q e ret"
    have wf: "wf_cmd buf ?r" "nargs ?r \<le> argc + 1"
      using add_arg_wf [OF _ w] "1.prems" False nargs_add_arg [of q e ret] by auto
    note red = parseredirs_parsed [of s2 buf ?r, OF _ wf(1)]
    have eq: "parse_args buf ret argc s = bindr (parseredirs buf ?r s2) (\<lambda>(ret, s). parse_args buf ret (argc + 1) s)"
      using False p [symmetric] g [symmetric] by (simp add: parse_args.simps [of buf ret argc s])
    have "parsed buf s (parse_args buf c (argc + 1) t)" if c: "parseredirs buf ?r s2 = Ok (c, t)" for c t
    proof -
      have "nargs c = nargs ?r" "s2 \<le> t" "t \<le> length buf" "wf_cmd buf c" using red b2 c by auto
      moreover have "parsed buf t (parse_args buf c (argc + 1) t)"
        using "1.IH" [OF p refl _ g refl refl refl] False calculation wf(2) by simp
      ultimately show ?thesis using parsed_mono [of buf t _ s] b b2 by simp
    qed
    moreover have "parsed buf s2 (parseredirs buf ?r s2)" using red b2 by simp
    ultimately show ?thesis unfolding eq by (auto elim!: parsedE)
  qed
qed

lemma parse_back_parsed:
  "s \<le> length buf \<Longrightarrow> wf_cmd buf cmd \<Longrightarrow> parsed buf s (Ok (parse_back buf cmd s))"
proof (induction buf cmd s rule: parse_back.induct)
  case (1 buf cmd s)
  obtain p s1 where p: "(p, s1) = peek buf s [ch_amp]" by (metis surj_pair)
  obtain tok q e s2 where g: "(tok, q, e, s2) = gettoken buf s1" by (metis surj_pair)
  show ?case
  proof (cases p)
    case False
    then show ?thesis
      using "1.prems" peek_bounds [OF p [symmetric]] p [symmetric] by (simp add: parse_back.simps [of buf cmd s])
  next
    case True
    have b: "s1 < s2 \<and> s \<le> s1 \<and> s2 \<le> length buf" using gettoken_after_peek [OF p True g] .
    have "parsed buf s2 (Ok (parse_back buf (BackC cmd) s2))"
      using "1.IH" [OF p refl True g refl refl refl] b "1.prems"(2) by simp
    then show ?thesis using True p [symmetric] g [symmetric] parsed_mono [of buf s2 _ s] b
      by (simp add: parse_back.simps [of buf cmd s])
  qed
qed

fun rank :: "nonterm \<Rightarrow> nat" where
  "rank PBlock = 0" | "rank PExec = 1" | "rank PPipe = 2" | "rank PLine = 3"

lemma parse_right:
  assumes "(p, s1) = peek buf t [c]" and "p" and "(tok, q, e, s2) = gettoken buf s1" and "s \<le> t"
    and "\<And>u. s < u \<Longrightarrow> u \<le> length buf \<Longrightarrow> parsed buf u (f u)" and "\<And>r. wf_cmd buf r \<Longrightarrow> wf_cmd buf (g r)"
  shows "parsed buf s (bindr (f s2) (\<lambda>(right, u). Ok (g right, u)))"
proof -
  have b: "s1 < s2" "t \<le> s1" "s2 \<le> length buf" using gettoken_after_peek [OF assms(1-3)] by auto
  then have "parsed buf s2 (f s2)" using assms(4,5) by auto
  then show ?thesis using b assms(4,6) by (cases rule: parsedE) auto
qed

text \<open>Each parser keeps \<open>parsed\<close> when those it calls do, further on in the line or lower in rank.\<close>

definition calls_parsed :: "line \<Rightarrow> nat \<Rightarrow> nonterm \<Rightarrow> bool" where
  "calls_parsed buf s nt = (\<forall>t nt'. (s < t \<or> s \<le> t \<and> rank nt' < rank nt) \<and> t \<le> length buf \<longrightarrow> parsed buf t (parse_nt nt' buf t))"

lemma callD: "calls_parsed buf s nt \<Longrightarrow> s < t \<or> s \<le> t \<and> rank nt' < rank nt \<Longrightarrow> t \<le> length buf \<Longrightarrow> parsed buf t (parse_nt nt' buf t)"
  by (auto simp: calls_parsed_def)

lemma parseline_parsed:
  assumes "calls_parsed buf s PLine" and "s \<le> length buf"
  shows "parsed buf s (parse_nt PLine buf s)"
proof -
  have "parsed buf s (let (cmd, u) = parse_back buf c t; (p, u) = peek buf u [ch_semi]
      in if p then let (_, _, _, u) = gettoken buf u
           in bindr (parse_nt PLine buf u) (\<lambda>(right, u). Ok (ListC cmd right, u)) else Ok (cmd, u))"
    if t: "s \<le> t" "t \<le> length buf" "wf_cmd buf c" for c t
  proof -
    obtain d u where d: "parse_back buf c t = (d, u)" by (metis surj_pair)
    have u: "t \<le> u" "u \<le> length buf" "wf_cmd buf d" using parse_back_parsed [OF t(2,3)] d by auto
    obtain p s1 where p: "(p, s1) = peek buf u [ch_semi]" by (metis surj_pair)
    obtain tok q e s2 where g: "(tok, q, e, s2) = gettoken buf s1" by (metis surj_pair)
    have "parsed buf s (bindr (parse_nt PLine buf s2) (\<lambda>(right, u). Ok (ListC d right, u)))" if p
      by (rule parse_right [OF p that g]) (use t u callD [OF assms(1)] in auto)
    then show ?thesis using d p [symmetric] g [symmetric] t u peek_bounds [OF p [symmetric]] by auto
  qed
  then show ?thesis using parsed_bind [OF callD [OF assms(1), of s PPipe]] assms(2)
    by (subst parse_nt.simps) simp
qed

lemma parsepipe_parsed:
  assumes "calls_parsed buf s PPipe" and "s \<le> length buf"
  shows "parsed buf s (parse_nt PPipe buf s)"
proof -
  have "parsed buf s (let (p, u) = peek buf t [ch_bar]
      in if p then let (_, _, _, u) = gettoken buf u
           in bindr (parse_nt PPipe buf u) (\<lambda>(right, u). Ok (PipeC c right, u)) else Ok (c, u))"
    if t: "s \<le> t" "t \<le> length buf" "wf_cmd buf c" for c t
  proof -
    obtain p s1 where p: "(p, s1) = peek buf t [ch_bar]" by (metis surj_pair)
    obtain tok q e s2 where g: "(tok, q, e, s2) = gettoken buf s1" by (metis surj_pair)
    have "parsed buf s (bindr (parse_nt PPipe buf s2) (\<lambda>(right, u). Ok (PipeC c right, u)))" if p
      by (rule parse_right [OF p that g]) (use t callD [OF assms(1)] in auto)
    then show ?thesis using p [symmetric] g [symmetric] t peek_bounds [OF p [symmetric]] by auto
  qed
  then show ?thesis using parsed_bind [OF callD [OF assms(1), of s PExec]] assms(2)
    by (subst parse_nt.simps) simp
qed

lemma parseblock_parsed:
  assumes "calls_parsed buf s PBlock"
  shows "parsed buf s (parse_nt PBlock buf s)"
proof -
  obtain p s1 where p: "(p, s1) = peek buf s [ch_open]" by (metis surj_pair)
  obtain tok q e s2 where g: "(tok, q, e, s2) = gettoken buf s1" by (metis surj_pair)
  have "parsed buf s (bindr (parse_nt PLine buf s2) (\<lambda>(cmd, s). let (p, s) = peek buf s [ch_close]
      in if \<not> p then Err (Panic ''syntax - missing )'')
         else let (_, _, _, s) = gettoken buf s in parseredirs buf cmd s))" if p
  proof -
    have b: "s < s2" "s2 \<le> length buf" using gettoken_after_peek [OF p that g] by auto
    have "parsed buf s2 (let (p, s) = peek buf t [ch_close] in if \<not> p then Err (Panic ''syntax - missing )'')
        else let (_, _, _, s) = gettoken buf s in parseredirs buf c s)"
      if t: "s2 \<le> t" "t \<le> length buf" "wf_cmd buf c" for c t
    proof -
      obtain p' u where p': "(p', u) = peek buf t [ch_close]" by (metis surj_pair)
      obtain tok' q' e' v where g': "(tok', q', e', v) = gettoken buf u" by (metis surj_pair)
      have "parsed buf s2 (parseredirs buf c v)" if p'
        using gettoken_after_peek [OF p' that g'] t parseredirs_parsed [of v buf c] parsed_mono [of buf v _ s2] by auto
      then show ?thesis using p' [symmetric] g' [symmetric] by simp
    qed
    then show ?thesis using parsed_mono [OF parsed_bind [OF callD [OF assms, of s2 PLine]]] b by auto
  qed
  then show ?thesis using p [symmetric] g [symmetric] by (subst parse_nt.simps) simp
qed

lemma parseexec_parsed:
  assumes "calls_parsed buf s PExec" and "s \<le> length buf"
  shows "parsed buf s (parse_nt PExec buf s)"
proof -
  obtain p s1 where p: "(p, s1) = peek buf s [ch_open]" by (metis surj_pair)
  have b: "s \<le> s1" "s1 \<le> length buf" using peek_bounds [OF p [symmetric]] assms(2) by auto
  have "parsed buf s1 (parse_nt PBlock buf s1)" using callD [OF assms(1), of s1 PBlock] b by auto
  moreover have "parsed buf s1 (bindr (parseredirs buf (ExecC []) s1) (\<lambda>(ret, s). parse_args buf ret 0 s))"
  proof -
    have red: "parsed buf s1 (parseredirs buf (ExecC []) s1)"
      "\<And>c t. parseredirs buf (ExecC []) s1 = Ok (c, t) \<Longrightarrow> nargs c = 0"
      using parseredirs_parsed [of s1 buf "ExecC []"] b by auto
    from red(1) show ?thesis
    proof (cases rule: parsedE)
      case (ok c t)
      then show ?thesis using parse_args_parsed [of t buf c 0] red(2) parsed_mono [of buf t _ s1] by simp
    qed simp
  qed
  ultimately show ?thesis using p [symmetric] parsed_mono [of buf s1 _ s] b by (subst parse_nt.simps) simp
qed

lemma parse_nt_parsed: "s \<le> length buf \<Longrightarrow> parsed buf s (parse_nt nt buf s)"
proof (induction "4 * (length buf - s) + rank nt" arbitrary: nt s rule: less_induct)
  case less
  have "calls_parsed buf s nt"
    unfolding calls_parsed_def
  proof (intro allI impI)
    fix t nt'
    assume "(s < t \<or> s \<le> t \<and> rank nt' < rank nt) \<and> t \<le> length buf"
    moreover have "rank nt' \<le> 3" by (cases nt') auto
    ultimately show "parsed buf t (parse_nt nt' buf t)" by (intro less.hyps) auto
  qed
  then show ?case
    using parseline_parsed parsepipe_parsed parseblock_parsed parseexec_parsed less.prems by (cases nt) auto
qed

lemma parsecmd_Ok:
  "parsecmd buf = Ok (c, m) \<Longrightarrow> wf_cmd buf c \<and> m = nulterminate c (char_at buf)"
  using parse_nt_parsed [of 0 buf PLine]
  by (auto simp: parsecmd_def Let_def elim!: bindr_OkE split: prod.splits if_splits)

text \<open>C38. The parser terminates on every line: it ends in one of its panics or returns a command whose
  words are maximal runs of ordinary bytes inside the line, with fewer than \<open>MAXARGS\<close> arguments in
  each simple command and an open mode that fits the descriptor in each redirection.\<close>

theorem parsecmd_wf:
  "(\<exists>msg. parsecmd buf = Err (Panic msg)) \<or> (\<exists>c m. parsecmd buf = Ok (c, m) \<and> wf_cmd buf c)"
  using parse_nt_parsed [of 0 buf PLine, simplified]
proof (cases rule: parsedE)
  case (ok c s)
  then show ?thesis by (cases "peek buf s []") (simp add: parsecmd_def)
qed (simp add: parsecmd_def)

section \<open>NUL termination\<close>

fun words_of :: "cmd \<Rightarrow> (nat \<times> nat) list" where
  "words_of (ExecC args) = args"
| "words_of (RedirC c f ef m fd) = words_of c @ [(f, ef)]"
| "words_of (PipeC l r) = words_of l @ words_of r"
| "words_of (ListC l r) = words_of l @ words_of r"
| "words_of (BackC c) = words_of c"

lemma fold_nul: "fold (\<lambda>(q, e) m. m(e := 0)) args m i = (if i \<in> snd ` set args then 0 else m i)"
  by (induction args arbitrary: m) auto

lemma nulterminate_eq: "nulterminate c m i = (if i \<in> snd ` set (words_of c) then 0 else m i)"
  by (induction c arbitrary: m) (auto simp: fold_nul image_Un)

lemma wf_words: "wf_cmd buf c \<Longrightarrow> (q, e) \<in> set (words_of c) \<Longrightarrow> word_ok buf q e"
  by (induction c) auto

text \<open>No word ends inside another one.\<close>

lemma word_end_outside: "word_ok buf q e \<Longrightarrow> word_ok buf q' e' \<Longrightarrow> q \<le> e' \<Longrightarrow> e' < e \<Longrightarrow> False"
  by (auto simp: word_ok_def)

text \<open>C39. After \<open>parsecmd\<close> every argument and every file name of the command is a NUL-terminated string
  of its own in the line: its bytes are those of the line, none of them is NUL, although the
  terminators of all words are written into the same buffer.\<close>

theorem parsecmd_words:
  assumes "parsecmd buf = Ok (c, m)" and "0 \<notin> set buf" and "(q, e) \<in> set (words_of c)"
  shows "q < e \<and> m e = 0 \<and> (\<forall>i. q \<le> i \<and> i < e \<longrightarrow> m i = buf ! i \<and> m i \<noteq> 0)"
proof -
  have wf: "wf_cmd buf c" and m: "m = nulterminate c (char_at buf)" using parsecmd_Ok [OF assms(1)] by auto
  have w: "word_ok buf q e" using wf_words [OF wf assms(3)] .
  have "m i = buf ! i \<and> m i \<noteq> 0" if "q \<le> i" "i < e" for i
  proof -
    have "i \<notin> snd ` set (words_of c)"
      using word_end_outside [OF w] wf_words [OF wf] that by fastforce
    moreover have i: "i < length buf" using that w by (auto simp: word_ok_def)
    moreover have "buf ! i \<noteq> 0" using assms(2) nth_mem [OF i] by metis
    ultimately show ?thesis by (simp add: m nulterminate_eq char_at_def)
  qed
  moreover have "m e = 0" using assms(3) by (force simp: m nulterminate_eq)
  moreover have "q < e" using w by (simp add: word_ok_def)
  ultimately show ?thesis by blast
qed

text \<open>The witness parses the line \<open>a\<close>.\<close>

lemma tokens_a:
  "skip_white [97] 0 = 0" "skip_white [97] (Suc 0) = Suc 0" "gettoken [97] 0 = (tok_word, 0, Suc 0, Suc 0)"
  "gettoken [97] (Suc 0) = (0, Suc 0, Suc 0, Suc 0)"
proof -
  show w: "skip_white [97] 0 = 0" "skip_white [97] (Suc 0) = Suc 0"
    by (simp_all add: skip_white.simps char_at_def whitespace_def)
  have "skip_word [97] 0 = Suc 0" by (simp add: skip_word.simps char_at_def whitespace_def symbols_def)
  with w show "gettoken [97] 0 = (tok_word, 0, Suc 0, Suc 0)" "gettoken [97] (Suc 0) = (0, Suc 0, Suc 0, Suc 0)"
    by (simp_all add: gettoken_def char_at_def)
qed

lemma parse_a: "parsecmd [97] = Ok (ExecC [(0, Suc 0)], (char_at [97])(Suc 0 := 0))"
proof -
  have pk: "peek [97] 0 toks = (97 \<in> set toks, 0)" "peek [97] (Suc 0) toks = (False, Suc 0)" for toks
    by (simp_all add: peek_def tokens_a char_at_def)
  have r: "parseredirs [97] c 0 = Ok (c, 0)" "parseredirs [97] c (Suc 0) = Ok (c, Suc 0)" for c
    by (subst parseredirs.simps, simp add: pk)+
  have a1: "parse_args [97] (ExecC [(0, Suc 0)]) (Suc 0) (Suc 0) = Ok (ExecC [(0, Suc 0)], Suc 0)"
    by (subst parse_args.simps) (simp add: pk tokens_a)
  have a0: "parse_args [97] (ExecC []) 0 0 = Ok (ExecC [(0, Suc 0)], Suc 0)"
    by (subst parse_args.simps) (simp add: pk tokens_a r a1)
  have "parse_nt PExec [97] 0 = Ok (ExecC [(0, Suc 0)], Suc 0)" by (subst parse_nt.simps) (simp add: pk r a0)
  then have "parse_nt PPipe [97] 0 = Ok (ExecC [(0, Suc 0)], Suc 0)" by (subst parse_nt.simps) (simp add: pk)
  moreover have "parse_back [97] c (Suc 0) = (c, Suc 0)" for c by (subst parse_back.simps) (simp add: pk)
  ultimately have "parse_nt PLine [97] 0 = Ok (ExecC [(0, Suc 0)], Suc 0)" by (subst parse_nt.simps) (simp add: pk)
  then show ?thesis by (simp add: parsecmd_def pk)
qed

theorem parsecmd_words_witness:
  "\<exists>m. parsecmd [97] = Ok (ExecC [(0, 1)], m) \<and> m 0 = 97 \<and> m 1 = 0"
  using parsecmd_words [OF parse_a, of 0 "Suc 0"] parse_a by (auto simp: char_at_def)

section \<open>Running commands\<close>

text \<open>
  What a process does after \<open>runcmd\<close>, as a tree of its system calls. \<open>exec\<close> returns only on failure, \<open>open\<close> and
  \<open>fork\<close> go on in one of two or three ways, and \<open>pipe\<close> with the two descriptors or without.
\<close>

datatype prog =
    Exit int
  | Exec "(nat \<times> nat) list" prog
  | Close nat prog
  | Open nat nat prog prog              \<comment> \<open>the file and mode; what follows success and failure\<close>
  | Dup nat prog
  | Pipe "(nat \<times> nat) option \<Rightarrow> prog"
  | Fork prog prog prog                 \<comment> \<open>what follows failure, in the child, and in the parent\<close>
  | Wait prog
  | Eprint string prog                  \<comment> \<open>\<open>fprintf(2, ...)\<close>\<close>

definition sh_panic :: "string \<Rightarrow> prog" where
  "sh_panic msg = Eprint msg (Exit 1)"

definition fork1 :: "prog \<Rightarrow> prog \<Rightarrow> prog" where
  "fork1 child parent = Fork (sh_panic ''fork'') child parent"

primrec runcmd :: "cmd \<Rightarrow> prog" where
  "runcmd (ExecC args) =
     (if args = [] then Exit 1 else Exec args (Eprint ''exec %s failed'' (Exit 0)))"
| "runcmd (RedirC c f ef mode fd) =
     Close (nat fd) (Open f mode (runcmd c) (Eprint ''open %s failed'' (Exit 1)))"
| "runcmd (PipeC l r) =
     Pipe (\<lambda>p. case p of None \<Rightarrow> sh_panic ''pipe''
       | Some (p0, p1) \<Rightarrow>
           fork1 (Close 1 (Dup p1 (Close p0 (Close p1 (runcmd l)))))
             (fork1 (Close 0 (Dup p0 (Close p0 (Close p1 (runcmd r)))))
               (Close p0 (Close p1 (Wait (Wait (Exit 0)))))))"
| "runcmd (ListC l r) = fork1 (runcmd l) (Wait (runcmd r))"
| "runcmd (BackC c) = fork1 (runcmd c) (Exit 0)"

text \<open>
  The programs executed, with the descriptor table of each, when no call fails: \<open>open\<close>, \<open>dup\<close> and
  \<open>pipe\<close> take the lowest free descriptors, as \<open>fdalloc\<close> of the kernel does, and a child has a copy of its parent's table.
  Pipes are numbered as they are made.
\<close>

datatype fobj = Inherited nat | FileObj nat nat | PipeRead nat | PipeWrite nat

type_synonym fdt = "nat \<Rightarrow> fobj option"

definition free_fd :: "fdt \<Rightarrow> nat option" where
  "free_fd t = find (\<lambda>i. t i = None) [0..<16]"

definition fd_put :: "fobj option \<Rightarrow> fdt \<Rightarrow> fdt" where
  "fd_put x t = (case free_fd t of None \<Rightarrow> t | Some i \<Rightarrow> t(i := x))"

primrec run :: "prog \<Rightarrow> fdt \<Rightarrow> nat \<Rightarrow> ((nat \<times> nat) list \<times> fdt) list \<times> nat" where
  "run (Exit i) t n = ([], n)"
| "run (Exec args p) t n = ([(args, t)], n)"
| "run (Close fd p) t n = run p (t(fd := None)) n"
| "run (Open f m p q) t n = run p (fd_put (Some (FileObj f m)) t) n"
| "run (Dup fd p) t n = run p (fd_put (t fd) t) n"
| "run (Pipe k) t n =
     (case free_fd t of None \<Rightarrow> run (k None) t n
      | Some p0 \<Rightarrow>
          (case free_fd (t(p0 \<mapsto> PipeRead n)) of None \<Rightarrow> run (k None) t n
           | Some p1 \<Rightarrow> run (k (Some (p0, p1))) (t(p0 \<mapsto> PipeRead n, p1 \<mapsto> PipeWrite n)) (n + 1)))"
| "run (Fork e c p) t n =
     (let (xs, n) = run c t n; (ys, n) = run p t n in (xs @ ys, n))"
| "run (Wait p) t n = run p t n"
| "run (Eprint m p) t n = run p t n"

text \<open>What the command means: the simple commands in order, each with its standard input and output.\<close>

fun wire :: "cmd \<Rightarrow> fobj \<Rightarrow> fobj \<Rightarrow> nat \<Rightarrow> ((nat \<times> nat) list \<times> fobj \<times> fobj) list \<times> nat" where
  "wire (ExecC args) i out n = (if args = [] then [] else [(args, i, out)], n)"
| "wire (RedirC c f ef mode fd) i out n =
     (if fd = 0 then wire c (FileObj f mode) out n else wire c i (FileObj f mode) n)"
| "wire (PipeC l r) i out n =
     (let (xs, k) = wire l i (PipeWrite n) (n + 1); (ys, k) = wire r (PipeRead n) out k in (xs @ ys, k))"
| "wire (ListC l r) i out n = (let (xs, k) = wire l i out n; (ys, k) = wire r i out k in (xs @ ys, k))"
| "wire (BackC c) i out n = wire c i out n"

definition std :: "fobj \<Rightarrow> fobj \<Rightarrow> fobj \<Rightarrow> fdt" where
  "std i out err = (\<lambda>_. None)(0 \<mapsto> i, 1 \<mapsto> out, 2 \<mapsto> err)"

lemma upt16: "[0..<16] = [0, 1, 2, 3, 4, 5, 6, 7, 8, 9, 10, 11, 12, 13, 14, 15::nat]"
  by (simp add: upt_rec)

lemma run_runcmd:
  "wf_cmd buf c \<Longrightarrow> run (runcmd c) (std i out err) n
    = (map (\<lambda>(args, i, out). (args, std i out err)) (fst (wire c i out n)), snd (wire c i out n))"
proof (induction c arbitrary: i out n)
  case (ExecC args)
  then show ?case by simp
next
  case (RedirC c f ef mode fd)
  have 0: "fd_put (Some x) ((std i out err)(0 := None)) = std x out err" for x
    by (simp add: fd_put_def free_fd_def upt16 std_def fun_eq_iff)
  have 1: "fd_put (Some x) ((std i out err)(Suc 0 := None)) = std i x err" for x
    by (simp add: fd_put_def free_fd_def upt16 std_def fun_eq_iff)
  from RedirC show ?case by (auto simp: 0 1)
next
  case (PipeC l r)
  let ?t = "(std i out err)(3 \<mapsto> PipeRead n, 4 \<mapsto> PipeWrite n)"
  have p: "free_fd (std i out err) = Some 3" "free_fd ((std i out err)(3 \<mapsto> PipeRead n)) = Some 4"
    by (simp_all add: free_fd_def upt16 std_def)
  have l: "(fd_put (?t 4) (?t(Suc 0 := None)))(3 := None, 4 := None) = std i (PipeWrite n) err"
    by (simp add: fd_put_def free_fd_def upt16 std_def fun_eq_iff)
  have r: "(fd_put (?t 3) (?t(0 := None)))(3 := None, 4 := None) = std (PipeRead n) out err"
    by (simp add: fd_put_def free_fd_def upt16 std_def fun_eq_iff)
  show ?case
    using PipeC by (simp add: p fork1_def l [simplified] r [simplified] split: prod.splits)
next
  case (ListC l r)
  then show ?case by (simp add: fork1_def split: prod.splits)
next
  case (BackC c)
  then show ?case by (simp add: fork1_def split: prod.splits)
qed

text \<open>C40. The system calls of \<open>runcmd\<close> connect the programs of a command as the command says: when no
  call fails and only the standard descriptors are open, the programs executed are the simple
  commands in order, a program left of \<open>|\<close> writes to the pipe the one right of it reads from, a
  redirection replaces standard input or output, and no program inherits another descriptor.\<close>

theorem runcmd_wires:
  assumes "wf_cmd buf c"
  shows "run (runcmd c) (std i out err) n
      = (map (\<lambda>(args, i, out). (args, std i out err)) (fst (wire c i out n)), snd (wire c i out n))
    \<and> (\<forall>x\<in>set (fst (run (runcmd c) (std i out err) n)). dom (snd x) = {0, 1, 2})"
proof -
  have "dom (std a b err) = {0, 1, 2}" for a b by (auto simp: std_def split: if_splits)
  then show ?thesis using run_runcmd [OF assms, of i out err n] by (simp split: prod.split)
qed

text \<open>The witness runs \<open>a|b\<close>.\<close>

theorem runcmd_wires_witness:
  "run (runcmd (PipeC (ExecC [(0, 1)]) (ExecC [(2, 3)]))) (std (Inherited 0) (Inherited 1) (Inherited 2)) 0
    = ([([(0, 1)], std (Inherited 0) (PipeWrite 0) (Inherited 2)),
        ([(2, 3)], std (PipeRead 0) (Inherited 1) (Inherited 2))], 1)"
proof -
  have i: "2 \<le> i \<and> i < 3 \<longleftrightarrow> i = 2" for i :: nat by auto
  have "word_ok [97, 124, 98] 0 1" "word_ok [97, 124, 98] 2 3"
    unfolding word_ok_def i by (simp_all add: whitespace_def symbols_def)
  then have "wf_cmd [97, 124, 98] (PipeC (ExecC [(0, 1)]) (ExecC [(2, 3)]))" by simp
  from runcmd_wires [OF this, of "Inherited 0" "Inherited 1" "Inherited 2" 0] show ?thesis by simp
qed

end
