(* ===== verification/Spec2Isabelle.thy ===== *)
theory Spec2Isabelle
  imports Slab_Pool Vm_Map Trap Grep Printf Log_Props Pipe_Queue Shell
begin

text \<open>
  \<^bold>\<open>xv6 for RISC-V with a buddy and a slab allocator: a verification development.\<close>

  The program is a small Unix kernel (\<^verbatim>\<open>kernel/\<close>) with its user library and programs (\<^verbatim>\<open>user/\<close>). Its
  physical memory is managed by a buddy allocator (\<^verbatim>\<open>buddy_kalloc.c\<close>), through which the page
  allocator (\<^verbatim>\<open>kalloc.c\<close>) and the slab allocator (\<^verbatim>\<open>slab_allocator.c\<close>) get theirs. On top of them are page
  tables (\<^verbatim>\<open>vm.c\<close>), processes (\<^verbatim>\<open>proc.c\<close>), the buffer cache, log and file system (\<^verbatim>\<open>bio.c\<close>, \<^verbatim>\<open>log.c\<close>, \<^verbatim>\<open>fs.c\<close>),
  console, files and pipes (\<^verbatim>\<open>uart.c\<close>, \<^verbatim>\<open>console.c\<close>, \<^verbatim>\<open>file.c\<close>, \<^verbatim>\<open>pipe.c\<close>), and the system calls and traps
  (\<^verbatim>\<open>exec.c\<close>, \<^verbatim>\<open>syscall.c\<close>, \<^verbatim>\<open>sysproc.c\<close>, \<^verbatim>\<open>sysfile.c\<close>, \<^verbatim>\<open>sys_slab_allocator.c\<close>, \<^verbatim>\<open>trap.c\<close>, \<^verbatim>\<open>plic.c\<close>).

  \<^bold>\<open>State and effects.\<close> C functions are state-passing functions with a result in \<open>'a result\<close>: \<open>None\<close>
  when the function never returns, \<open>Err e\<close> for a panic or an access the C semantics does not allow
  (an index out of bounds, an address that is not mapped, a signed overflow), \<open>Ok a\<close> otherwise. The state is one chain of
  extensible records, each added by the component that owns the fields: \<open>klocks\<close> (spin locks, harts), \<open>buddy\<close>
  (the packed tree), \<open>kmem\<close> (the bytes of the RAM), \<open>kslab\<close>, \<open>kernel\<close> (processes), \<open>kbio\<close> (sleep locks, buffers),
  \<open>klog\<close>, \<open>kfs\<close>, \<open>kcons\<close>, \<open>kfile\<close>; a function is typed on the smallest one it needs. Data that the kernel keeps in pages
  (slabs, page tables, pipes, trap frames, disk blocks) is bytes at the offsets of the C structures. Addresses
  and unsigned integers are naturals with \<open>mod 2 ^ w\<close> written out, packed states and registers are words. A signed operation on
  values the code does not bound (process ids, \<open>atoi\<close>, the negation in \<open>printint\<close>, the sums over the slabs of a cache) is a fault when it
  overflows; counters that stay small, such as the nesting depth \<open>noff\<close> and \<open>log.outstanding\<close>, are mathematical integers.

  \<^bold>\<open>Parameters.\<close> Code that is not in the sources is an argument: the addresses the linker and compiler choose,
  what other threads do between a call of \<open>swtch\<close> and its return, the disk transfer, the device registers (\<open>kparam\<close>, \<open>kenv\<close>, \<open>tparam\<close>).

  \<^bold>\<open>Theories.\<close>
  \<^item> \<^verbatim>\<open>Prelude\<close>: results, their monad, and generic lemmas. \<^verbatim>\<open>Memory\<close>, \<^verbatim>\<open>Kmem\<close>: byte memory, loads and stores.
  \<^item> \<^verbatim>\<open>Spinlock\<close>: \<^verbatim>\<open>spinlock.c\<close>, as functions of one hart and as a step relation of any number of them; mutual
    exclusion, and that a hart that waits is never stuck. The other components use the functions of one hart, where a lock that
    another hart holds stays held; the step relation is where the harts interleave.
  \<^item> \<^verbatim>\<open>Buddy\<close>: \<^verbatim>\<open>buddy_kalloc.c\<close>. \<^verbatim>\<open>Buddy_Tree\<close> to \<^verbatim>\<open>Buddy_Search\<close> relate the packed tree to the memory it
    stands for; \<^verbatim>\<open>Buddy_Props\<close> has what allocating and freeing promise, when freeing is safe, and the overlap that results when it is not.
  \<^item> \<^verbatim>\<open>Kalloc\<close>: \<^verbatim>\<open>kalloc.c\<close> as a client of the buddy allocator's interface.
  \<^item> \<^verbatim>\<open>Kstring\<close>: \<^verbatim>\<open>string.c\<close> and the string functions of \<^verbatim>\<open>ulib.c\<close>.
  \<^item> \<^verbatim>\<open>Slab\<close>: \<^verbatim>\<open>slab_allocator.c\<close>. \<^verbatim>\<open>Slab_Pool\<close>: a slab is a pool of slots, each handed out once, for objects of 8 bytes and more.
  \<^item> \<^verbatim>\<open>Riscv\<close>: \<^verbatim>\<open>riscv.h\<close> and \<^verbatim>\<open>start.c\<close> on a register file.
  \<^item> \<^verbatim>\<open>Kstate\<close>, \<^verbatim>\<open>Vm\<close>, \<^verbatim>\<open>Proc\<close>: the kernel state, \<^verbatim>\<open>vm.c\<close>, \<^verbatim>\<open>proc.c\<close>. \<^verbatim>\<open>Vm_Map\<close>: a page table in memory is a map
    from pages to entries, which \<open>mappages\<close> extends and \<open>walkaddr\<close> reads. \<^verbatim>\<open>Proc_Props\<close>: what waking and killing do.
  \<^item> \<^verbatim>\<open>Bio\<close>, \<^verbatim>\<open>Log\<close>, \<^verbatim>\<open>Fs\<close>: \<^verbatim>\<open>sleeplock.c\<close> and \<^verbatim>\<open>bio.c\<close>, \<^verbatim>\<open>log.c\<close>, \<^verbatim>\<open>fs.c\<close>. \<^verbatim>\<open>Bio_Props\<close>: the pointers of the buffer cache
    are a list in the order of use, with one buffer per block, waiting for a locked buffer included. \<^verbatim>\<open>Log_Props\<close>: reservation and absorption.
  \<^item> \<^verbatim>\<open>Console\<close>, \<^verbatim>\<open>File\<close>: \<^verbatim>\<open>uart.c\<close>, \<^verbatim>\<open>console.c\<close>, \<^verbatim>\<open>file.c\<close>, \<^verbatim>\<open>pipe.c\<close>. \<^verbatim>\<open>Pipe_Queue\<close>: a pipe is a bounded queue.
  \<^item> \<^verbatim>\<open>Fork\<close>, \<^verbatim>\<open>Syscall\<close>, \<^verbatim>\<open>Trap\<close>: fork, exit and exec, the system calls, traps and the interrupt controller.
  \<^item> \<^verbatim>\<open>Printf\<close>: the formatting of \<^verbatim>\<open>user/printf.c\<close> and \<^verbatim>\<open>kernel/printf.c\<close>, and that they agree up to the case of hexadecimal digits.
  \<^item> \<^verbatim>\<open>Grep\<close>, \<^verbatim>\<open>Shell\<close>: the matcher of \<^verbatim>\<open>user/grep.c\<close> against a declarative meaning of patterns; the parser of \<^verbatim>\<open>user/sh.c\<close> and
    the system calls a command makes.

  \<^bold>\<open>Interfaces.\<close> Where a component relies on another, the contract is a locale that the provider interprets: the buddy
  allocator for its clients, the slots of a slab, the bytes of a pipe.

  \<^bold>\<open>Loops.\<close> Loops over a bounded range are recursion on lists or functions with a measure. Loops whose end depends on the state
  (waiting, spinning, walking a pointer list) are partial functions into \<open>option\<close>, where not returning is \<open>None\<close>; no fuel is used. That
  such a loop returns is proved where a property needs it, from the invariant that bounds it.

  \<^bold>\<open>Not modelled.\<close> The virtio disk driver shares rings with a device whose behaviour is not in the sources; assembly
  (\<^verbatim>\<open>entry.S\<close>, \<^verbatim>\<open>kernelvec.S\<close>, \<^verbatim>\<open>swtch.S\<close>, \<^verbatim>\<open>trampoline.S\<close>) appears as addresses and parameters;
  \<^verbatim>\<open>main.c\<close> calls the initialisers, the driver's included; \<^verbatim>\<open>umalloc.c\<close> is left out;
  test programs and the short utilities are scripts of system calls. The model runs one hart at a time: harts interleave only in the step relation of the spin lock,
  and other threads act only where a thread gives up its hart. Memory exhaustion of \<^verbatim>\<open>malloc\<close> in the shell and the text of kernel messages are not modelled.
\<close>

end
